(* ===== verification/Go_Prelude.thy ===== *)
theory Go_Prelude
  imports Main "HOL-Library.Word" "HOL-Library.AList"
begin

text \<open>
  The vocabulary the component theories share: Go's machine types, errors and panics as
  values, slices with their bounds checks, maps as association lists, byte strings, and the
  decimal printer of \<^verbatim>\<open>strconv\<close>.

  A Go string is a sequence of bytes; it is a \<^typ>\<open>string\<close> here, one \<^typ>\<open>char\<close> per byte.
  A byte slice is a list of \<^typ>\<open>8 word\<close>.  An instant or a duration of package \<^verbatim>\<open>time\<close> is an
  \<^typ>\<open>int\<close>, counted in nanoseconds.
\<close>

section \<open>Types\<close>

type_synonym byte = "8 word"
type_synonym bytes = "8 word list"
type_synonym duration = int
type_synonym instant = int

text \<open>
  An operation that may fail returns a sum: \<open>Inl (Error msg)\<close> is an error value of the code,
  \<open>Inl (Panic msg)\<close> a run-time panic (an index or slice bound out of range, a negative
  capacity), which no caller in the repository recovers from.
\<close>

datatype gerr = Error string | Panic string

type_synonym 'a go = "gerr + 'a"

named_theorems go_defs \<open>definitions of the Go run-time vocabulary, for unfolding\<close>
named_theorems go_len \<open>length facts used to discharge bounds checks\<close>

definition go_bind :: "'a go \<Rightarrow> ('a \<Rightarrow> 'b go) \<Rightarrow> 'b go" where
  "go_bind m f = (case m of Inl e \<Rightarrow> Inl e | Inr x \<Rightarrow> f x)"

lemma go_bind_simps [simp]:
  "go_bind (Inl e) f = Inl e"
  "go_bind (Inr x) f = f x"
  by (simp_all add: go_bind_def)

lemma go_bind_Inr_iff: "go_bind m f = Inr y \<longleftrightarrow> (\<exists>x. m = Inr x \<and> f x = Inr y)"
  by (cases m) auto

lemma go_bind_Inl_iff:
  "go_bind m f = Inl e \<longleftrightarrow> m = Inl e \<or> (\<exists>x. m = Inr x \<and> f x = Inl e)"
  by (cases m) auto

fun is_panic :: "'a go \<Rightarrow> bool" where
  "is_panic (Inl (Panic m)) = True"
| "is_panic _ = False"

lemma is_panic_iff: "is_panic r \<longleftrightarrow> (\<exists>m. r = Inl (Panic m))"
  by (cases r rule: is_panic.cases) auto

lemma is_panic_bind:
  "is_panic (go_bind m f) \<longleftrightarrow> is_panic m \<or> (\<exists>x. m = Inr x \<and> is_panic (f x))"
  by (cases m rule: is_panic.cases) auto

section \<open>Slices\<close>

text \<open>
  Indexing and slicing with the run-time's bounds checks.  The slices of the code that are
  re-sliced here have their capacity equal to their length.
\<close>

definition go_index :: "'a list \<Rightarrow> int \<Rightarrow> 'a go" where
  [go_defs]: "go_index xs i =
     (if 0 \<le> i \<and> i < int (length xs) then Inr (xs ! nat i)
      else Inl (Panic ''index out of range''))"

definition go_slice :: "'a list \<Rightarrow> int \<Rightarrow> int \<Rightarrow> 'a list go" where
  [go_defs]: "go_slice xs i j =
     (if 0 \<le> i \<and> i \<le> j \<and> j \<le> int (length xs)
      then Inr (take (nat j - nat i) (drop (nat i) xs))
      else Inl (Panic ''slice bounds out of range''))"

lemma go_index_ok: "0 \<le> i \<Longrightarrow> i < int (length xs) \<Longrightarrow> go_index xs i = Inr (xs ! nat i)"
  by (simp add: go_defs)

lemma go_slice_ok:
  "0 \<le> i \<Longrightarrow> i \<le> j \<Longrightarrow> j \<le> int (length xs) \<Longrightarrow>
   go_slice xs i j = Inr (take (nat j - nat i) (drop (nat i) xs))"
  by (simp add: go_defs)

lemma go_slice_nat: "i \<le> j \<Longrightarrow> j \<le> length xs \<Longrightarrow> go_slice xs (int i) (int j) = Inr (take (j - i) (drop i xs))"
  by (simp add: go_defs)

lemma go_index_panics: "is_panic (go_index xs i) \<longleftrightarrow> \<not> (0 \<le> i \<and> i < int (length xs))"
  by (simp add: go_defs)

lemma go_slice_panics:
  "is_panic (go_slice xs i j) \<longleftrightarrow> \<not> (0 \<le> i \<and> i \<le> j \<and> j \<le> int (length xs))"
  by (simp add: go_defs)

section \<open>Integers of a fixed width\<close>

definition int64 :: "int \<Rightarrow> int" where
  "int64 x = (x + 2 ^ 63) mod 2 ^ 64 - 2 ^ 63"

text \<open>Go's integer division truncates toward zero.\<close>

definition go_div :: "int \<Rightarrow> int \<Rightarrow> int" where
  "go_div a b = sgn a * sgn b * (\<bar>a\<bar> div \<bar>b\<bar>)"

lemma go_div_nonneg: "0 \<le> a \<Longrightarrow> 0 < b \<Longrightarrow> go_div a b = a div b"
  by (cases "a = 0") (auto simp: go_div_def sgn_if)

lemma int64_range: "- (2 ^ 63) \<le> int64 x \<and> int64 x < 2 ^ 63"
proof -
  have "0 \<le> (x + 2 ^ 63) mod 2 ^ 64" and "(x + 2 ^ 63) mod 2 ^ 64 < 2 ^ 64"
    by simp_all
  then show ?thesis unfolding int64_def by simp
qed

lemma int64_id: "- (2 ^ 63) \<le> x \<Longrightarrow> x < 2 ^ 63 \<Longrightarrow> int64 x = x"
  unfolding int64_def by (subst mod_pos_pos_trivial) simp_all

text \<open>\<^verbatim>\<open>binary.BigEndian.Uint16\<close> and \<^verbatim>\<open>PutUint16\<close>.\<close>

definition be16 :: "byte \<Rightarrow> byte \<Rightarrow> nat" where
  "be16 a b = 256 * unat a + unat b"

definition put16 :: "nat \<Rightarrow> bytes" where
  "put16 n = [word_of_nat (n div 256), word_of_nat n]"

lemma byte_less: "unat (b :: byte) < 256"
  using unsigned_less [of b] by simp

lemma be16_less [go_len]: "be16 a b < 65536"
  unfolding be16_def using byte_less [of a] byte_less [of b] by linarith

lemma length_put16 [simp]: "length (put16 n) = 2"
  by (simp add: put16_def)

lemma unat_word_of_nat_byte: "unat (word_of_nat n :: byte) = n mod 256"
  by (simp add: unsigned_of_nat take_bit_eq_mod)

lemma be16_put16: "n < 65536 \<Longrightarrow> be16 (put16 n ! 0) (put16 n ! 1) = n"
  by (simp add: be16_def put16_def unat_word_of_nat_byte)

lemma be16_put16_mod: "be16 (put16 n ! 0) (put16 n ! 1) = n mod 65536"
proof -
  have "256 * (n div 256 mod 256) + n mod 256 = n mod (256 * 256)"
    by (subst mod_mult2_eq) (rule refl)
  then show ?thesis by (simp add: be16_def put16_def unat_word_of_nat_byte)
qed

text \<open>\<^verbatim>\<open>time.Second\<close>, in nanoseconds.\<close>

definition second :: duration where
  "second = 1000000000"

section \<open>Byte strings\<close>

definition byte_char :: "byte \<Rightarrow> char" where
  "byte_char b = char_of (unat b)"

definition char_byte :: "char \<Rightarrow> byte" where
  "char_byte c = word_of_nat (of_char c)"

text \<open>The conversions \<^verbatim>\<open>string(bs)\<close> and \<^verbatim>\<open>[]byte(s)\<close>.\<close>

definition string_of_bytes :: "bytes \<Rightarrow> string" where
  "string_of_bytes bs = map byte_char bs"

definition bytes_of_string :: "string \<Rightarrow> bytes" where
  "bytes_of_string s = map char_byte s"

lemma of_char_less: "(of_char c :: nat) < 256"
  by (cases c) (simp add: of_char_def horner_sum_simps)

lemma char_byte_char [simp]: "byte_char (char_byte c) = c"
  by (simp add: byte_char_def char_byte_def unat_word_of_nat_byte of_char_less)

lemma byte_char_byte [simp]: "char_byte (byte_char b) = b"
proof -
  have "(of_char (char_of (unat b)) :: nat) = unat b mod 256" by simp
  then show ?thesis
    using byte_less [of b] by (simp add: byte_char_def char_byte_def)
qed

lemma string_bytes_inverse [simp]: "string_of_bytes (bytes_of_string s) = s"
  by (simp add: string_of_bytes_def bytes_of_string_def comp_def map_idI)

lemma bytes_string_inverse [simp]: "bytes_of_string (string_of_bytes bs) = bs"
  by (simp add: string_of_bytes_def bytes_of_string_def comp_def map_idI)

text \<open>
  \<^verbatim>\<open>strings.ToLower\<close> on the ASCII letters; bytes outside ASCII are left as they are, so the
  Unicode case mapping of non-ASCII runes is not covered.
\<close>

definition lower_char :: "char \<Rightarrow> char" where
  "lower_char c = (let n = (of_char c :: nat) in if 65 \<le> n \<and> n \<le> 90 then char_of (n + 32) else c)"

definition ToLower :: "string \<Rightarrow> string" where
  "ToLower s = map lower_char s"

lemma lower_char_idem [simp]: "lower_char (lower_char c) = lower_char c"
  by (auto simp: lower_char_def Let_def)

lemma ToLower_idem [simp]: "ToLower (ToLower s) = ToLower s"
  by (simp add: ToLower_def)

lemma ToLower_empty [simp]: "ToLower s = [] \<longleftrightarrow> s = []"
  by (simp add: ToLower_def)

lemma ToLower_Nil [simp]: "ToLower [] = []"
  by (simp add: ToLower_def)

lemmas lower_eval = ToLower_def lower_char_def Let_def char_of_def bit_0

text \<open>\<^verbatim>\<open>strings.HasPrefix\<close>, \<^verbatim>\<open>strings.Contains\<close>, \<^verbatim>\<open>strings.LastIndexByte\<close>.\<close>

definition HasPrefix :: "string \<Rightarrow> string \<Rightarrow> bool" where
  "HasPrefix s p \<longleftrightarrow> take (length p) s = p"

fun index_byte :: "char \<Rightarrow> string \<Rightarrow> nat option" where
  "index_byte c [] = None"
| "index_byte c (x # s) = (if x = c then Some 0 else map_option Suc (index_byte c s))"

fun last_index_byte :: "char \<Rightarrow> string \<Rightarrow> nat option" where
  "last_index_byte c [] = None"
| "last_index_byte c (x # s) =
     (case last_index_byte c s of
        Some j \<Rightarrow> Some (Suc j)
      | None \<Rightarrow> if x = c then Some 0 else None)"

lemma last_index_byte_None: "last_index_byte c s = None \<longleftrightarrow> c \<notin> set s"
  by (induction s) (auto split: option.splits)

lemma last_index_byte_Some:
  "last_index_byte c s = Some j \<Longrightarrow>
   j < length s \<and> s ! j = c \<and> c \<notin> set (drop (Suc j) s) \<and> s = take j s @ c # drop (Suc j) s"
proof (induction s arbitrary: j)
  case Nil
  then show ?case by simp
next
  case (Cons x s)
  show ?case
  proof (cases "last_index_byte c s")
    case None
    with Cons.prems show ?thesis by (auto simp: last_index_byte_None split: if_splits)
  next
    case (Some k)
    with Cons.prems Cons.IH [of k] show ?thesis by auto
  qed
qed

lemma last_index_byte_append:
  "c \<notin> set b \<Longrightarrow> last_index_byte c (a @ c # b) = Some (length a)"
proof (induction a)
  case Nil
  then have "last_index_byte c b = None" by (simp add: last_index_byte_None)
  then show ?case by simp
next
  case (Cons x a)
  then show ?case by simp
qed

section \<open>Decimal numbers\<close>

definition is_digit :: "char \<Rightarrow> bool" where
  "is_digit c \<longleftrightarrow> 48 \<le> (of_char c :: nat) \<and> (of_char c :: nat) \<le> 57"

definition digit_val :: "char \<Rightarrow> nat" where
  "digit_val c = of_char c - 48"

definition digit_char :: "nat \<Rightarrow> char" where
  "digit_char d = char_of (48 + d)"

fun string_of_nat :: "nat \<Rightarrow> string" where
  "string_of_nat n =
     (if n < 10 then [digit_char n] else string_of_nat (n div 10) @ [digit_char (n mod 10)])"

declare string_of_nat.simps [simp del]

text \<open>\<^verbatim>\<open>strconv.Itoa\<close>, and \<^verbatim>\<open>formatInt\<close> of strings.go.\<close>

definition Itoa :: "int \<Rightarrow> string" where
  "Itoa i = (if i < 0 then CHR ''-'' # string_of_nat (nat (- i)) else string_of_nat (nat i))"

lemma digit_char_props [simp]:
  "d < 10 \<Longrightarrow> is_digit (digit_char d)"
  "d < 10 \<Longrightarrow> digit_val (digit_char d) = d"
  by (simp_all add: is_digit_def digit_val_def digit_char_def)

lemma digit_char_values [simp]:
  "digit_char 0 = CHR ''0''" "digit_char (Suc 0) = CHR ''1''" "digit_char 2 = CHR ''2''"
  "digit_char 3 = CHR ''3''" "digit_char 4 = CHR ''4''" "digit_char 5 = CHR ''5''"
  "digit_char 6 = CHR ''6''" "digit_char 7 = CHR ''7''" "digit_char 8 = CHR ''8''"
  "digit_char 9 = CHR ''9''"
  by (simp_all add: digit_char_def char_of_def bit_0)

lemma digit_char_inj: "a < 10 \<Longrightarrow> b < 10 \<Longrightarrow> digit_char a = digit_char b \<Longrightarrow> a = b"
  by (metis digit_char_props(2))

lemma string_of_nat_digits: "c \<in> set (string_of_nat n) \<Longrightarrow> is_digit c"
proof (induction n rule: string_of_nat.induct)
  case (1 n)
  show ?case
  proof (cases "n < 10")
    case True
    with "1.prems" show ?thesis by (simp add: string_of_nat.simps [of n])
  next
    case False
    with "1.prems" consider "c \<in> set (string_of_nat (n div 10))" | "c = digit_char (n mod 10)"
      by (auto simp: string_of_nat.simps [of n])
    then show ?thesis using "1.IH" False by cases auto
  qed
qed

lemma string_of_nat_nonempty [simp]: "string_of_nat n \<noteq> []"
  by (subst string_of_nat.simps) simp

definition nat_of_digits :: "string \<Rightarrow> nat" where
  "nat_of_digits s = foldl (\<lambda>a c. a * 10 + digit_val c) 0 s"

lemma nat_of_digits_snoc: "nat_of_digits (s @ [c]) = nat_of_digits s * 10 + digit_val c"
  by (simp add: nat_of_digits_def)

lemma nat_of_digits_string_of_nat [simp]: "nat_of_digits (string_of_nat n) = n"
proof (induction n rule: string_of_nat.induct)
  case (1 n)
  show ?case
  proof (cases "n < 10")
    case True
    then show ?thesis by (simp add: string_of_nat.simps [of n] nat_of_digits_def)
  next
    case False
    with 1 have "nat_of_digits (string_of_nat (n div 10)) = n div 10" by simp
    with False show ?thesis
      by (simp add: string_of_nat.simps [of n] nat_of_digits_snoc)
  qed
qed

lemma string_of_nat_inj: "string_of_nat a = string_of_nat b \<longleftrightarrow> a = b"
  by (metis nat_of_digits_string_of_nat)

section \<open>Maps\<close>

text \<open>
  A Go map is an association list with distinct keys; \<open>map_of\<close> looks a key up,
  \<open>AList.update\<close> stores and \<open>AList.delete\<close> deletes.  The order of the list stands for the
  order in which one \<^verbatim>\<open>range\<close> loop visits the map, which Go leaves open.
\<close>

type_synonym ('k, 'v) gomap = "('k \<times> 'v) list"

declare map_of_eq_Some_iff [simp del]

abbreviation map_ok :: "('k, 'v) gomap \<Rightarrow> bool" where
  "map_ok m \<equiv> distinct (map fst m)"

lemma map_of_update [simp]:
  "map_of (AList.update k v m) x = (if x = k then Some v else map_of m x)"
  by (simp add: update_conv')

lemma map_of_delete [simp]:
  "map_of (AList.delete k m) x = (if x = k then None else map_of m x)"
  by (simp add: delete_conv')

lemma map_ok_update [simp, intro]: "map_ok m \<Longrightarrow> map_ok (AList.update k v m)"
  by (rule distinct_update)

lemma map_ok_delete [simp, intro]: "map_ok m \<Longrightarrow> map_ok (AList.delete k m)"
  by (rule distinct_delete)

lemma set_delete_mem: "map_ok m \<Longrightarrow> (x, y) \<in> set (AList.delete k m) \<longleftrightarrow> x \<noteq> k \<and> (x, y) \<in> set m"
  by (induction m) auto

lemma map_of_mem: "map_ok m \<Longrightarrow> map_of m k = Some v \<longleftrightarrow> (k, v) \<in> set m"
  by (simp add: map_of_eq_Some_iff)

end
