(* ===== verification/Go_State.thy ===== *)
theory Go_State
  imports Go_Prelude
begin

text \<open>
  Computations on an explicit state that return the new state and a value or an error.  They are \<open>None\<close>
  if they do not return, so that the loops whose termination depends on an invariant can be part
  of them.
\<close>

named_theorems comp_simps

type_synonym ('s, 'a) comp = "'s \<Rightarrow> ('s \<times> 'a go) option"

definition c_lift :: "'a go \<Rightarrow> ('s, 'a) comp" where
  "c_lift r = (\<lambda>s. Some (s, r))"

abbreviation c_return :: "'a \<Rightarrow> ('s, 'a) comp" where "c_return x \<equiv> c_lift (Inr x)"
abbreviation c_fail :: "string \<Rightarrow> ('s, 'a) comp" where "c_fail e \<equiv> c_lift (Inl (Error e))"

definition c_bind :: "('s, 'a) comp \<Rightarrow> ('a \<Rightarrow> ('s, 'b) comp) \<Rightarrow> ('s, 'b) comp" where
  "c_bind m f = (\<lambda>s. case m s of
     None \<Rightarrow> None
   | Some (s1, Inl e) \<Rightarrow> Some (s1, Inl e)
   | Some (s1, Inr x) \<Rightarrow> f x s1)"

definition c_map_error :: "(string \<Rightarrow> string) \<Rightarrow> ('s, 'a) comp \<Rightarrow> ('s, 'a) comp" where
  "c_map_error f m = (\<lambda>s. case m s of
     Some (s1, Inl (Error e)) \<Rightarrow> Some (s1, Inl (Error (f e)))
   | r \<Rightarrow> r)"

definition c_wrap :: "string \<Rightarrow> ('s, 'a) comp \<Rightarrow> ('s, 'a) comp" where
  "c_wrap msg = c_map_error (\<lambda>e. msg @ '': '' @ e)"

definition c_modify :: "('s \<Rightarrow> 's) \<Rightarrow> ('s, unit) comp" where
  "c_modify f = (\<lambda>s. Some (f s, Inr ()))"

text \<open>A function that returns a value and the new state.\<close>

definition c_call :: "('s \<Rightarrow> 's \<times> 'a) \<Rightarrow> ('s, 'a) comp" where
  "c_call f = (\<lambda>s. let (s1, x) = f s in Some (s1, Inr x))"

text \<open>The outcome of a computation as a value, for callers that handle the error themselves.\<close>

definition c_try :: "('s, 'a) comp \<Rightarrow> ('s, 'a go) comp" where
  "c_try m = (\<lambda>s. case m s of
     Some (s1, Inl (Panic e)) \<Rightarrow> Some (s1, Inl (Panic e))
   | Some (s1, r) \<Rightarrow> Some (s1, Inr r)
   | None \<Rightarrow> None)"

text \<open>A computation on a part of the state.\<close>

definition c_zoom :: "('s \<Rightarrow> 't) \<Rightarrow> ('t \<Rightarrow> 's \<Rightarrow> 's) \<Rightarrow> ('t, 'a) comp \<Rightarrow> ('s, 'a) comp" where
  "c_zoom get put m = (\<lambda>s. case m (get s) of
     None \<Rightarrow> None
   | Some (t, r) \<Rightarrow> Some (put t s, r))"

lemma c_bind_Inr [comp_simps]:
  "c_bind m f s = Some (s', Inr y) \<longleftrightarrow> (\<exists>s1 x. m s = Some (s1, Inr x) \<and> f x s1 = Some (s', Inr y))"
  by (auto simp: c_bind_def split: option.splits sum.splits)

lemma c_map_error_Inr [comp_simps]: "c_map_error f m s = Some (s', Inr y) \<longleftrightarrow> m s = Some (s', Inr y)"
  by (auto simp: c_map_error_def split: option.splits sum.splits gerr.splits)

lemma c_wrap_Inr [comp_simps]: "c_wrap msg m s = Some (s', Inr y) \<longleftrightarrow> m s = Some (s', Inr y)"
  by (simp add: c_wrap_def c_map_error_Inr)

lemma c_lift_Inr [comp_simps]: "c_lift r s = Some (s', x) \<longleftrightarrow> s' = s \<and> r = x"
  by (auto simp: c_lift_def)

lemma c_modify_Inr [comp_simps]: "c_modify f s = Some (s', x) \<longleftrightarrow> s' = f s \<and> x = Inr ()"
  by (auto simp: c_modify_def)

lemma c_call_Inr [comp_simps]: "c_call f s = Some (s', x) \<longleftrightarrow> s' = fst (f s) \<and> x = Inr (snd (f s))"
  by (auto simp: c_call_def split: prod.splits)

lemma c_zoom_Inr [comp_simps]: "c_zoom get put m s = Some (s', x) \<longleftrightarrow> (\<exists>t. m (get s) = Some (t, x) \<and> s' = put t s)"
  by (auto simp: c_zoom_def split: option.splits)

lemma c_bind_eval:
  "m s = Some (s1, Inr x) \<Longrightarrow> c_bind m f s = f x s1"
  "m s = Some (s1, Inl e) \<Longrightarrow> c_bind m f s = Some (s1, Inl e)"
  by (simp_all add: c_bind_def)

lemma c_lift_eval [simp]: "c_bind (c_lift (Inr x)) f s = f x s" "c_lift r s = Some (s, r)"
  by (simp_all add: c_bind_def c_lift_def)

lemma c_modify_eval [simp]: "c_bind (c_modify g) f s = f () (g s)"
  by (simp add: c_bind_def c_modify_def)

section \<open>Computations that keep an invariant\<close>

text \<open>
  \<open>c_safe I m Q\<close>: started in a state with the invariant \<open>I\<close>, \<open>m\<close> returns, does not panic and keeps \<open>I\<close>;
  the value it returns, unless it returns an error, satisfies \<open>Q\<close>.
\<close>

definition c_safe :: "('s \<Rightarrow> bool) \<Rightarrow> ('s, 'a) comp \<Rightarrow> ('a \<Rightarrow> bool) \<Rightarrow> bool" where
  "c_safe I m Q \<longleftrightarrow> (\<forall>s. I s \<longrightarrow>
     (\<exists>s'. I s' \<and> ((\<exists>e. m s = Some (s', Inl (Error e))) \<or> (\<exists>x. m s = Some (s', Inr x) \<and> Q x))))"

named_theorems safe_intros

lemma c_safeD:
  assumes "c_safe I m Q" "I s"
  obtains s' e where "m s = Some (s', Inl (Error e))" "I s'"
    | s' x where "m s = Some (s', Inr x)" "I s'" "Q x"
proof -
  from assms obtain s' where "I s'" "(\<exists>e. m s = Some (s', Inl (Error e))) \<or> (\<exists>x. m s = Some (s', Inr x) \<and> Q x)"
    unfolding c_safe_def by blast
  then show ?thesis using that by blast
qed

lemma c_safeI:
  assumes "\<And>s. I s \<Longrightarrow> (\<exists>s' e. I s' \<and> m s = Some (s', Inl (Error e))) \<or> (\<exists>s' x. I s' \<and> m s = Some (s', Inr x) \<and> Q x)"
  shows "c_safe I m Q"
  unfolding c_safe_def using assms by blast

lemma c_safe_weaken: "c_safe I m Q \<Longrightarrow> (\<And>x. Q x \<Longrightarrow> R x) \<Longrightarrow> c_safe I m R"
  by (rule c_safeI, erule (1) c_safeD) auto

lemma c_safe_return [safe_intros]: "Q x \<Longrightarrow> c_safe I (c_return x) Q"
  by (simp add: c_safe_def)

lemma c_safe_fail [safe_intros]: "c_safe I (c_fail e) Q"
  by (simp add: c_safe_def)

lemma c_safe_lift: "\<not> is_panic r \<Longrightarrow> (\<And>x. r = Inr x \<Longrightarrow> Q x) \<Longrightarrow> c_safe I (c_lift r) Q"
  by (cases r rule: is_panic.cases) (auto simp: c_safe_def)

lemma c_safe_bind [safe_intros]:
  assumes "c_safe I m P" "\<And>x. P x \<Longrightarrow> c_safe I (f x) Q"
  shows "c_safe I (c_bind m f) Q"
  unfolding c_safe_def [of I "c_bind m f"]
proof (intro allI impI)
  fix s assume s: "I s"
  show "\<exists>s'. I s' \<and> ((\<exists>e. c_bind m f s = Some (s', Inl (Error e))) \<or> (\<exists>x. c_bind m f s = Some (s', Inr x) \<and> Q x))"
  proof (rule c_safeD [OF assms(1) s])
    fix s' e assume "m s = Some (s', Inl (Error e))" "I s'"
    then show ?thesis by (auto simp: c_bind_eval)
  next
    fix s1 x assume 1: "m s = Some (s1, Inr x)" "I s1" "P x"
    then show ?thesis using assms(2) [OF 1(3)] unfolding c_safe_def by (simp add: c_bind_eval)
  qed
qed

lemma c_safe_wrap [safe_intros]: "c_safe I m Q \<Longrightarrow> c_safe I (c_wrap msg m) Q"
  by (rule c_safeI, erule (1) c_safeD) (auto simp: c_wrap_def c_map_error_def)

lemma c_safe_map_error [safe_intros]: "c_safe I m Q \<Longrightarrow> c_safe I (c_map_error f m) Q"
  by (rule c_safeI, erule (1) c_safeD) (auto simp: c_map_error_def)

lemma c_safe_modify [safe_intros]: "(\<And>s. I s \<Longrightarrow> I (f s)) \<Longrightarrow> c_safe I (c_modify f) (\<lambda>_. True)"
  by (simp add: c_safe_def c_modify_def)

lemma c_safe_call: "(\<And>s. I s \<Longrightarrow> I (fst (f s)) \<and> Q (snd (f s))) \<Longrightarrow> c_safe I (c_call f) Q"
  by (simp add: c_safe_def c_call_def split_beta)

definition no_panic :: "('a \<Rightarrow> bool) \<Rightarrow> 'a go \<Rightarrow> bool" where
  "no_panic Q r \<longleftrightarrow> (\<exists>e. r = Inl (Error e)) \<or> (\<exists>x. r = Inr x \<and> Q x)"

lemma c_safe_try: "c_safe I m Q \<Longrightarrow> c_safe I (c_try m) (no_panic Q)"
  by (rule c_safeI, erule (1) c_safeD) (auto simp: c_try_def no_panic_def)

lemma c_safe_zoom:
  assumes "c_safe J m Q" "\<And>s. I s \<Longrightarrow> J (get s)" "\<And>s t. I s \<Longrightarrow> J t \<Longrightarrow> I (put t s)"
  shows "c_safe I (c_zoom get put m) Q"
  unfolding c_safe_def [of I]
proof (intro allI impI)
  fix s assume s: "I s"
  show "\<exists>s'. I s' \<and> ((\<exists>e. c_zoom get put m s = Some (s', Inl (Error e))) \<or> (\<exists>x. c_zoom get put m s = Some (s', Inr x) \<and> Q x))"
    by (rule c_safeD [OF assms(1) assms(2) [OF s]]) (use assms(3) [OF s] in \<open>auto simp: c_zoom_def\<close>)
qed

lemma c_safe_if [safe_intros]: "(b \<Longrightarrow> c_safe I m Q) \<Longrightarrow> (\<not> b \<Longrightarrow> c_safe I n Q) \<Longrightarrow> c_safe I (if b then m else n) Q"
  by simp

end
