(* ===== verification/Go_Netip.thy ===== *)
theory Go_Netip
  imports Go_Prelude
begin

text \<open>
  What the code uses of the standard packages \<^verbatim>\<open>net/netip\<close> and \<^verbatim>\<open>net\<close>: addresses with
  their parser and printer, prefixes with \<^verbatim>\<open>Contains\<close>, \<^verbatim>\<open>Masked\<close> and \<^verbatim>\<open>Next\<close>, and
  \<^verbatim>\<open>net.ParseIP\<close> and \<^verbatim>\<open>net.JoinHostPort\<close>.  The parsers follow the library's loops, with
  every rejected form: leading zeros, fields out of range, a misplaced or repeated
  \<^verbatim>\<open>::\<close>, an embedded IPv4 tail, a zone.
\<close>

section \<open>Addresses\<close>

text \<open>
  A \<^verbatim>\<open>netip.Addr\<close> that is valid is an IPv4 or an IPv6 address, the latter with a zone
  (empty for none).  The zero \<^verbatim>\<open>Addr\<close>, which is invalid, is \<open>None\<close> of \<open>addr option\<close>.
\<close>

datatype addr = IP4 "32 word" | IP6 "128 word" string

fun Is4 :: "addr \<Rightarrow> bool" where
  "Is4 (IP4 _) = True"
| "Is4 (IP6 _ _) = False"

fun addr_zone :: "addr \<Rightarrow> string" where
  "addr_zone (IP4 _) = []"
| "addr_zone (IP6 _ z) = z"

fun Is4In6 :: "addr \<Rightarrow> bool" where
  "Is4In6 (IP4 _) = False"
| "Is4In6 (IP6 w _) = (drop_bit 32 w = 0xFFFF)"

fun Unmap :: "addr \<Rightarrow> addr" where
  "Unmap (IP4 w) = IP4 w"
| "Unmap (IP6 w z) = (if Is4In6 (IP6 w z) then IP4 (ucast w) else IP6 w z)"

fun addr_Next :: "addr \<Rightarrow> addr option" where
  "addr_Next (IP4 w) = (if w + 1 = 0 then None else Some (IP4 (w + 1)))"
| "addr_Next (IP6 w z) = (if w + 1 = 0 then None else Some (IP6 (w + 1) z))"

section \<open>Parsing\<close>

text \<open>
  \<^verbatim>\<open>parseIPv4Fields\<close>: the arguments after the rest of the input are the previous
  character, the value and the number of digits of the current field, and the fields read.
\<close>

fun parseIPv4Fields :: "string \<Rightarrow> char option \<Rightarrow> nat \<Rightarrow> nat \<Rightarrow> nat list \<Rightarrow> nat list option" where
  "parseIPv4Fields [] prev v dl fs = (if length fs < 3 then None else Some (fs @ [v]))"
| "parseIPv4Fields (c # s) prev v dl fs =
     (if is_digit c then
        (if dl = 1 \<and> v = 0 then None
         else if v * 10 + digit_val c > 255 then None
         else parseIPv4Fields s (Some c) (v * 10 + digit_val c) (dl + 1) fs)
      else if c = CHR ''.'' then
        (if prev = None \<or> s = [] \<or> prev = Some (CHR ''.'') then None
         else if length fs = 3 then None
         else parseIPv4Fields s (Some c) 0 0 (fs @ [v]))
      else None)"

definition word_of_fields :: "nat \<Rightarrow> nat list \<Rightarrow> ('a :: len) word" where
  "word_of_fields b fs = word_of_nat (foldl (\<lambda>a f. a * b + f) 0 fs)"

definition parseIPv4 :: "string \<Rightarrow> addr option" where
  "parseIPv4 s = map_option (\<lambda>fs. IP4 (word_of_fields 256 fs)) (parseIPv4Fields s None 0 0 [])"

definition hex_val :: "char \<Rightarrow> nat option" where
  "hex_val c = (let n = (of_char c :: nat) in
     if is_digit c then Some (n - 48)
     else if 97 \<le> n \<and> n \<le> 102 then Some (n - 87)
     else if 65 \<le> n \<and> n \<le> 70 then Some (n - 55)
     else None)"

text \<open>The inner loop of \<^verbatim>\<open>parseIPv6\<close>: one hexadecimal group, at most four digits.\<close>

fun hex_group :: "string \<Rightarrow> nat \<Rightarrow> nat \<Rightarrow> (nat \<times> nat \<times> string) option" where
  "hex_group [] off acc = Some (off, acc, [])"
| "hex_group (c # s) off acc =
     (case hex_val c of
        None \<Rightarrow> Some (off, acc, c # s)
      | Some d \<Rightarrow> if off > 3 then None
                  else if acc * 16 + d > 65535 then None
                  else hex_group s (off + 1) (acc * 16 + d))"

text \<open>
  The outer loop: \<open>n\<close> groups may still be read, \<open>gs\<close> are the groups read so far and
  \<open>ell\<close> the position of the ellipsis.
\<close>

fun v6_groups :: "nat \<Rightarrow> string \<Rightarrow> nat list \<Rightarrow> nat option \<Rightarrow> (nat list \<times> nat option \<times> string) option" where
  "v6_groups 0 s gs ell = Some (gs, ell, s)"
| "v6_groups (Suc n) s gs ell =
     (case hex_group s 0 0 of
        None \<Rightarrow> None
      | Some (off, acc, r) \<Rightarrow>
          if off = 0 then None
          else if r \<noteq> [] \<and> hd r = CHR ''.'' then
            (if ell = None \<and> length gs \<noteq> 6 then None
             else if length gs + 2 > 8 then None
             else (case parseIPv4Fields s None 0 0 [] of
                     None \<Rightarrow> None
                   | Some fs \<Rightarrow> Some (gs @ [fs ! 0 * 256 + fs ! 1, fs ! 2 * 256 + fs ! 3], ell, [])))
          else (case r of
                  [] \<Rightarrow> Some (gs @ [acc], ell, [])
                | c # r' \<Rightarrow>
                    if c \<noteq> CHR '':'' then None
                    else (case r' of
                            [] \<Rightarrow> None
                          | c' # r'' \<Rightarrow>
                              if c' = CHR '':'' then
                                (if ell \<noteq> None then None
                                 else if r'' = [] then Some (gs @ [acc], Some (length gs + 1), [])
                                 else v6_groups n r'' (gs @ [acc]) (Some (length gs + 1)))
                              else v6_groups n r' (gs @ [acc]) ell)))"

definition v6_expand :: "nat list \<times> nat option \<times> string \<Rightarrow> nat list option" where
  "v6_expand = (\<lambda>(gs, ell, s).
     if s \<noteq> [] then None
     else if length gs < 8 then
       (case ell of None \<Rightarrow> None
        | Some e \<Rightarrow> Some (take e gs @ replicate (8 - length gs) 0 @ drop e gs))
     else if ell \<noteq> None then None
     else Some gs)"

definition v6_address :: "string \<Rightarrow> nat list option" where
  "v6_address s =
     (if take 2 s = ''::'' then
        (if drop 2 s = [] then Some (replicate 8 0)
         else Option.bind (v6_groups 8 (drop 2 s) [] (Some 0)) v6_expand)
      else Option.bind (v6_groups 8 s [] None) v6_expand)"

definition parseIPv6 :: "string \<Rightarrow> addr option" where
  "parseIPv6 inp =
     (case index_byte (CHR ''%'') inp of
        None \<Rightarrow> map_option (\<lambda>gs. IP6 (word_of_fields 65536 gs) []) (v6_address inp)
      | Some i \<Rightarrow>
          if drop (i + 1) inp = [] then None
          else map_option (\<lambda>gs. IP6 (word_of_fields 65536 gs) (drop (i + 1) inp))
                 (v6_address (take i inp)))"

definition ParseAddr :: "string \<Rightarrow> addr option" where
  "ParseAddr s =
     (case find (\<lambda>c. c \<in> {CHR ''.'', CHR '':'', CHR ''%''}) s of
        None \<Rightarrow> None
      | Some c \<Rightarrow> if c = CHR ''.'' then parseIPv4 s
                  else if c = CHR '':'' then parseIPv6 s
                  else None)"

text \<open>\<^verbatim>\<open>net.ParseIP\<close> accepts what \<^verbatim>\<open>ParseAddr\<close> accepts, except addresses with a zone.\<close>

definition ParseIP :: "string \<Rightarrow> addr option" where
  "ParseIP s = (case ParseAddr s of None \<Rightarrow> None
                | Some a \<Rightarrow> if addr_zone a = [] then Some a else None)"

text \<open>\<^verbatim>\<open>net.IP.To4\<close> on a parsed address.\<close>

definition To4 :: "addr \<Rightarrow> 32 word option" where
  "To4 a = (case Unmap a of IP4 w \<Rightarrow> Some w | IP6 _ _ \<Rightarrow> None)"

section \<open>Printing\<close>

definition octets :: "32 word \<Rightarrow> nat list" where
  "octets w = map (\<lambda>i. unat w div 256 ^ (3 - i) mod 256) [0..<4]"

definition v6_fields :: "128 word \<Rightarrow> nat list" where
  "v6_fields w = map (\<lambda>i. unat w div 65536 ^ (7 - i) mod 65536) [0..<8]"

fun join :: "string \<Rightarrow> string list \<Rightarrow> string" where
  "join sep [] = []"
| "join sep [x] = x"
| "join sep (x # y # xs) = x @ sep @ join sep (y # xs)"

definition string4 :: "32 word \<Rightarrow> string" where
  "string4 w = join ''.'' (map string_of_nat (octets w))"

definition hex_char :: "nat \<Rightarrow> char" where
  "hex_char d = (if d < 10 then char_of (48 + d) else char_of (87 + d))"

fun string_of_hex :: "nat \<Rightarrow> string" where
  "string_of_hex n =
     (if n < 16 then [hex_char n] else string_of_hex (n div 16) @ [hex_char (n mod 16)])"

declare string_of_hex.simps [simp del]

text \<open>The run of zero groups that \<^verbatim>\<open>appendTo6\<close> writes as \<^verbatim>\<open>::\<close>: the first longest one.\<close>

fun zero_run :: "nat list \<Rightarrow> nat" where
  "zero_run (0 # gs) = Suc (zero_run gs)"
| "zero_run _ = 0"

fun best_run :: "nat list \<Rightarrow> nat \<Rightarrow> nat \<times> nat \<Rightarrow> nat \<times> nat" where
  "best_run [] i best = best"
| "best_run (g # gs) i best =
     (let l = zero_run (g # gs)
      in best_run gs (Suc i) (if 2 \<le> l \<and> l > snd best - fst best then (i, i + l) else best))"

definition string6 :: "128 word \<Rightarrow> string" where
  "string6 w = (let gs = v6_fields w; (zs, ze) = best_run gs 0 (255, 255) in
     if zs = 255 then join '':'' (map string_of_hex gs)
     else join '':'' (map string_of_hex (take zs gs)) @ ''::''
          @ join '':'' (map string_of_hex (drop ze gs)))"

fun addr_String :: "addr \<Rightarrow> string" where
  "addr_String (IP4 w) = string4 w"
| "addr_String (IP6 w z) =
     (if Is4In6 (IP6 w z) then ''::ffff:'' @ string4 (ucast w) else string6 w)
     @ (if z = [] then [] else CHR ''%'' # z)"

definition addr_String_opt :: "addr option \<Rightarrow> string" where
  "addr_String_opt a = (case a of None \<Rightarrow> ''invalid IP'' | Some x \<Rightarrow> addr_String x)"

text \<open>\<^verbatim>\<open>net.IP.String\<close> prints an IPv4-mapped address as IPv4.\<close>

definition IP_String :: "addr \<Rightarrow> string" where
  "IP_String a = addr_String (Unmap a)"

text \<open>\<^verbatim>\<open>net.JoinHostPort\<close>.\<close>

definition JoinHostPort :: "string \<Rightarrow> string \<Rightarrow> string" where
  "JoinHostPort host port =
     (if CHR '':'' \<in> set host then ''['' @ host @ '']:'' @ port else host @ '':'' @ port)"

section \<open>Prefixes\<close>

record prefix =
  prefix_Addr :: addr
  prefix_Bits :: nat

text \<open>
  \<^verbatim>\<open>strconv.Atoi\<close> on the bits of a prefix: the caller has excluded a sign and leading zeros
  when there is more than one character.
\<close>

definition atoi_digits :: "string \<Rightarrow> nat option" where
  "atoi_digits s = (if s \<noteq> [] \<and> list_all is_digit s then Some (nat_of_digits s) else None)"

definition ParsePrefix :: "string \<Rightarrow> prefix option" where
  "ParsePrefix s =
     (case last_index_byte (CHR ''/'') s of
        None \<Rightarrow> None
      | Some i \<Rightarrow>
         (case ParseAddr (take i s) of
            None \<Rightarrow> None
          | Some a \<Rightarrow>
              if addr_zone a \<noteq> [] then None
              else let b = drop (i + 1) s in
                if length b > 1 \<and> \<not> (is_digit (hd b) \<and> hd b \<noteq> CHR ''0'') then None
                else (case atoi_digits b of
                        None \<Rightarrow> None
                      | Some n \<Rightarrow> if n > (if Is4 a then 32 else 128) then None
                                  else Some \<lparr> prefix_Addr = a, prefix_Bits = n \<rparr>)))"

fun prefix_has :: "addr \<Rightarrow> nat \<Rightarrow> addr \<Rightarrow> bool" where
  "prefix_has (IP4 p) b (IP4 w) = (drop_bit (32 - b) w = drop_bit (32 - b) p)"
| "prefix_has (IP6 p _) b (IP6 w z) = (z = [] \<and> drop_bit (128 - b) w = drop_bit (128 - b) p)"
| "prefix_has _ _ _ = False"

definition Contains :: "prefix \<Rightarrow> addr \<Rightarrow> bool" where
  "Contains p a = prefix_has (prefix_Addr p) (prefix_Bits p) a"

definition Contains_opt :: "prefix \<Rightarrow> addr option \<Rightarrow> bool" where
  "Contains_opt p a = (case a of None \<Rightarrow> False | Some x \<Rightarrow> Contains p x)"

fun mask_addr :: "addr \<Rightarrow> nat \<Rightarrow> addr" where
  "mask_addr (IP4 w) b = IP4 (push_bit (32 - b) (drop_bit (32 - b) w))"
| "mask_addr (IP6 w _) b = IP6 (push_bit (128 - b) (drop_bit (128 - b) w)) []"

definition Masked :: "prefix \<Rightarrow> prefix" where
  "Masked p = p\<lparr> prefix_Addr := mask_addr (prefix_Addr p) (prefix_Bits p) \<rparr>"

section \<open>Parsing inverts printing\<close>

subsection \<open>IPv4\<close>

lemma foldl_digits_ge: "v \<le> foldl (\<lambda>a c. a * 10 + digit_val c) (v :: nat) ds"
proof (induction ds arbitrary: v)
  case (Cons c ds)
  have "v \<le> v * 10 + digit_val c" by simp
  also have "\<dots> \<le> foldl (\<lambda>a c. a * 10 + digit_val c) (v * 10 + digit_val c) ds" by (rule Cons)
  finally show ?case by simp
qed simp

lemma parseIPv4Fields_digits:
  assumes "list_all is_digit ds"
    and "foldl (\<lambda>a c. a * 10 + digit_val c) v ds \<le> 255"
    and "dl = 0 \<Longrightarrow> v = 0 \<and> (ds = [] \<or> digit_val (hd ds) \<noteq> 0 \<or> tl ds = [])"
    and "dl = 1 \<Longrightarrow> v \<noteq> 0 \<or> ds = []"
  shows "parseIPv4Fields (ds @ rest) prev v dl fs =
    parseIPv4Fields rest (if ds = [] then prev else Some (last ds))
      (foldl (\<lambda>a c. a * 10 + digit_val c) v ds) (dl + length ds) fs"
  using assms
proof (induction ds arbitrary: prev v dl)
  case Nil
  then show ?case by simp
next
  case (Cons c ds)
  have le: "v * 10 + digit_val c \<le> 255"
    using Cons.prems(2) foldl_digits_ge [of "v * 10 + digit_val c" ds] by simp
  have "parseIPv4Fields (ds @ rest) (Some c) (v * 10 + digit_val c) (dl + 1) fs =
     parseIPv4Fields rest (if ds = [] then Some c else Some (last ds))
      (foldl (\<lambda>a c. a * 10 + digit_val c) (v * 10 + digit_val c) ds) (dl + 1 + length ds) fs"
    using Cons.prems by (intro Cons.IH) auto
  moreover have "\<not> (dl = 1 \<and> v = 0)" using Cons.prems(4) by auto
  ultimately show ?case using Cons.prems(1) le by auto
qed

lemma string_of_nat_hd: "10 \<le> n \<Longrightarrow> digit_val (hd (string_of_nat n)) \<noteq> 0"
proof (induction n rule: string_of_nat.induct)
  case (1 n)
  show ?case
  proof (cases "n div 10 < 10")
    case True
    with "1.prems" show ?thesis
      by (simp add: string_of_nat.simps [of n] string_of_nat.simps [of "n div 10"])
  next
    case False
    with 1 show ?thesis by (simp add: string_of_nat.simps [of n])
  qed
qed

lemma parseIPv4Fields_nat:
  assumes "n \<le> 255"
  shows "parseIPv4Fields (string_of_nat n @ rest) prev 0 0 fs =
    parseIPv4Fields rest (Some (last (string_of_nat n))) n (length (string_of_nat n)) fs"
proof -
  have v: "foldl (\<lambda>a c. a * 10 + digit_val c) 0 (string_of_nat n) = n"
    using nat_of_digits_string_of_nat [of n] by (simp add: nat_of_digits_def)
  have "list_all is_digit (string_of_nat n)"
    by (simp add: list_all_iff string_of_nat_digits)
  moreover have "digit_val (hd (string_of_nat n)) \<noteq> 0 \<or> tl (string_of_nat n) = []"
    using string_of_nat_hd [of n] by (cases "n < 10") (auto simp: string_of_nat.simps [of n])
  ultimately show ?thesis
    using parseIPv4Fields_digits [of "string_of_nat n" 0 0 rest prev fs] assms
    by (simp add: v)
qed

lemma digit_not_dot: "is_digit c \<Longrightarrow> c \<noteq> CHR ''.''" "is_digit c \<Longrightarrow> c \<noteq> CHR '':''" "is_digit c \<Longrightarrow> c \<noteq> CHR ''%''"
  by (auto simp: is_digit_def)

lemma last_digit_not_dot: "last (string_of_nat n) \<noteq> CHR ''.''"
  by (rule digit_not_dot(1) [OF string_of_nat_digits [of _ n]]) simp

lemma parseIPv4Fields_dot:
  "s \<noteq> [] \<Longrightarrow> length fs < 3 \<Longrightarrow>
   parseIPv4Fields (CHR ''.'' # s) (Some (last (string_of_nat m))) v dl fs =
   parseIPv4Fields s (Some (CHR ''.'')) 0 0 (fs @ [v])"
  using last_digit_not_dot [of m] by (simp add: is_digit_def)

lemma parseIPv4Fields_join:
  assumes "a \<le> 255" "b \<le> 255" "c \<le> 255" "d \<le> 255"
  shows "parseIPv4Fields (join ''.'' (map string_of_nat [a, b, c, d])) None 0 0 [] = Some [a, b, c, d]"
  using assms parseIPv4Fields_nat [of d "[]"]
  by (simp add: parseIPv4Fields_nat parseIPv4Fields_dot del: parseIPv4Fields.simps(2))

lemma foldl_fields:
  "foldl (\<lambda>a f. a * b + f) 0 (map (\<lambda>i. x div b ^ (n - Suc i) mod b) [0..<n]) = x mod (b :: nat) ^ n"
proof (induction n arbitrary: x)
  case 0
  then show ?case by simp
next
  case (Suc n)
  have eq: "map (\<lambda>i. x div b ^ (Suc n - Suc i) mod b) [0..<n] =
        map (\<lambda>i. x div b div b ^ (n - Suc i) mod b) [0..<n]"
    by (auto simp: div_mult2_eq [symmetric] Suc_diff_Suc simp flip: power_Suc)
  have "foldl (\<lambda>a f. a * b + f) 0 (map (\<lambda>i. x div b ^ (Suc n - Suc i) mod b) [0..<Suc n])
     = foldl (\<lambda>a f. a * b + f) 0 (map (\<lambda>i. x div b ^ (Suc n - Suc i) mod b) [0..<n]) * b + x mod b"
    by simp
  also have "\<dots> = (x div b mod b ^ n) * b + x mod b"
    by (simp only: eq Suc.IH)
  also have "\<dots> = x mod b ^ Suc n" by (simp add: mod_mult2_eq)
  finally show ?case .
qed

lemma word_of_octets: "word_of_fields 256 (octets w) = w"
proof -
  have "foldl (\<lambda>a f. a * 256 + f) 0 (octets w) = unat w mod 256 ^ 4"
    using foldl_fields [of 256 "unat w" 4] by (simp add: octets_def)
  moreover have "unat w < 256 ^ 4" using unsigned_less [of w] by simp
  ultimately show ?thesis by (simp add: word_of_fields_def)
qed

lemma word_of_v6_fields: "word_of_fields 65536 (v6_fields w) = w"
proof -
  have "foldl (\<lambda>a f. a * 65536 + f) 0 (v6_fields w) = unat w mod 65536 ^ 8"
    using foldl_fields [of 65536 "unat w" 8] by (simp add: v6_fields_def)
  moreover have "unat w < 65536 ^ 8" using unsigned_less [of w] by simp
  ultimately show ?thesis by (simp add: word_of_fields_def)
qed

lemma octets_expand:
  "octets w = [unat w div 16777216 mod 256, unat w div 65536 mod 256, unat w div 256 mod 256, unat w mod 256]"
  by (simp add: octets_def upt_rec)

lemma parseIPv4_string4: "parseIPv4 (string4 w) = Some (IP4 w)"
proof -
  have le: "x mod 256 \<le> 255" for x :: nat using mod_less_divisor [of 256 x] by linarith
  have "parseIPv4Fields (string4 w) None 0 0 [] = Some (octets w)"
    unfolding string4_def octets_expand by (rule parseIPv4Fields_join) (rule le)+
  then show ?thesis by (simp add: parseIPv4_def word_of_octets)
qed

lemma find_append_none: "find P xs = None \<Longrightarrow> find P (xs @ ys) = find P ys"
  by (induction xs) (auto split: if_splits)

lemma ParseAddr_string4 [simp]: "ParseAddr (string4 w) = Some (IP4 w)"
proof -
  obtain n rest where s: "string4 w = string_of_nat n @ CHR ''.'' # rest"
    unfolding string4_def octets_expand by simp
  have "find (\<lambda>c. c \<in> {CHR ''.'', CHR '':'', CHR ''%''}) (string_of_nat n) = None"
    using string_of_nat_digits [of _ n] digit_not_dot by (fastforce simp: find_None_iff)
  then have "find (\<lambda>c. c \<in> {CHR ''.'', CHR '':'', CHR ''%''}) (string4 w) = Some (CHR ''.'')"
    unfolding s by (simp add: find_append_none)
  then show ?thesis by (simp add: ParseAddr_def parseIPv4_string4)
qed

lemma string4_inj: "string4 a = string4 b \<longleftrightarrow> a = b"
  by (metis ParseAddr_string4 addr.inject(1) option.inject)

subsection \<open>IPv6\<close>

lemma hex_char_val: "d < 16 \<Longrightarrow> hex_val (hex_char d) = Some d"
  by (auto simp: hex_val_def hex_char_def is_digit_def Let_def)

lemma foldl_hex_ge: "v \<le> foldl (\<lambda>a c. a * 16 + the (hex_val c)) (v :: nat) ds"
proof (induction ds arbitrary: v)
  case (Cons c ds)
  have "v \<le> v * 16 + the (hex_val c)" by simp
  also have "\<dots> \<le> foldl (\<lambda>a c. a * 16 + the (hex_val c)) (v * 16 + the (hex_val c)) ds" by (rule Cons)
  finally show ?case by simp
qed simp

lemma hex_group_digits:
  assumes "list_all (\<lambda>c. hex_val c \<noteq> None) ds" and "off + length ds \<le> 4"
    and "foldl (\<lambda>a c. a * 16 + the (hex_val c)) v ds \<le> 65535"
    and "rest = [] \<or> hex_val (hd rest) = None"
  shows "hex_group (ds @ rest) off v =
    Some (off + length ds, foldl (\<lambda>a c. a * 16 + the (hex_val c)) v ds, rest)"
  using assms
proof (induction ds arbitrary: off v)
  case Nil
  then show ?case by (cases rest) auto
next
  case (Cons c ds)
  then obtain d where d: "hex_val c = Some d" by auto
  have "v * 16 + d \<le> 65535"
    using Cons.prems(3) foldl_hex_ge [of "v * 16 + d" ds] d by simp
  with Cons d show ?case by simp
qed

lemma string_of_hex_props:
  "list_all (\<lambda>c. hex_val c \<noteq> None) (string_of_hex n) \<and>
   foldl (\<lambda>a c. a * 16 + the (hex_val c)) 0 (string_of_hex n) = n"
proof (induction n rule: string_of_hex.induct)
  case (1 n)
  then show ?case by (cases "n < 16") (simp_all add: string_of_hex.simps [of n] hex_char_val)
qed

lemma string_of_hex_length: "n < 16 ^ Suc k \<Longrightarrow> length (string_of_hex n) \<le> Suc k"
proof (induction k arbitrary: n)
  case 0
  then show ?case by (simp add: string_of_hex.simps [of n])
next
  case (Suc k)
  then have "n div 16 < 16 ^ Suc k" by (simp add: less_mult_imp_div_less)
  with Suc.IH [of "n div 16"] show ?case by (simp add: string_of_hex.simps [of n])
qed

lemma string_of_hex_nonempty [simp]: "string_of_hex n \<noteq> []"
  by (subst string_of_hex.simps) simp

lemma hex_group_string:
  assumes "g < 65536" and "rest = [] \<or> hex_val (hd rest) = None"
  shows "hex_group (string_of_hex g @ rest) 0 0 = Some (length (string_of_hex g), g, rest)"
proof -
  have "length (string_of_hex g) \<le> 4"
    using string_of_hex_length [of g 3] assms(1) by simp
  then show ?thesis
    using hex_group_digits [of "string_of_hex g" 0 0 rest] string_of_hex_props [of g] assms by simp
qed

lemma hex_val_seps [simp]: "hex_val (CHR '':'') = None" "hex_val (CHR ''.'') = None" "hex_val (CHR ''%'') = None"
  by (simp_all add: hex_val_def is_digit_def Let_def)

lemma string_of_hex_hd: "hex_val (hd (string_of_hex g)) \<noteq> None"
  using string_of_hex_props [of g] by (cases "string_of_hex g") auto

lemma string_of_hex_Cons: "\<exists>c s. string_of_hex g = c # s \<and> c \<noteq> CHR '':'' \<and> c \<noteq> CHR ''.''"
  using string_of_hex_hd [of g] by (cases "string_of_hex g") auto

abbreviation hex_join :: "nat list \<Rightarrow> string" where
  "hex_join gs \<equiv> join '':'' (map string_of_hex gs)"

lemma hex_join_Cons: "gs \<noteq> [] \<Longrightarrow> hex_join (g # gs) = string_of_hex g @ CHR '':'' # hex_join gs"
  by (cases gs) simp_all

lemma hex_join_hd: "gs \<noteq> [] \<Longrightarrow> \<exists>c s. hex_join gs = c # s \<and> c \<noteq> CHR '':'' \<and> c \<noteq> CHR ''.''"
  using string_of_hex_Cons [of "hd gs"] by (cases gs; cases "tl gs") (auto simp: hex_join_Cons)

text \<open>Reading a whole list of groups, then groups up to an ellipsis.\<close>

lemma v6_groups_join:
  assumes "gs \<noteq> []" "length gs \<le> n" "list_all (\<lambda>g. g < 65536) gs"
  shows "v6_groups n (hex_join gs) acc ell = Some (acc @ gs, ell, [])"
  using assms
proof (induction gs arbitrary: n acc)
  case Nil
  then show ?case by simp
next
  case (Cons g gs)
  then obtain m where n: "n = Suc m" by (cases n) auto
  show ?case
  proof (cases "gs = []")
    case True
    with Cons.prems n hex_group_string [of g "[]"] show ?thesis by simp
  next
    case False
    obtain c s where cs: "hex_join gs = c # s" "c \<noteq> CHR '':''" using hex_join_hd [OF False] by blast
    have "v6_groups m (hex_join gs) (acc @ [g]) ell = Some (acc @ [g] @ gs, ell, [])"
      using Cons.IH [OF False, of m "acc @ [g]"] Cons.prems n by simp
    with Cons.prems n False cs hex_group_string [of g "CHR '':'' # hex_join gs"]
    show ?thesis by (simp add: hex_join_Cons del: list.map(2))
  qed
qed

lemma v6_groups_ellipsis:
  assumes "gs \<noteq> []" "length gs + length hs \<le> n" "list_all (\<lambda>g. g < 65536) gs" "list_all (\<lambda>g. g < 65536) hs"
  shows "v6_groups n (hex_join gs @ ''::'' @ hex_join hs) acc None =
    Some (acc @ gs @ hs, Some (length acc + length gs), [])"
  using assms
proof (induction gs arbitrary: n acc)
  case Nil
  then show ?case by simp
next
  case (Cons g gs)
  then obtain m where n: "n = Suc m" by (cases n) auto
  show ?case
  proof (cases "gs = []")
    case True
    have "v6_groups m (hex_join hs) (acc @ [g]) (Some (length acc + 1)) =
       Some (acc @ [g] @ hs, Some (length acc + 1), [])" if "hs \<noteq> []"
      using v6_groups_join [OF that, of m "acc @ [g]"] Cons.prems n by simp
    moreover have "hex_join hs = [] \<longleftrightarrow> hs = []" using hex_join_hd [of hs] by fastforce
    ultimately show ?thesis
      using Cons.prems n True hex_group_string [of g "CHR '':'' # CHR '':'' # hex_join hs"] by auto
  next
    case False
    obtain c s where cs: "hex_join gs = c # s" "c \<noteq> CHR '':''" using hex_join_hd [OF False] by blast
    have "v6_groups m (hex_join gs @ ''::'' @ hex_join hs) (acc @ [g]) None =
        Some (acc @ [g] @ gs @ hs, Some (length acc + 1 + length gs), [])"
      using Cons.IH [OF False, of m "acc @ [g]"] Cons.prems n by simp
    with Cons.prems n False cs hex_group_string [of g "CHR '':'' # hex_join gs @ ''::'' @ hex_join hs"]
    show ?thesis by (simp add: hex_join_Cons del: list.map(2))
  qed
qed

lemma zero_run_props: "zero_run gs \<le> length gs \<and> take (zero_run gs) gs = replicate (zero_run gs) 0"
  by (induction gs rule: zero_run.induct) auto

definition good_run :: "nat list \<Rightarrow> nat \<times> nat \<Rightarrow> bool" where
  "good_run fs = (\<lambda>(a, b). (a, b) = (255, 255) \<or>
     (a + 2 \<le> b \<and> b \<le> length fs \<and> take (b - a) (drop a fs) = replicate (b - a) 0))"

lemma best_run_good:
  "gs = drop i fs \<Longrightarrow> i \<le> length fs \<Longrightarrow> good_run fs best \<Longrightarrow> good_run fs (best_run gs i best)"
proof (induction gs i best rule: best_run.induct)
  case (1 i best)
  then show ?case by simp
next
  case (2 g gs i best)
  define l where "l = zero_run (g # gs)"
  have l: "l \<le> length (g # gs)" "take l (g # gs) = replicate l 0"
    using zero_run_props [of "g # gs"] by (simp_all add: l_def)
  have len: "length (g # gs) = length fs - i" by (simp add: "2.prems"(1))
  have "good_run fs (i, i + l)" if "2 \<le> l"
    using that l "2.prems"(1) len by (auto simp: good_run_def simp del: take_Suc_Cons)
  with "2.prems"(3) have g: "good_run fs (if 2 \<le> l \<and> l > snd best - fst best then (i, i + l) else best)"
    by simp
  have "drop (Suc i) fs = gs" using "2.prems"(1) by (metis drop_Suc list.sel(3) tl_drop)
  moreover have "Suc i \<le> length fs" using len by (cases "i = length fs") auto
  ultimately have "good_run fs (best_run gs (Suc i) (if 2 \<le> l \<and> l > snd best - fst best then (i, i + l) else best))"
    using "2.IH" [OF l_def] g by simp
  then show ?case by (simp only: best_run.simps Let_def l_def)
qed

lemma good_run_restore:
  assumes "good_run fs (a, b)" "a \<noteq> 255" "length fs = 8"
  shows "a + 2 \<le> b \<and> b \<le> 8 \<and> take a fs @ replicate (b - a) 0 @ drop b fs = fs"
proof -
  from assms have ab: "a + 2 \<le> b" "b \<le> 8" "take (b - a) (drop a fs) = replicate (b - a) 0"
    by (auto simp: good_run_def)
  have "drop b fs = drop (b - a) (drop a fs)" using ab by simp
  then have "replicate (b - a) 0 @ drop b fs = drop a fs"
    unfolding ab(3) [symmetric] by (simp only: append_take_drop_id)
  then show ?thesis using ab by simp
qed

lemma v6_fields_props: "length (v6_fields w) = 8" "list_all (\<lambda>g. g < 65536) (v6_fields w)"
  by (simp_all add: v6_fields_def list_all_iff)

lemma v6_address_string6: "v6_address (string6 w) = Some (v6_fields w)"
proof -
  define fs where "fs = v6_fields w"
  have fs: "length fs = 8" "list_all (\<lambda>g. g < 65536) fs" by (simp_all add: fs_def v6_fields_props)
  obtain a b where ab: "best_run fs 0 (255, 255) = (a, b)" by fastforce
  have good: "good_run fs (a, b)"
    using best_run_good [of fs 0 fs "(255, 255)"] ab by (simp add: good_run_def)
  have small: "list_all (\<lambda>g. g < 65536) (take a fs)" "list_all (\<lambda>g. g < 65536) (drop b fs)"
    using fs(2) by (auto simp: list_all_iff dest: in_set_takeD in_set_dropD)
  show ?thesis
  proof (cases "a = 255")
    case True
    then have s: "string6 w = hex_join fs" using ab by (simp add: string6_def fs_def Let_def)
    obtain c r where cr: "hex_join fs = c # r" "c \<noteq> CHR '':''" using hex_join_hd [of fs] fs(1) by fastforce
    have "v6_groups 8 (hex_join fs) [] None = Some (fs, None, [])"
      using v6_groups_join [of fs 8 "[]"] fs by fastforce
    then show ?thesis
      using fs(1) cr by (simp add: v6_address_def s v6_expand_def fs_def [symmetric])
  next
    case False
    note r = good_run_restore [OF good False fs(1)]
    have s: "string6 w = hex_join (take a fs) @ ''::'' @ hex_join (drop b fs)"
      using ab False by (simp add: string6_def fs_def Let_def)
    have len: "length (take a fs) = a" "length (drop b fs) = 8 - b" using r fs(1) by auto
    have rest: "take a fs @ replicate (8 - (a + (8 - b))) 0 @ drop b fs = fs"
    proof -
      have "8 - (a + (8 - b)) = b - a" using r by linarith
      with r show ?thesis by simp
    qed
    show ?thesis
    proof (cases "a = 0")
      case True
      show ?thesis
      proof (cases "b = 8")
        case b8: True
        with True r fs(1) have "fs = replicate 8 0" by simp
        with True b8 fs(1) show ?thesis by (simp add: v6_address_def s fs_def [symmetric])
      next
        case b8: False
        then have ne: "drop b fs \<noteq> []" using fs(1) r by auto
        have "v6_groups 8 (hex_join (drop b fs)) [] (Some 0) = Some (drop b fs, Some 0, [])"
          using v6_groups_join [OF ne _ small(2), of 8 "[]"] fs(1) by simp
        moreover have "hex_join (drop b fs) \<noteq> []" using hex_join_hd [OF ne] by auto
        moreover have "v6_expand (drop b fs, Some 0, []) = Some fs"
          using rest True len(2) r b8 by (simp add: v6_expand_def)
        ultimately show ?thesis
          using True by (simp add: v6_address_def s fs_def [symmetric])
      qed
    next
      case a0: False
      then have ne: "take a fs \<noteq> []" using fs(1) by auto
      obtain c t where ct: "hex_join (take a fs) = c # t" "c \<noteq> CHR '':''" using hex_join_hd [OF ne] by blast
      have le: "length (take a fs) + length (drop b fs) \<le> 8" unfolding len using r by linarith
      have "v6_groups 8 (hex_join (take a fs) @ ''::'' @ hex_join (drop b fs)) [] None =
         Some (take a fs @ drop b fs, Some a, [])"
        using v6_groups_ellipsis [OF ne le small, of "[]"] len(1) by simp
      moreover have "v6_expand (take a fs @ drop b fs, Some a, []) = Some fs"
      proof -
        have "length (take a fs @ drop b fs) < 8"
          unfolding length_append len using r by arith
        then show ?thesis using rest len by (simp add: v6_expand_def)
      qed
      ultimately show ?thesis
        using ct by (simp add: v6_address_def s fs_def [symmetric])
    qed
  qed
qed


lemma set_join: "set (join sep xs) \<subseteq> \<Union> (set (map set xs)) \<union> set sep"
  by (induction sep xs rule: join.induct) auto

lemma string6_cases:
  obtains "string6 w = hex_join (v6_fields w)"
  | a b where "string6 w = hex_join (take a (v6_fields w)) @ ''::'' @ hex_join (drop b (v6_fields w))"
proof -
  obtain a b where ab: "best_run (v6_fields w) 0 (255, 255) = (a, b)" by fastforce
  show thesis
  proof (cases "a = 255")
    case True
    with ab that(1) show ?thesis by (simp add: string6_def Let_def)
  next
    case False
    with ab that(2) [of a b] show ?thesis by (simp add: string6_def Let_def)
  qed
qed

lemma hex_join_chars: "c \<in> set (hex_join gs) \<Longrightarrow> c = CHR '':'' \<or> hex_val c \<noteq> None"
proof -
  assume "c \<in> set (hex_join gs)"
  then obtain g where "c = CHR '':'' \<or> c \<in> set (string_of_hex g)"
    using set_join [of "'':''" "map string_of_hex gs"] by auto
  then show ?thesis using string_of_hex_props [of g] by (auto simp: list_all_iff)
qed

lemma string6_chars: "c \<in> set (string6 w) \<Longrightarrow> c = CHR '':'' \<or> hex_val c \<noteq> None"
proof (cases w rule: string6_cases)
  case 1
  then show "c \<in> set (string6 w) \<Longrightarrow> ?thesis" by (simp only: hex_join_chars)
next
  case (2 a b)
  assume "c \<in> set (string6 w)"
  with 2 have "c \<in> set (hex_join (take a (v6_fields w))) \<or> c = CHR '':'' \<or> c \<in> set (hex_join (drop b (v6_fields w)))"
    by (simp only: set_append Un_iff list.set) blast
  then show ?thesis using hex_join_chars by blast
qed

lemma string6_colon: "CHR '':'' \<in> set (string6 w)"
proof (cases w rule: string6_cases)
  case 1
  obtain g h gs where "v6_fields w = g # h # gs"
    using v6_fields_props(1) [of w] by (cases "v6_fields w"; cases "tl (v6_fields w)") auto
  with 1 show ?thesis by simp
next
  case 2
  then show ?thesis by simp
qed

lemma find_Some_first:
  assumes "x \<in> set xs" "P x" "\<And>y. y \<in> set xs \<Longrightarrow> P y \<Longrightarrow> y = x"
  shows "find P xs = Some x"
proof -
  from assms(1,2) obtain y where y: "find P xs = Some y"
    by (metis find_None_iff not_Some_eq)
  then have "y \<in> set xs" "P y" by (auto simp: find_Some_iff)
  then have "y = x" by (rule assms(3))
  with y show ?thesis by simp
qed

lemma index_byte_None: "c \<notin> set s \<Longrightarrow> index_byte c s = None"
  by (induction s) auto

lemma ParseAddr_string6: "ParseAddr (string6 w) = Some (IP6 w [])"
proof -
  have "find (\<lambda>c. c \<in> {CHR ''.'', CHR '':'', CHR ''%''}) (string6 w) = Some (CHR '':'')"
  proof (rule find_Some_first [OF string6_colon])
    show "CHR '':'' \<in> {CHR ''.'', CHR '':'', CHR ''%''}" by simp
    show "y = CHR '':''" if "y \<in> set (string6 w)" "y \<in> {CHR ''.'', CHR '':'', CHR ''%''}" for y
      using string6_chars [OF that(1)] that(2) by auto
  qed
  moreover have "index_byte (CHR ''%'') (string6 w) = None"
    by (rule index_byte_None) (use string6_chars [of "CHR ''%''" w] in auto)
  ultimately show ?thesis
    by (simp add: ParseAddr_def parseIPv6_def v6_address_string6 word_of_v6_fields)
qed

lemma string6_inj: "string6 a = string6 b \<longleftrightarrow> a = b"
proof
  assume e: "string6 a = string6 b"
  have "Some (IP6 a []) = ParseAddr (string6 b)"
    unfolding e [symmetric] by (rule ParseAddr_string6 [symmetric])
  then show "a = b" unfolding ParseAddr_string6 by (simp only: option.inject addr.inject)
qed (rule arg_cong)

lemma ParseAddr_addr_String:
  "addr_zone a = [] \<Longrightarrow> \<not> Is4In6 a \<Longrightarrow> ParseAddr (addr_String a) = Some a"
  by (cases a) (auto simp: ParseAddr_string6)

lemma ParseAddr_Nil: "ParseAddr [] = None"
  by (simp add: ParseAddr_def)

lemma string4_nonempty [simp]: "string4 w \<noteq> []"
  using ParseAddr_string4 [of w] by (auto simp: ParseAddr_Nil simp del: ParseAddr_string4)

lemma string6_nonempty [simp]: "string6 w \<noteq> []"
  using string6_colon [of w] by auto

section \<open>Evaluation on literals\<close>

text \<open>Rules that evaluate the parsers on concrete strings with the simplifier.\<close>

lemmas netip_eval = is_digit_def digit_val_def hex_val_def Let_def atoi_digits_def nat_of_digits_def
  word_of_fields_def

lemmas v6_groups_numeral = v6_groups.simps(2) [of "pred_numeral k" for k, folded numeral_eq_Suc]

lemma replicate_numeral_Cons: "replicate (numeral k) x = x # replicate (pred_numeral k) x"
  by (simp add: numeral_eq_Suc)

end
