(* ===== verification/Fake_IP.thy ===== *)
theory Fake_IP
  imports Go_Netip
begin

text \<open>
  The fake-address stores of \<^verbatim>\<open>src/internal/fake_ip.go\<close>.  In VPN mode a DNS query is answered
  with an address out of a private range; the store remembers which domain the address was
  handed out for, so that a later connection to the address can be turned back into the domain.

  The record \<open>fakeIPStore\<close> has the two maps of the code and the cursor \<open>store_next\<close>; the
  mutex serialises the operations, so each operation is one step on the state.  The clock
  \<^verbatim>\<open>s.now()\<close> is an argument.  \<open>Allocate\<close> contains a loop that stops only when the cursor
  returns to where it started: it is a partial function, and that it does stop on every
  reachable store is proved.

  The lemmas: \<open>store_ok\<close> (the maps are inverse to each other) is kept by every operation;
  inside the locale \<open>addr_pool\<close>, which captures what the loop needs of the address range,
  \<open>Allocate\<close> terminates and meets its contract \<open>Allocate_contract\<close>.  The locale is
  interpreted for the IPv4 range 198.18.0.0/15 and for the IPv6 range.
\<close>

section \<open>State\<close>

record fakeIPEntry =
  entry_domain :: string
  entry_ip :: string
  entry_expiresAt :: instant

record fakeIPStore =
  store_prefix :: prefix
  store_next :: "addr option"
  domainToEntry :: "(string, fakeIPEntry) gomap"
  ipToEntry :: "(string, fakeIPEntry) gomap"

definition defaultFakeTTL :: nat where
  "defaultFakeTTL = 60"

definition vpnDNSIPv4Addr :: string where
  "vpnDNSIPv4Addr = ''172.19.0.2''"

definition fakeIPv4CIDR :: string where
  "fakeIPv4CIDR = ''198.18.0.0/15''"

definition fakeIPv6CIDR :: string where
  "fakeIPv6CIDR = ''fd66:6c75:6d69:100::/56''"

definition mustNewFakeIPStore :: "string \<Rightarrow> fakeIPStore go" where
  "mustNewFakeIPStore cidr =
     (case ParsePrefix cidr of
        None \<Rightarrow> Inl (Panic ''netip.MustParsePrefix'')
      | Some p \<Rightarrow> Inr \<lparr> store_prefix = p, store_next = addr_Next (prefix_Addr p),
                        domainToEntry = [], ipToEntry = [] \<rparr>)"

definition IsVPNDNSAddress :: "string \<Rightarrow> int \<Rightarrow> bool" where
  "IsVPNDNSAddress host port \<longleftrightarrow> host = vpnDNSIPv4Addr \<and> port = 53"

section \<open>Operations\<close>

definition deleteEntryLocked :: "fakeIPEntry \<Rightarrow> fakeIPStore \<Rightarrow> fakeIPStore" where
  "deleteEntryLocked e s =
     (let s1 = (case map_of (domainToEntry s) (entry_domain e) of
                  Some cur \<Rightarrow> if entry_ip cur = entry_ip e
                              then s\<lparr> domainToEntry := AList.delete (entry_domain e) (domainToEntry s) \<rparr>
                              else s
                | None \<Rightarrow> s)
      in case map_of (ipToEntry s1) (entry_ip e) of
           Some cur \<Rightarrow> if entry_domain cur = entry_domain e
                       then s1\<lparr> ipToEntry := AList.delete (entry_ip e) (ipToEntry s1) \<rparr>
                       else s1
         | None \<Rightarrow> s1)"

definition cleanupExpiredLocked :: "instant \<Rightarrow> fakeIPStore \<Rightarrow> fakeIPStore" where
  "cleanupExpiredLocked now s =
     fold (\<lambda>e s. if \<not> entry_expiresAt e > now then deleteEntryLocked e s else s)
       (map snd (domainToEntry s)) s"

definition storeEntry :: "fakeIPStore \<Rightarrow> instant \<Rightarrow> string \<Rightarrow> duration \<Rightarrow> addr option \<Rightarrow> fakeIPStore \<times> string go" where
  "storeEntry s now domain lifetime candidate =
     (let ip = addr_String_opt candidate;
          e = \<lparr> entry_domain = domain, entry_ip = ip, entry_expiresAt = now + lifetime \<rparr>
      in (s\<lparr> domainToEntry := AList.update domain e (domainToEntry s),
            ipToEntry := AList.update ip e (ipToEntry s),
            store_next := Option.bind candidate addr_Next \<rparr>, Inr ip))"

partial_function (option) allocateLoop ::
  "fakeIPStore \<Rightarrow> instant \<Rightarrow> string \<Rightarrow> duration \<Rightarrow> addr option \<Rightarrow> addr option
   \<Rightarrow> (fakeIPStore \<times> string go) option" where
  "allocateLoop s now domain lifetime start candidate0 =
     (let candidate = (if \<not> Contains_opt (store_prefix s) candidate0
                       then addr_Next (prefix_Addr (store_prefix s)) else candidate0)
      in case map_of (ipToEntry s) (addr_String_opt candidate) of
           None \<Rightarrow> Some (storeEntry s now domain lifetime candidate)
         | Some e \<Rightarrow>
             if entry_expiresAt e > now then
               (if Option.bind candidate addr_Next = start
                then Some (s, Inl (Error ''fake ip pool exhausted''))
                else allocateLoop s now domain lifetime start (Option.bind candidate addr_Next))
             else Some (storeEntry (deleteEntryLocked e s) now domain lifetime candidate))"

definition Allocate ::
  "fakeIPStore \<Rightarrow> instant \<Rightarrow> string \<Rightarrow> duration \<Rightarrow> (fakeIPStore \<times> string go) option" where
  "Allocate s now domain0 lifetime0 =
     (let domain = ToLower domain0 in
      if domain = [] then Some (s, Inl (Error ''domain is empty''))
      else
        let lifetime = (if lifetime0 \<le> 0 then int defaultFakeTTL * second else lifetime0);
            s1 = cleanupExpiredLocked now s
        in case map_of (domainToEntry s1) domain of
             Some e \<Rightarrow>
               let e' = e\<lparr> entry_expiresAt := now + lifetime \<rparr>
               in Some (s1\<lparr> domainToEntry := AList.update domain e' (domainToEntry s1),
                            ipToEntry := AList.update (entry_ip e') e' (ipToEntry s1) \<rparr>,
                        Inr (entry_ip e'))
           | None \<Rightarrow> allocateLoop s1 now domain lifetime (store_next s1) (store_next s1))"

definition LookupDomain :: "fakeIPStore \<Rightarrow> instant \<Rightarrow> string \<Rightarrow> fakeIPStore \<times> string option" where
  "LookupDomain s now ip =
     (case map_of (ipToEntry s) ip of
        None \<Rightarrow> (s, None)
      | Some e \<Rightarrow> if \<not> entry_expiresAt e > now then (deleteEntryLocked e s, None)
                  else (s, Some (entry_domain e)))"

section \<open>The two default stores\<close>

definition vpnTunnelIPv6Addr :: string where
  "vpnTunnelIPv6Addr = ''fd66:6c75:6d69::1''"

definition VPNDNSIPv4 :: string where
  "VPNDNSIPv4 = vpnDNSIPv4Addr"

definition VPNTunnelIPv6 :: string where
  "VPNTunnelIPv6 = vpnTunnelIPv6Addr"

text \<open>The package variables \<^verbatim>\<open>defaultFakeIPv4Store\<close> and \<^verbatim>\<open>defaultFakeIPv6Store\<close>.\<close>

record fakeStores =
  defaultFakeIPv4Store :: fakeIPStore
  defaultFakeIPv6Store :: fakeIPStore

definition initFakeStores :: "fakeStores go" where
  "initFakeStores =
     go_bind (mustNewFakeIPStore fakeIPv4CIDR) (\<lambda>s4.
     go_bind (mustNewFakeIPStore fakeIPv6CIDR) (\<lambda>s6.
     Inr \<lparr> defaultFakeIPv4Store = s4, defaultFakeIPv6Store = s6 \<rparr>))"

definition fakeIPLifetime :: "duration \<Rightarrow> 32 word \<Rightarrow> duration" where
  "fakeIPLifetime dnsCacheTTL ttl0 =
     (let ttl = (if ttl0 = 0 then of_nat defaultFakeTTL else ttl0);
          lifetime = int64 (uint ttl * second)
      in if dnsCacheTTL > lifetime then dnsCacheTTL else lifetime)"

definition lookupFakeDomainByIP :: "instant \<Rightarrow> instant \<Rightarrow> fakeStores \<Rightarrow> string \<Rightarrow> fakeStores \<times> string option" where
  "lookupFakeDomainByIP now4 now6 st ip =
     (let (s4, r4) = LookupDomain (defaultFakeIPv4Store st) now4 ip;
          st1 = st\<lparr> defaultFakeIPv4Store := s4 \<rparr>
      in case r4 of
           Some domain \<Rightarrow> (st1, Some domain)
         | None \<Rightarrow>
             let (s6, r6) = LookupDomain (defaultFakeIPv6Store st1) now6 ip
             in (st1\<lparr> defaultFakeIPv6Store := s6 \<rparr>, r6))"

definition isFakeIPAddress :: "fakeStores \<Rightarrow> string \<Rightarrow> bool" where
  "isFakeIPAddress st ip =
     (case ParseAddr ip of
        None \<Rightarrow> False
      | Some addr \<Rightarrow> Contains (store_prefix (defaultFakeIPv4Store st)) addr
                   \<or> Contains (store_prefix (defaultFakeIPv6Store st)) addr)"

definition TypeA :: "16 word" where "TypeA = 1"
definition TypeAAAA :: "16 word" where "TypeAAAA = 28"

definition allocateFakeIP ::
  "duration \<Rightarrow> instant \<Rightarrow> fakeStores \<Rightarrow> string \<Rightarrow> 16 word \<Rightarrow> 32 word \<Rightarrow> (fakeStores \<times> string go) option" where
  "allocateFakeIP dnsCacheTTL now st domain qtype ttl =
     (let lifetime = fakeIPLifetime dnsCacheTTL ttl in
      if qtype = TypeA then
        map_option (\<lambda>(s, r). (st\<lparr> defaultFakeIPv4Store := s \<rparr>, r))
          (Allocate (defaultFakeIPv4Store st) now domain lifetime)
      else if qtype = TypeAAAA then
        map_option (\<lambda>(s, r). (st\<lparr> defaultFakeIPv6Store := s \<rparr>, r))
          (Allocate (defaultFakeIPv6Store st) now domain lifetime)
      else Some (st, Inl (Error ''unsupported fake ip qtype'')))"

text \<open>The states the two stores can be in, whatever the order and the times of the calls.\<close>

inductive fake_reach :: "fakeStores \<Rightarrow> bool" where
  init: "initFakeStores = Inr st \<Longrightarrow> fake_reach st"
| allocate: "fake_reach st \<Longrightarrow> allocateFakeIP cttl now st domain qtype ttl = Some (st', r) \<Longrightarrow> fake_reach st'"
| lookup: "fake_reach st \<Longrightarrow> fake_reach (fst (lookupFakeDomainByIP now4 now6 st ip))"


section \<open>The maps stay inverse to each other\<close>

definition store_ok :: "fakeIPStore \<Rightarrow> bool" where
  "store_ok s \<longleftrightarrow> map_ok (domainToEntry s) \<and> map_ok (ipToEntry s) \<and>
     (\<forall>d e. map_of (domainToEntry s) d = Some e \<longrightarrow>
        entry_domain e = d \<and> map_of (ipToEntry s) (entry_ip e) = Some e) \<and>
     (\<forall>i e. map_of (ipToEntry s) i = Some e \<longrightarrow>
        entry_ip e = i \<and> map_of (domainToEntry s) (entry_domain e) = Some e)"

lemma store_okD:
  assumes "store_ok s"
  shows "map_of (domainToEntry s) d = Some e \<Longrightarrow> entry_domain e = d"
    and "map_of (domainToEntry s) d = Some e \<Longrightarrow> map_of (ipToEntry s) (entry_ip e) = Some e"
    and "map_of (ipToEntry s) i = Some e \<Longrightarrow> entry_ip e = i"
    and "map_of (ipToEntry s) i = Some e \<Longrightarrow> map_of (domainToEntry s) (entry_domain e) = Some e"
  using assms unfolding store_ok_def by blast+

lemma store_okI:
  assumes "map_ok (domainToEntry s)" "map_ok (ipToEntry s)"
    and "\<And>d e. map_of (domainToEntry s) d = Some e \<Longrightarrow>
      entry_domain e = d \<and> map_of (ipToEntry s) (entry_ip e) = Some e"
    and "\<And>i e. map_of (ipToEntry s) i = Some e \<Longrightarrow>
      entry_ip e = i \<and> map_of (domainToEntry s) (entry_domain e) = Some e"
  shows "store_ok s"
  using assms unfolding store_ok_def by blast

lemma store_ok_maps: "store_ok s \<Longrightarrow> map_ok (domainToEntry s)" "store_ok s \<Longrightarrow> map_ok (ipToEntry s)"
  by (simp_all add: store_ok_def)

lemma deleteEntry_present:
  assumes "store_ok s" and "map_of (domainToEntry s) (entry_domain e) = Some e"
  shows "deleteEntryLocked e s =
    s\<lparr> domainToEntry := AList.delete (entry_domain e) (domainToEntry s),
       ipToEntry := AList.delete (entry_ip e) (ipToEntry s) \<rparr>"
  using store_okD(2) [OF assms] unfolding deleteEntryLocked_def Let_def assms(2) option.case
  by simp

lemma deleteEntry_ok:
  assumes "store_ok s" and "map_of (domainToEntry s) (entry_domain e) = Some e"
  shows "store_ok (deleteEntryLocked e s)"
proof -
  note d = store_okD [OF assms(1)]
  have ip: "entry_ip e' \<noteq> entry_ip e" if "map_of (domainToEntry s) k = Some e'" "k \<noteq> entry_domain e" for k e'
  proof
    assume "entry_ip e' = entry_ip e"
    with d(2) [OF that(1)] d(2) [OF assms(2)] have "e' = e" by (metis option.inject)
    with d(1) [OF that(1)] that(2) show False by metis
  qed
  have dom: "entry_domain e' \<noteq> entry_domain e" if "map_of (ipToEntry s) k = Some e'" "k \<noteq> entry_ip e" for k e'
  proof
    assume "entry_domain e' = entry_domain e"
    with d(4) [OF that(1)] assms(2) have "e' = e" by (metis option.inject)
    with d(3) [OF that(1)] that(2) show False by metis
  qed
  show ?thesis
    unfolding deleteEntry_present [OF assms]
  proof (rule store_okI, goal_cases)
    case (3 k e')
    then have k: "map_of (domainToEntry s) k = Some e'" "k \<noteq> entry_domain e" by (simp_all split: if_splits)
    with ip [OF k] d(1,2) [OF k(1)] show ?case by simp
  next
    case (4 k e')
    then have k: "map_of (ipToEntry s) k = Some e'" "k \<noteq> entry_ip e" by (simp_all split: if_splits)
    with dom [OF k] d(3,4) [OF k(1)] show ?case by simp
  qed (simp_all add: store_ok_maps [OF assms(1)])
qed

text \<open>The loop over a snapshot of the entries removes exactly the expired ones.\<close>

definition live_only :: "instant \<Rightarrow> (string \<rightharpoonup> fakeIPEntry) \<Rightarrow> (string \<rightharpoonup> fakeIPEntry)" where
  "live_only now m = (\<lambda>k. case m k of Some e \<Rightarrow> if entry_expiresAt e > now then Some e else None | None \<Rightarrow> None)"

lemma cleanup_fold:
  assumes "store_ok s" "distinct (map entry_domain es)"
    and "\<And>e. e \<in> set es \<Longrightarrow> map_of (domainToEntry s) (entry_domain e) = Some e"
  shows "\<exists>s'. fold (\<lambda>e s. if \<not> entry_expiresAt e > now then deleteEntryLocked e s else s) es s = s' \<and>
    store_ok s' \<and> store_prefix s' = store_prefix s \<and> store_next s' = store_next s \<and>
    (\<forall>d. map_of (domainToEntry s') d =
       (if \<exists>e \<in> set es. entry_domain e = d \<and> \<not> entry_expiresAt e > now then None
        else map_of (domainToEntry s) d)) \<and>
    (\<forall>i. map_of (ipToEntry s') i =
       (if \<exists>e \<in> set es. entry_ip e = i \<and> \<not> entry_expiresAt e > now then None
        else map_of (ipToEntry s) i))"
  using assms
proof (induction es arbitrary: s)
  case Nil
  then show ?case by simp
next
  case (Cons e es)
  show ?case
  proof (cases "entry_expiresAt e > now")
    case True
    with Cons.IH [of s] Cons.prems show ?thesis by auto
  next
    case False
    have pe: "map_of (domainToEntry s) (entry_domain e) = Some e" using Cons.prems(3) by simp
    note del = deleteEntry_present [OF Cons.prems(1) pe]
    have "store_ok (deleteEntryLocked e s)" by (rule deleteEntry_ok [OF Cons.prems(1) pe])
    moreover have "map_of (domainToEntry (deleteEntryLocked e s)) (entry_domain e') = Some e'" if "e' \<in> set es" for e'
    proof -
      have "entry_domain e' \<noteq> entry_domain e" using that Cons.prems(2) by (auto simp: rev_image_eqI)
      then show ?thesis using Cons.prems(3) [of e'] that by (simp add: del)
    qed
    ultimately obtain s' where s': "fold (\<lambda>e s. if \<not> entry_expiresAt e > now then deleteEntryLocked e s else s) es (deleteEntryLocked e s) = s'"
      "store_ok s'" "store_prefix s' = store_prefix s" "store_next s' = store_next s"
      "\<forall>d. map_of (domainToEntry s') d =
       (if \<exists>e \<in> set es. entry_domain e = d \<and> \<not> entry_expiresAt e > now then None
        else map_of (domainToEntry (deleteEntryLocked e s)) d)"
      "\<forall>i. map_of (ipToEntry s') i =
       (if \<exists>e \<in> set es. entry_ip e = i \<and> \<not> entry_expiresAt e > now then None
        else map_of (ipToEntry (deleteEntryLocked e s)) i)"
      using Cons.IH [of "deleteEntryLocked e s"] Cons.prems(2) by (auto simp: del)
    then show ?thesis using False by (auto simp: del)
  qed
qed

lemma cleanup_props:
  fixes s :: fakeIPStore and now :: instant
  assumes "store_ok s"
  defines "s' \<equiv> cleanupExpiredLocked now s"
  shows "store_ok s'" "store_prefix s' = store_prefix s" "store_next s' = store_next s"
    "map_of (domainToEntry s') = live_only now (map_of (domainToEntry s))"
    "map_of (ipToEntry s') = live_only now (map_of (ipToEntry s))"
proof -
  let ?es = "map snd (domainToEntry s)"
  have ok: "map_ok (domainToEntry s)" using assms(1) by (simp add: store_ok_def)
  have dom: "entry_domain (snd p) = fst p" if "p \<in> set (domainToEntry s)" for p
    using store_okD(1) [OF assms(1), of "fst p" "snd p"] that ok by (cases p) (simp add: map_of_mem)
  have eq: "map entry_domain ?es = map fst (domainToEntry s)"
    unfolding map_map comp_def by (rule map_cong [OF refl dom])
  have dist: "distinct (map entry_domain ?es)" unfolding eq by (rule ok)
  have pres: "map_of (domainToEntry s) (entry_domain e) = Some e" if "e \<in> set ?es" for e
    using that dom ok by (force simp: map_of_mem)
  have mem: "e \<in> set ?es" if "map_of (domainToEntry s) d = Some e" for d e
    using that by (metis image_eqI list.set_map map_of_SomeD snd_conv)
  obtain t where t: "s' = t" "store_ok t" "store_prefix t = store_prefix s" "store_next t = store_next s"
      "\<forall>d. map_of (domainToEntry t) d =
       (if \<exists>e \<in> set ?es. entry_domain e = d \<and> \<not> entry_expiresAt e > now then None
        else map_of (domainToEntry s) d)"
      "\<forall>i. map_of (ipToEntry t) i =
       (if \<exists>e \<in> set ?es. entry_ip e = i \<and> \<not> entry_expiresAt e > now then None
        else map_of (ipToEntry s) i)"
    using cleanup_fold [OF assms(1) dist pres] unfolding s'_def cleanupExpiredLocked_def by blast
  show "store_ok s'" "store_prefix s' = store_prefix s" "store_next s' = store_next s" using t by auto
  show "map_of (domainToEntry s') = live_only now (map_of (domainToEntry s))"
  proof
    fix d
    show "map_of (domainToEntry s') d = live_only now (map_of (domainToEntry s)) d"
    proof (cases "map_of (domainToEntry s) d")
      case None
      then show ?thesis using t(1,5) by (simp add: live_only_def)
    next
      case (Some e)
      have "e' = e" if "e' \<in> set ?es" "entry_domain e' = d" for e'
        using pres [OF that(1)] that(2) Some by (metis option.inject)
      moreover have "e \<in> set ?es" by (rule mem [OF Some])
      moreover have "entry_domain e = d" by (rule store_okD(1) [OF assms(1) Some])
      ultimately have "(\<exists>e \<in> set ?es. entry_domain e = d \<and> \<not> entry_expiresAt e > now) \<longleftrightarrow> \<not> entry_expiresAt e > now"
        by metis
      then show ?thesis using t(1,5) Some by (simp add: live_only_def)
    qed
  qed
  show "map_of (ipToEntry s') = live_only now (map_of (ipToEntry s))"
  proof
    fix i
    show "map_of (ipToEntry s') i = live_only now (map_of (ipToEntry s)) i"
    proof (cases "map_of (ipToEntry s) i")
      case None
      then show ?thesis using t(1,6) by (simp add: live_only_def)
    next
      case (Some e)
      have "e' = e" if "e' \<in> set ?es" "entry_ip e' = i" for e'
        using store_okD(2) [OF assms(1) pres [OF that(1)]] that(2) Some by (metis option.inject)
      moreover have "e \<in> set ?es" by (rule mem [OF store_okD(4) [OF assms(1) Some]])
      moreover have "entry_ip e = i" by (rule store_okD(3) [OF assms(1) Some])
      ultimately have "(\<exists>e \<in> set ?es. entry_ip e = i \<and> \<not> entry_expiresAt e > now) \<longleftrightarrow> \<not> entry_expiresAt e > now"
        by metis
      then show ?thesis using t(1,6) Some by (simp add: live_only_def)
    qed
  qed
qed

lemma storeEntry_ok:
  assumes "store_ok s" "map_of (domainToEntry s) d = None" "map_of (ipToEntry s) (addr_String_opt a) = None"
  shows "store_ok (fst (storeEntry s now d l a))"
proof -
  note o = store_okD [OF assms(1)]
  show ?thesis
    unfolding storeEntry_def Let_def fst_conv
  proof (rule store_okI, goal_cases)
    case (3 k e)
    show ?case
    proof (cases "k = d")
      case True
      with 3 show ?thesis by auto
    next
      case False
      with 3 have k: "map_of (domainToEntry s) k = Some e" by simp
      with o(2) [OF k] assms(3) have "entry_ip e \<noteq> addr_String_opt a" by auto
      with o(1,2) [OF k] show ?thesis by simp
    qed
  next
    case (4 k e)
    show ?case
    proof (cases "k = addr_String_opt a")
      case True
      with 4 show ?thesis by auto
    next
      case False
      with 4 have k: "map_of (ipToEntry s) k = Some e" by simp
      with o(4) [OF k] assms(2) have "entry_domain e \<noteq> d" by auto
      with o(3,4) [OF k] show ?thesis by simp
    qed
  qed (simp_all add: store_ok_maps [OF assms(1)])
qed

definition busy :: "fakeIPStore \<Rightarrow> instant \<Rightarrow> string \<Rightarrow> bool" where
  "busy s now ip \<longleftrightarrow> (case map_of (ipToEntry s) ip of None \<Rightarrow> False | Some e \<Rightarrow> entry_expiresAt e > now)"

lemma deleteEntry_frame:
  "store_prefix (deleteEntryLocked e s) = store_prefix s" "store_next (deleteEntryLocked e s) = store_next s"
  by (auto simp: deleteEntryLocked_def Let_def split: option.splits)

lemma live_only_Some: "live_only now m k = Some e \<longleftrightarrow> m k = Some e \<and> entry_expiresAt e > now"
  by (auto simp: live_only_def split: option.splits)

lemma live_only_idem [simp]: "live_only now (live_only now m) = live_only now m"
  by (auto simp: live_only_def fun_eq_iff split: option.splits)

lemma refresh_ok:
  fixes t :: instant and e :: fakeIPEntry
  assumes "store_ok s" "map_of (domainToEntry s) d = Some e"
  defines "e' \<equiv> e\<lparr> entry_expiresAt := t \<rparr>"
  shows "store_ok (s\<lparr> domainToEntry := AList.update d e' (domainToEntry s),
                      ipToEntry := AList.update (entry_ip e') e' (ipToEntry s) \<rparr>)"
proof (rule store_okI, goal_cases)
  note o = store_okD [OF assms(1)]
  have d: "entry_domain e = d" "entry_ip e' = entry_ip e" "entry_domain e' = d"
    using o(1) [OF assms(2)] by (simp_all add: e'_def)
  case (3 k f)
  show ?case
  proof (cases "k = d")
    case True
    with 3 d show ?thesis by auto
  next
    case False
    with 3 have k: "map_of (domainToEntry s) k = Some f" by simp
    have "entry_ip f \<noteq> entry_ip e"
      using o(1,2) [OF k] o(2) [OF assms(2)] False d(1) by (metis option.inject)
    with o(1,2) [OF k] d show ?thesis by simp
  qed
next
  note o = store_okD [OF assms(1)]
  have d: "entry_domain e = d" "entry_ip e' = entry_ip e" "entry_domain e' = d"
    using o(1) [OF assms(2)] by (simp_all add: e'_def)
  case (4 k f)
  show ?case
  proof (cases "k = entry_ip e")
    case True
    with 4 d show ?thesis by auto
  next
    case False
    with 4 d have k: "map_of (ipToEntry s) k = Some f" by simp
    have "entry_domain f \<noteq> d"
      using o(3,4) [OF k] assms(2) False by (metis option.inject)
    with o(3,4) [OF k] d show ?thesis by simp
  qed
qed (simp_all add: store_ok_maps [OF assms(1)])

definition live :: "fakeIPStore \<Rightarrow> instant \<Rightarrow> string \<Rightarrow> fakeIPEntry option" where
  "live s now = live_only now (map_of (domainToEntry s))"

definition entry_lifetime :: "duration \<Rightarrow> duration" where
  "entry_lifetime l = (if l \<le> 0 then int defaultFakeTTL * second else l)"

lemma entry_lifetime_pos: "0 < entry_lifetime l"
  by (simp add: entry_lifetime_def defaultFakeTTL_def second_def)

section \<open>Allocation from a range of addresses\<close>

text \<open>
  What the loop relies on: the usable addresses are \<open>mk 1\<close> to \<open>mk (n - 1)\<close>, \<^verbatim>\<open>Next\<close> walks
  them in order, the first address past the range is \<open>mk n\<close>, and they print differently.
\<close>

locale addr_pool =
  fixes pfx :: prefix and mk :: "nat \<Rightarrow> addr option" and n :: nat
  assumes pool_size: "2 < n"
    and pool_first: "addr_Next (prefix_Addr pfx) = mk 1"
    and pool_next: "k < n \<Longrightarrow> Option.bind (mk k) addr_Next = mk (Suc k)"
    and pool_contains: "k \<le> n \<Longrightarrow> Contains_opt pfx (mk k) \<longleftrightarrow> k < n"
    and pool_inj: "j \<le> n \<Longrightarrow> k \<le> n \<Longrightarrow> mk j = mk k \<longleftrightarrow> j = k"
    and pool_string: "j < n \<Longrightarrow> k < n \<Longrightarrow> addr_String_opt (mk j) = addr_String_opt (mk k) \<longleftrightarrow> j = k"
begin

definition pool_inv :: "fakeIPStore \<Rightarrow> bool" where
  "pool_inv s \<longleftrightarrow> store_ok s \<and> store_prefix s = pfx \<and>
     (\<exists>k. 1 \<le> k \<and> k \<le> n \<and> store_next s = mk k \<and> (k = 1 \<longrightarrow> (\<forall>i. map_of (ipToEntry s) i = None))) \<and>
     (\<forall>i e. map_of (ipToEntry s) i = Some e \<longrightarrow> (\<exists>k. 1 \<le> k \<and> k < n \<and> i = addr_String_opt (mk k)))"

text \<open>The addresses the loop visits from position \<open>c\<close> until it is back at \<open>st\<close>.\<close>

definition path :: "nat \<Rightarrow> nat \<Rightarrow> nat set" where
  "path st c = (if c < st then {c..<st} else {c..<n} \<union> {1..<st})"

definition steps :: "nat \<Rightarrow> nat \<Rightarrow> nat" where
  "steps st c = (if c < st then st - c else n - c + st)"

lemma loop_unfold:
  assumes "store_prefix s = pfx" "1 \<le> c" "c \<le> n"
  defines "c' \<equiv> (if c = n then 1 else c)"
  shows "allocateLoop s now d l start (mk c) =
    (case map_of (ipToEntry s) (addr_String_opt (mk c')) of
       None \<Rightarrow> Some (storeEntry s now d l (mk c'))
     | Some e \<Rightarrow> if entry_expiresAt e > now then
         (if mk (Suc c') = start then Some (s, Inl (Error ''fake ip pool exhausted''))
          else allocateLoop s now d l start (mk (Suc c')))
       else Some (storeEntry (deleteEntryLocked e s) now d l (mk c')))"
proof -
  have c': "c' < n" using assms pool_size by auto
  have cand: "(if \<not> Contains_opt (store_prefix s) (mk c) then addr_Next (prefix_Addr (store_prefix s)) else mk c) = mk c'"
    using assms pool_contains [of c] pool_first by auto
  show ?thesis
    by (subst allocateLoop.simps) (simp add: cand pool_next [OF c'] Let_def split: option.split)
qed

lemma allocateLoop_result:
  assumes "store_prefix s = pfx" "2 \<le> st" "st \<le> n" "1 \<le> c" "c \<le> n"
  shows "\<exists>r. allocateLoop s now d l (mk st) (mk c) = Some r \<and>
    ((\<forall>k \<in> path st c. busy s now (addr_String_opt (mk k))) \<and> r = (s, Inl (Error ''fake ip pool exhausted'')) \<or>
     (\<exists>k. k \<in> path st c \<and> 1 \<le> k \<and> k < n \<and> \<not> busy s now (addr_String_opt (mk k)) \<and>
        (map_of (ipToEntry s) (addr_String_opt (mk k)) = None \<and> r = storeEntry s now d l (mk k) \<or>
         (\<exists>e. map_of (ipToEntry s) (addr_String_opt (mk k)) = Some e \<and>
              r = storeEntry (deleteEntryLocked e s) now d l (mk k)))))"
  using assms(4,5)
proof (induction "steps st c" arbitrary: c rule: less_induct)
  case less
  define c' where "c' = (if c = n then 1 else c)"
  have c': "1 \<le> c'" "c' < n" using less.prems pool_size by (auto simp: c'_def)
  have mem: "c' \<in> path st c" using less.prems assms(2,3) c' by (auto simp: c'_def path_def)
  note unf = loop_unfold [OF assms(1) less.prems, folded c'_def, of now d l "mk st"]
  show ?case
  proof (cases "map_of (ipToEntry s) (addr_String_opt (mk c'))")
    case None
    then show ?thesis using unf mem c' by (fastforce simp: busy_def)
  next
    case (Some e)
    show ?thesis
    proof (cases "entry_expiresAt e > now")
      case False
      then show ?thesis using unf mem c' Some by (fastforce simp: busy_def)
    next
      case True
      have b: "busy s now (addr_String_opt (mk c'))" using Some True by (simp add: busy_def)
      show ?thesis
      proof (cases "Suc c' = st")
        case st: True
        have "path st c = {c'}" using st less.prems assms(2,3) c' by (auto simp: path_def c'_def)
        then show ?thesis using unf Some True st b by simp
      next
        case st: False
        have ne: "mk (Suc c') \<noteq> mk st" using pool_inj [of "Suc c'" st] c' assms(3) st by simp
        have dec: "steps st (Suc c') < steps st c" using st less.prems assms(2,3) c' by (auto simp: steps_def c'_def split: if_splits)
        have pth: "path st c = insert c' (path st (Suc c'))"
          using st less.prems assms(2,3) c' by (auto simp: path_def c'_def split: if_splits)
        have "allocateLoop s now d l (mk st) (mk c) = allocateLoop s now d l (mk st) (mk (Suc c'))"
          using unf Some True ne by simp
        moreover note less.hyps [OF dec]
        ultimately show ?thesis using c' b unfolding pth by auto
      qed
    qed
  qed
qed

definition pool_ip :: "string \<Rightarrow> bool" where
  "pool_ip i \<longleftrightarrow> (\<exists>k. 1 \<le> k \<and> k < n \<and> i = addr_String_opt (mk k))"

lemma pool_inv_alt:
  "pool_inv s \<longleftrightarrow> store_ok s \<and> store_prefix s = pfx \<and>
     (\<exists>k. 1 \<le> k \<and> k \<le> n \<and> store_next s = mk k \<and> (k = 1 \<longrightarrow> (\<forall>i. map_of (ipToEntry s) i = None))) \<and>
     (\<forall>i e. map_of (ipToEntry s) i = Some e \<longrightarrow> pool_ip i)"
  by (simp add: pool_inv_def pool_ip_def)

lemma pool_inv_mono:
  assumes "pool_inv s" "store_ok s'" "store_prefix s' = store_prefix s" "store_next s' = store_next s"
    and "\<And>i. map_of (ipToEntry s) i = None \<Longrightarrow> map_of (ipToEntry s') i = None"
  shows "pool_inv s'"
proof -
  from assms(1) obtain k where k: "1 \<le> k" "k \<le> n" "store_next s = mk k" "k = 1 \<Longrightarrow> map_of (ipToEntry s) i = None" for i
    unfolding pool_inv_alt by blast
  then have "k = 1 \<longrightarrow> (\<forall>i. map_of (ipToEntry s') i = None)" using assms(5) by blast
  moreover have "pool_ip i" if "map_of (ipToEntry s') i = Some e" for i e
  proof -
    have "map_of (ipToEntry s) i \<noteq> None" using that assms(5) [of i] by force
    then obtain e0 where "map_of (ipToEntry s) i = Some e0" by blast
    with assms(1) show ?thesis unfolding pool_inv_alt by blast
  qed
  moreover have "store_prefix s' = pfx" using assms(1,3) by (simp add: pool_inv_def)
  moreover have "store_next s' = mk k" using assms(4) k(3) by simp
  ultimately show ?thesis using assms(2) k(1,2) unfolding pool_inv_alt by blast
qed

lemma pool_inv_init: "pool_inv \<lparr> store_prefix = pfx, store_next = mk 1, domainToEntry = [], ipToEntry = [] \<rparr>"
  using pool_size by (auto simp: pool_inv_def store_ok_def intro!: exI [of _ 1])

lemma pool_inv_cleanup:
  assumes "pool_inv s"
  shows "pool_inv (cleanupExpiredLocked now s)"
proof -
  have ok: "store_ok s" using assms by (simp add: pool_inv_def)
  show ?thesis
    by (rule pool_inv_mono [OF assms cleanup_props(1-3) [OF ok]])
      (simp add: cleanup_props(5) [OF ok] live_only_def)
qed

lemma pool_inv_delete:
  assumes "pool_inv s" "map_of (domainToEntry s) (entry_domain e) = Some e"
  shows "pool_inv (deleteEntryLocked e s)"
proof -
  have ok: "store_ok s" using assms(1) by (simp add: pool_inv_def)
  show ?thesis
    using deleteEntry_present [OF ok assms(2)] deleteEntry_ok [OF ok assms(2)]
    by (intro pool_inv_mono [OF assms(1)]) auto
qed

lemma pool_inv_lookup: "pool_inv s \<Longrightarrow> pool_inv (fst (LookupDomain s now ip))"
proof (cases "map_of (ipToEntry s) ip")
  case None
  then show "pool_inv s \<Longrightarrow> ?thesis" by (simp add: LookupDomain_def)
next
  case (Some e)
  assume s: "pool_inv s"
  then have "map_of (domainToEntry s) (entry_domain e) = Some e"
    using store_okD(4) [OF _ Some] by (simp add: pool_inv_def)
  then show ?thesis using pool_inv_delete [OF s] s unfolding LookupDomain_def Some option.case by simp
qed

lemma pool_inv_refresh:
  assumes "pool_inv s" "map_of (domainToEntry s) d = Some e"
  shows "pool_inv (s\<lparr> domainToEntry := AList.update d (e\<lparr> entry_expiresAt := t \<rparr>) (domainToEntry s),
     ipToEntry := AList.update (entry_ip (e\<lparr> entry_expiresAt := t \<rparr>)) (e\<lparr> entry_expiresAt := t \<rparr>) (ipToEntry s) \<rparr>)"
proof -
  have ok: "store_ok s" using assms(1) by (simp add: pool_inv_def)
  show ?thesis
    using store_okD(2) [OF ok assms(2)]
    by (intro pool_inv_mono [OF assms(1) refresh_ok [OF ok assms(2)]]) auto
qed

lemma pool_inv_store:
  assumes "pool_inv s" "map_of (domainToEntry s) d = None" "1 \<le> k" "k < n"
    and "map_of (ipToEntry s) (addr_String_opt (mk k)) = None"
  shows "pool_inv (fst (storeEntry s now d l (mk k)))"
proof -
  have ok: "store_ok s" using assms(1) by (simp add: pool_inv_def)
  let ?s = "fst (storeEntry s now d l (mk k))"
  have "store_next ?s = mk (Suc k)" using pool_next [OF assms(4)] by (simp add: storeEntry_def Let_def)
  moreover have "store_prefix ?s = pfx" using assms(1) by (simp add: pool_inv_def storeEntry_def Let_def)
  moreover have "pool_ip i" if "map_of (ipToEntry ?s) i = Some e" for i e
  proof (cases "i = addr_String_opt (mk k)")
    case True
    with assms(3,4) show ?thesis by (auto simp: pool_ip_def)
  next
    case False
    with that assms(1) show ?thesis by (auto simp: pool_inv_alt storeEntry_def Let_def)
  qed
  ultimately show ?thesis
    using storeEntry_ok [OF ok assms(2,5)] assms(3,4) unfolding pool_inv_alt
    by (metis Suc_leI Suc_le_mono le_SucI One_nat_def not_one_le_zero Suc_inject)
qed

lemma loop_clean:
  assumes inv: "pool_inv s" and clean: "\<And>i e. map_of (ipToEntry s) i = Some e \<Longrightarrow> entry_expiresAt e > now"
  shows "(\<forall>k. 1 \<le> k \<and> k < n \<longrightarrow> busy s now (addr_String_opt (mk k))) \<and>
           allocateLoop s now d l (store_next s) (store_next s) = Some (s, Inl (Error ''fake ip pool exhausted''))
         \<or> (\<exists>k. 1 \<le> k \<and> k < n \<and> map_of (ipToEntry s) (addr_String_opt (mk k)) = None \<and>
           allocateLoop s now d l (store_next s) (store_next s) = Some (storeEntry s now d l (mk k)))"
proof -
  have pfx: "store_prefix s = pfx" using inv by (simp add: pool_inv_def)
  from inv obtain st where st: "1 \<le> st" "st \<le> n" "store_next s = mk st"
    and one: "st = 1 \<longrightarrow> (\<forall>i. map_of (ipToEntry s) i = None)"
    unfolding pool_inv_alt by blast
  show ?thesis
  proof (cases "st = 1")
    case True
    have "allocateLoop s now d l (store_next s) (store_next s) = Some (storeEntry s now d l (mk 1))"
      unfolding st(3) True using loop_unfold [OF pfx, of 1 now d l "mk 1"] pool_size one True by simp
    then show ?thesis using one True pool_size by (intro disjI2 exI [of _ 1]) simp
  next
    case False
    have pth: "path st st = {1..<n}" using st False by (auto simp: path_def)
    have nob: "map_of (ipToEntry s) i = None" if "\<not> busy s now i" for i
      using that clean [of i] by (auto simp: busy_def split: option.splits)
    from allocateLoop_result [OF pfx _ st(2) st(1,2), of now d l] st(1) False
    consider (full) "\<forall>k \<in> {1..<n}. busy s now (addr_String_opt (mk k))"
        "allocateLoop s now d l (mk st) (mk st) = Some (s, Inl (Error ''fake ip pool exhausted''))"
      | (free) k where "1 \<le> k" "k < n" "map_of (ipToEntry s) (addr_String_opt (mk k)) = None"
        "allocateLoop s now d l (mk st) (mk st) = Some (storeEntry s now d l (mk k))"
      unfolding pth using nob by fastforce
    then show ?thesis unfolding st(3) by cases auto
  qed
qed

lemma Allocate_live:
  fixes l :: duration
  assumes "pool_inv s" "d \<noteq> []" "live s now (ToLower d) = Some e"
  defines "s1 \<equiv> cleanupExpiredLocked now s" and "e' \<equiv> e\<lparr> entry_expiresAt := now + entry_lifetime l \<rparr>"
  shows "Allocate s now d l =
    Some (s1\<lparr> domainToEntry := AList.update (ToLower d) e' (domainToEntry s1),
              ipToEntry := AList.update (entry_ip e') e' (ipToEntry s1) \<rparr>, Inr (entry_ip e))"
proof -
  have ok: "store_ok s" using assms(1) by (simp add: pool_inv_def)
  have "map_of (domainToEntry s1) (ToLower d) = Some e"
    using assms(3) cleanup_props(4) [OF ok, of now] by (simp add: live_def s1_def)
  then show ?thesis
    using assms(2) unfolding Allocate_def Let_def entry_lifetime_def [symmetric] s1_def [symmetric]
    by (simp add: e'_def)
qed

lemma Allocate_fresh:
  assumes "pool_inv s" "d \<noteq> []" "live s now (ToLower d) = None"
  defines "s1 \<equiv> cleanupExpiredLocked now s"
  shows "(\<forall>k. 1 \<le> k \<and> k < n \<longrightarrow> busy s now (addr_String_opt (mk k))) \<and>
           Allocate s now d l = Some (s1, Inl (Error ''fake ip pool exhausted''))
         \<or> (\<exists>k. 1 \<le> k \<and> k < n \<and> map_of (ipToEntry s1) (addr_String_opt (mk k)) = None \<and>
           Allocate s now d l = Some (storeEntry s1 now (ToLower d) (entry_lifetime l) (mk k)))"
proof -
  have ok: "store_ok s" using assms(1) by (simp add: pool_inv_def)
  note cl = cleanup_props [OF ok, of now, folded s1_def]
  have "map_of (domainToEntry s1) (ToLower d) = None"
    using assms(3) cl(4) by (simp add: live_def)
  then have al: "Allocate s now d l = allocateLoop s1 now (ToLower d) (entry_lifetime l) (store_next s1) (store_next s1)"
    using assms(2) unfolding Allocate_def Let_def entry_lifetime_def [symmetric] s1_def [symmetric] by simp
  have bs: "busy s1 now i = busy s now i" for i
    unfolding busy_def cl(5) by (simp add: live_only_def split: option.split)
  have clean: "entry_expiresAt e > now" if "map_of (ipToEntry s1) i = Some e" for i e
    using that unfolding cl(5) live_only_Some by simp
  have inv: "pool_inv s1" using pool_inv_cleanup [OF assms(1)] by (simp add: s1_def)
  show ?thesis
    using loop_clean [of s1 now "ToLower d" "entry_lifetime l", OF inv clean, unfolded bs] unfolding al .
qed

text \<open>The contract of Allocate on every branch.\<close>

lemma Allocate_contract:
  assumes inv: "pool_inv s" and d: "d \<noteq> []"
  obtains (exhausted) s' where "Allocate s now d l = Some (s', Inl (Error ''fake ip pool exhausted''))"
      "pool_inv s'" "live s now (ToLower d) = None" "live s' now = live s now"
      "\<forall>k. 1 \<le> k \<and> k < n \<longrightarrow> busy s now (addr_String_opt (mk k))"
    | (ok) s' ip where "Allocate s now d l = Some (s', Inr ip)" "pool_inv s'" "pool_ip ip"
      "live s' now = (live s now)(ToLower d \<mapsto>
         \<lparr> entry_domain = ToLower d, entry_ip = ip, entry_expiresAt = now + entry_lifetime l \<rparr>)"
      "\<forall>e. live s now (ToLower d) = Some e \<longrightarrow> entry_ip e = ip"
      "live s now (ToLower d) = None \<longrightarrow> \<not> busy s now ip"
proof -
  have sok: "store_ok s" using inv by (simp add: pool_inv_def)
  define s1 where "s1 = cleanupExpiredLocked now s"
  note cl = cleanup_props [OF sok, of now, folded s1_def]
  have inv1: "pool_inv s1" using pool_inv_cleanup [OF inv] by (simp add: s1_def)
  have l1: "map_of (domainToEntry s1) = live s now" by (simp add: cl(4) live_def)
  have l1': "live s1 now = live s now" by (simp add: cl(4) live_def)
  show thesis
  proof (cases "live s now (ToLower d)")
    case (Some e)
    let ?e = "e\<lparr> entry_expiresAt := now + entry_lifetime l \<rparr>"
    let ?s = "s1\<lparr> domainToEntry := AList.update (ToLower d) ?e (domainToEntry s1),
              ipToEntry := AList.update (entry_ip ?e) ?e (ipToEntry s1) \<rparr>"
    have e: "map_of (domainToEntry s1) (ToLower d) = Some e" by (simp add: l1 Some)
    have ed: "entry_domain e = ToLower d" by (rule store_okD(1) [OF cl(1) e])
    have a: "Allocate s now d l = Some (?s, Inr (entry_ip e))"
      using Allocate_live [OF inv d Some, of l] by (simp add: s1_def)
    have lv: "live ?s now = (live s now)(ToLower d \<mapsto>
         \<lparr> entry_domain = ToLower d, entry_ip = entry_ip e, entry_expiresAt = now + entry_lifetime l \<rparr>)"
      using ed entry_lifetime_pos [of l]
      by (auto simp: fun_eq_iff live_def live_only_def cl(4) split: option.splits)
    have p: "pool_ip (entry_ip e)" using inv1 store_okD(2) [OF cl(1) e] unfolding pool_inv_alt by blast
    show thesis
      by (rule ok [OF a pool_inv_refresh [OF inv1 e] p lv]) (simp_all add: Some)
  next
    case None
    have dn: "map_of (domainToEntry s1) (ToLower d) = None" by (simp add: l1 None)
    from Allocate_fresh [OF inv d None, of l, folded s1_def] show thesis
    proof (elim disjE exE conjE)
      assume "Allocate s now d l = Some (s1, Inl (Error ''fake ip pool exhausted''))"
        "\<forall>k. 1 \<le> k \<and> k < n \<longrightarrow> busy s now (addr_String_opt (mk k))"
      then show thesis using inv1 None l1' by (intro exhausted [of s1]) auto
    next
      fix k assume k: "1 \<le> k" "k < n" and free: "map_of (ipToEntry s1) (addr_String_opt (mk k)) = None"
        and a: "Allocate s now d l = Some (storeEntry s1 now (ToLower d) (entry_lifetime l) (mk k))"
      let ?s = "fst (storeEntry s1 now (ToLower d) (entry_lifetime l) (mk k))"
      have a': "Allocate s now d l = Some (?s, Inr (addr_String_opt (mk k)))"
        using a by (simp add: storeEntry_def Let_def)
      have p: "pool_ip (addr_String_opt (mk k))" using k by (auto simp: pool_ip_def)
      have lv: "live ?s now = (live s now)(ToLower d \<mapsto> \<lparr> entry_domain = ToLower d,
          entry_ip = addr_String_opt (mk k), entry_expiresAt = now + entry_lifetime l \<rparr>)"
        using entry_lifetime_pos [of l]
        by (auto simp: fun_eq_iff live_def live_only_def cl(4) storeEntry_def Let_def split: option.splits)
      have nb: "\<not> busy s now (addr_String_opt (mk k))"
        using free unfolding busy_def cl(5) live_only_def by (auto split: option.splits if_splits)
      show thesis
        by (rule ok [OF a' pool_inv_store [OF inv1 dn k free] p lv]) (simp_all add: None nb)
    qed
  qed
qed

lemma pool_inv_Allocate: "pool_inv s \<Longrightarrow> Allocate s now d l = Some (s', r) \<Longrightarrow> pool_inv s'"
  by (cases "d = []", simp add: Allocate_def, elim Allocate_contract [of s d now l]) auto

end

section \<open>The two address ranges\<close>

lemma unat_offset:
  fixes base :: "'a::len word"
  assumes "unat base + k < 2 ^ LENGTH('a)"
  shows "unat (base + of_nat k) = unat base + k"
  using assms by (simp add: unat_word_ariths(1) unsigned_of_nat take_bit_eq_mod)

lemma offset_in_prefix:
  fixes base :: "'a::len word"
  assumes "unat base = 2 ^ m * q" "unat base + k < 2 ^ LENGTH('a)" "k \<le> 2 ^ m"
  shows "drop_bit m (base + of_nat k) = drop_bit m base \<longleftrightarrow> k < 2 ^ m"
proof -
  have "drop_bit m (base + of_nat k) = drop_bit m base \<longleftrightarrow> (unat base + k) div 2 ^ m = unat base div 2 ^ m"
    unfolding word_unat_eq_iff unat_drop_bit_eq unat_offset [OF assms(2)] by (simp add: drop_bit_eq_div)
  also have "\<dots> \<longleftrightarrow> k div 2 ^ m = 0" by (simp add: assms(1))
  also have "\<dots> \<longleftrightarrow> k < 2 ^ m" by (simp add: div_eq_0_iff)
  finally show ?thesis .
qed

lemma offset_inj:
  fixes base :: "'a::len word"
  assumes "unat base + j < 2 ^ LENGTH('a)" "unat base + k < 2 ^ LENGTH('a)"
  shows "base + of_nat j = base + of_nat k \<longleftrightarrow> j = k"
  using unat_offset [OF assms(1)] unat_offset [OF assms(2)] by (auto simp: word_unat_eq_iff)

lemma offset_next:
  fixes base :: "'a::len word"
  assumes "unat base + Suc k < 2 ^ LENGTH('a)"
  shows "base + of_nat k + 1 = base + of_nat (Suc k)" "base + of_nat (Suc k) \<noteq> 0"
proof -
  show "base + of_nat k + 1 = base + of_nat (Suc k)" by simp
  show "base + of_nat (Suc k) \<noteq> 0"
    using unat_offset [OF assms] by (metis Zero_not_Suc add_is_0 unsigned_0)
qed

definition fakeIPv4Prefix :: prefix where
  "fakeIPv4Prefix = \<lparr> prefix_Addr = IP4 0xC6120000, prefix_Bits = 15 \<rparr>"

definition fakeIPv6Prefix :: prefix where
  "fakeIPv6Prefix = \<lparr> prefix_Addr = IP6 0xfd666c756d6901000000000000000000 [], prefix_Bits = 56 \<rparr>"

definition fakeIPv4_at :: "nat \<Rightarrow> addr option" where
  "fakeIPv4_at k = Some (IP4 (0xC6120000 + of_nat k))"

definition fakeIPv6_at :: "nat \<Rightarrow> addr option" where
  "fakeIPv6_at k = Some (IP6 (0xfd666c756d6901000000000000000000 + of_nat k) [])"

definition fakeIPv4_count :: nat where
  "fakeIPv4_count = 2 ^ 17"

definition fakeIPv6_count :: nat where
  "fakeIPv6_count = 2 ^ 72"

lemma parse_fakeIPv4CIDR: "ParsePrefix fakeIPv4CIDR = Some fakeIPv4Prefix"
  by (simp add: fakeIPv4CIDR_def fakeIPv4Prefix_def ParsePrefix_def ParseAddr_def parseIPv4_def netip_eval)

lemma fakeIPv6_groups:
  "v6_groups 8 ''fd66:6c75:6d69:100::'' [] None = Some ([0xfd66, 0x6c75, 0x6d69, 0x100], Some 4, [])"
  by (simp add: v6_groups_numeral netip_eval)

lemma parse_fakeIPv6CIDR: "ParsePrefix fakeIPv6CIDR = Some fakeIPv6Prefix"
  by (simp add: fakeIPv6CIDR_def fakeIPv6Prefix_def ParsePrefix_def ParseAddr_def parseIPv6_def v6_address_def
      v6_expand_def replicate_numeral_Cons fakeIPv6_groups netip_eval)

interpretation v4: addr_pool fakeIPv4Prefix fakeIPv4_at fakeIPv4_count
proof
  show "addr_Next (prefix_Addr fakeIPv4Prefix) = fakeIPv4_at 1"
    by (simp add: fakeIPv4Prefix_def fakeIPv4_at_def fakeIPv4_count_def)
next
  fix k :: nat assume "k < fakeIPv4_count"
  then show "Option.bind (fakeIPv4_at k) addr_Next = fakeIPv4_at (Suc k)"
    using offset_next [of "0xC6120000 :: 32 word" k] by (simp add: fakeIPv4_at_def fakeIPv4_count_def)
next
  fix k :: nat assume "k \<le> fakeIPv4_count"
  then show "Contains_opt fakeIPv4Prefix (fakeIPv4_at k) \<longleftrightarrow> k < fakeIPv4_count"
    using offset_in_prefix [of "0xC6120000 :: 32 word" 17 25353 k]
    by (simp add: Contains_opt_def Contains_def fakeIPv4Prefix_def fakeIPv4_at_def fakeIPv4_count_def)
next
  fix j k :: nat assume "j \<le> fakeIPv4_count" "k \<le> fakeIPv4_count"
  then show "fakeIPv4_at j = fakeIPv4_at k \<longleftrightarrow> j = k"
    using offset_inj [of "0xC6120000 :: 32 word" j k] by (simp add: fakeIPv4_at_def fakeIPv4_count_def)
next
  fix j k :: nat assume "j < fakeIPv4_count" "k < fakeIPv4_count"
  then show "addr_String_opt (fakeIPv4_at j) = addr_String_opt (fakeIPv4_at k) \<longleftrightarrow> j = k"
    using offset_inj [of "0xC6120000 :: 32 word" j k]
    by (simp add: fakeIPv4_at_def fakeIPv4_count_def addr_String_opt_def string4_inj)
qed (simp add: fakeIPv4_count_def)

lemma fakeIPv6_plain: "k < fakeIPv6_count \<Longrightarrow> \<not> Is4In6 (IP6 (0xfd666c756d6901000000000000000000 + of_nat k) [])"
proof
  let ?b = "0xfd666c756d6901000000000000000000 :: 128 word"
  assume "k < fakeIPv6_count" and "Is4In6 (IP6 (?b + of_nat k) [])"
  then have "unat (drop_bit 32 (?b + of_nat k)) = 0xFFFF" and "unat (?b + of_nat k) = unat ?b + k"
    by (simp_all add: unat_offset fakeIPv6_count_def)
  then show False unfolding unat_drop_bit_eq by (simp add: drop_bit_eq_div)
qed

interpretation v6: addr_pool fakeIPv6Prefix fakeIPv6_at fakeIPv6_count
proof
  show "addr_Next (prefix_Addr fakeIPv6Prefix) = fakeIPv6_at 1"
    by (simp add: fakeIPv6Prefix_def fakeIPv6_at_def fakeIPv6_count_def)
next
  fix k :: nat assume "k < fakeIPv6_count"
  then show "Option.bind (fakeIPv6_at k) addr_Next = fakeIPv6_at (Suc k)"
    using offset_next [of "0xfd666c756d6901000000000000000000 :: 128 word" k] by (simp add: fakeIPv6_at_def fakeIPv6_count_def)
next
  fix k :: nat assume "k \<le> fakeIPv6_count"
  then show "Contains_opt fakeIPv6Prefix (fakeIPv6_at k) \<longleftrightarrow> k < fakeIPv6_count"
    using offset_in_prefix [of "0xfd666c756d6901000000000000000000 :: 128 word" 72 "0xfd666c756d6901" k]
    by (simp add: Contains_opt_def Contains_def fakeIPv6Prefix_def fakeIPv6_at_def fakeIPv6_count_def)
next
  fix j k :: nat assume "j \<le> fakeIPv6_count" "k \<le> fakeIPv6_count"
  then show "fakeIPv6_at j = fakeIPv6_at k \<longleftrightarrow> j = k"
    using offset_inj [of "0xfd666c756d6901000000000000000000 :: 128 word" j k] by (simp add: fakeIPv6_at_def fakeIPv6_count_def)
next
  fix j k :: nat assume jk: "j < fakeIPv6_count" "k < fakeIPv6_count"
  then show "addr_String_opt (fakeIPv6_at j) = addr_String_opt (fakeIPv6_at k) \<longleftrightarrow> j = k"
    using offset_inj [of "0xfd666c756d6901000000000000000000 :: 128 word" j k] fakeIPv6_plain [OF jk(1)] fakeIPv6_plain [OF jk(2)]
    by (simp add: fakeIPv6_at_def fakeIPv6_count_def addr_String_opt_def string6_inj del: Is4In6.simps)
qed (simp add: fakeIPv6_count_def)

lemma fakeIPLifetime_bounds:
  "second \<le> fakeIPLifetime c ttl" "c \<le> fakeIPLifetime c ttl" "uint ttl * second \<le> fakeIPLifetime c ttl"
proof -
  let ?t = "if ttl = 0 then of_nat defaultFakeTTL else ttl"
  have b: "1 \<le> uint ?t" "uint ?t < 2 ^ 32" "uint ttl \<le> uint ?t"
    using uint_lt2p [of ?t] word_neq_0_conv [of ttl] by (auto simp: defaultFakeTTL_def word_less_def)
  then have i: "int64 (uint ?t * second) = uint ?t * second"
    by (intro int64_id) (auto simp: second_def)
  have "1 * second \<le> uint ?t * second" "uint ttl * second \<le> uint ?t * second"
    using b by (intro mult_right_mono; simp add: second_def)+
  then show "second \<le> fakeIPLifetime c ttl" "c \<le> fakeIPLifetime c ttl" "uint ttl * second \<le> fakeIPLifetime c ttl"
    unfolding fakeIPLifetime_def Let_def i by auto
qed

lemma fakeIPLifetime_entry [simp]: "entry_lifetime (fakeIPLifetime c ttl) = fakeIPLifetime c ttl"
  using fakeIPLifetime_bounds(1) [of c ttl] by (simp add: entry_lifetime_def second_def)

definition stores_inv :: "fakeStores \<Rightarrow> bool" where
  "stores_inv st \<longleftrightarrow> v4.pool_inv (defaultFakeIPv4Store st) \<and> v6.pool_inv (defaultFakeIPv6Store st)"

lemma initFakeStores_eq: "initFakeStores = Inr
  \<lparr> defaultFakeIPv4Store = \<lparr> store_prefix = fakeIPv4Prefix, store_next = fakeIPv4_at 1, domainToEntry = [], ipToEntry = [] \<rparr>,
    defaultFakeIPv6Store = \<lparr> store_prefix = fakeIPv6Prefix, store_next = fakeIPv6_at 1, domainToEntry = [], ipToEntry = [] \<rparr> \<rparr>"
  by (simp add: initFakeStores_def mustNewFakeIPStore_def parse_fakeIPv4CIDR parse_fakeIPv6CIDR v4.pool_first v6.pool_first)

lemma stores_inv_init: "initFakeStores = Inr st \<Longrightarrow> stores_inv st"
  unfolding initFakeStores_eq by (auto simp: stores_inv_def intro: v4.pool_inv_init v6.pool_inv_init simp del: One_nat_def)

lemma stores_inv_allocate:
  assumes "stores_inv st" "allocateFakeIP cttl now st domain qtype ttl = Some (st', r)"
  shows "stores_inv st'"
  using assms v4.pool_inv_Allocate v6.pool_inv_Allocate
  by (fastforce simp: stores_inv_def allocateFakeIP_def Let_def split: if_splits)

lemma stores_inv_lookup: "stores_inv st \<Longrightarrow> stores_inv (fst (lookupFakeDomainByIP n4 n6 st ip))"
  using v4.pool_inv_lookup [of "defaultFakeIPv4Store st" n4 ip] v6.pool_inv_lookup [of "defaultFakeIPv6Store st" n6 ip]
  by (auto simp: stores_inv_def lookupFakeDomainByIP_def Let_def split: prod.splits option.splits)

lemma fake_reach_inv: "fake_reach st \<Longrightarrow> stores_inv st"
  by (induction rule: fake_reach.induct) (blast intro: stores_inv_init stores_inv_allocate stores_inv_lookup)+

section \<open>Lookup\<close>

lemma live_Some: "live s t d = Some e \<longleftrightarrow> map_of (domainToEntry s) d = Some e \<and> entry_expiresAt e > t"
  by (simp add: live_def live_only_Some)

lemma LookupDomain_iff:
  assumes "store_ok s"
  shows "snd (LookupDomain s t ip) = Some d \<longleftrightarrow> (\<exists>e. live s t d = Some e \<and> entry_ip e = ip)"
proof
  assume "snd (LookupDomain s t ip) = Some d"
  then obtain e where "map_of (ipToEntry s) ip = Some e" "entry_expiresAt e > t" "entry_domain e = d"
    by (auto simp: LookupDomain_def split: option.splits if_splits)
  with store_okD(3,4) [OF assms this(1)] show "\<exists>e. live s t d = Some e \<and> entry_ip e = ip"
    unfolding live_Some by metis
next
  assume "\<exists>e. live s t d = Some e \<and> entry_ip e = ip"
  then obtain e where e: "map_of (domainToEntry s) d = Some e" "entry_expiresAt e > t" "entry_ip e = ip"
    unfolding live_Some by blast
  have "map_of (ipToEntry s) ip = Some e" "entry_domain e = d"
    using store_okD(2,1) [OF assms e(1)] unfolding e(3) .
  with e(2) show "snd (LookupDomain s t ip) = Some d" by (simp add: LookupDomain_def)
qed

lemma LookupDomain_None: "map_of (ipToEntry s) ip = None \<Longrightarrow> LookupDomain s t ip = (s, None)"
  by (simp add: LookupDomain_def)

lemma string4_no_colon: "CHR '':'' \<notin> set (string4 w)"
proof -
  have "CHR '':'' \<notin> set (string_of_nat k)" for k
    using string_of_nat_digits digit_not_dot(2) by blast
  then show ?thesis using set_join [of "''.''" "map string_of_nat (octets w)"]
    unfolding string4_def by auto
qed

lemma fakeIPv6_string:
  "k < fakeIPv6_count \<Longrightarrow> addr_String_opt (fakeIPv6_at k) = string6 (0xfd666c756d6901000000000000000000 + of_nat k)"
  using fakeIPv6_plain [of k] by (simp add: addr_String_opt_def fakeIPv6_at_def del: Is4In6.simps)

lemma fakeIPv4_string: "addr_String_opt (fakeIPv4_at k) = string4 (0xC6120000 + of_nat k)"
  by (simp add: addr_String_opt_def fakeIPv4_at_def)

lemma pool_ip_disjoint: "v4.pool_ip i \<Longrightarrow> \<not> v6.pool_ip i"
proof
  assume "v4.pool_ip i" "v6.pool_ip i"
  then obtain j k where "i = string4 j" "i = string6 k"
    unfolding v4.pool_ip_def v6.pool_ip_def using fakeIPv4_string fakeIPv6_string by metis
  then show False using string4_no_colon [of j] string6_colon [of k] by simp
qed

lemma stores_inv_miss:
  assumes "stores_inv st"
  shows "v6.pool_ip ip \<Longrightarrow> map_of (ipToEntry (defaultFakeIPv4Store st)) ip = None"
    and "v4.pool_ip ip \<Longrightarrow> map_of (ipToEntry (defaultFakeIPv6Store st)) ip = None"
proof -
  show "v6.pool_ip ip \<Longrightarrow> map_of (ipToEntry (defaultFakeIPv4Store st)) ip = None"
    using assms pool_ip_disjoint [of ip] unfolding stores_inv_def v4.pool_inv_alt
    by (cases "map_of (ipToEntry (defaultFakeIPv4Store st)) ip") auto
  show "v4.pool_ip ip \<Longrightarrow> map_of (ipToEntry (defaultFakeIPv6Store st)) ip = None"
    using assms pool_ip_disjoint [of ip] unfolding stores_inv_def v6.pool_inv_alt
    by (cases "map_of (ipToEntry (defaultFakeIPv6Store st)) ip") auto
qed

lemma live_pool_ip:
  "v4.pool_inv s \<Longrightarrow> live s t d = Some e \<Longrightarrow> v4.pool_ip (entry_ip e)"
  "v6.pool_inv s \<Longrightarrow> live s t d = Some e \<Longrightarrow> v6.pool_ip (entry_ip e)"
  unfolding live_Some v4.pool_inv_alt v6.pool_inv_alt using store_okD(2) by blast+

text \<open>What a lookup through both stores answers.\<close>

lemma lookupFake_iff:
  assumes inv: "stores_inv st"
  shows "snd (lookupFakeDomainByIP t4 t6 st ip) = Some d \<longleftrightarrow>
    (\<exists>e. entry_ip e = ip \<and> (live (defaultFakeIPv4Store st) t4 d = Some e \<or> live (defaultFakeIPv6Store st) t6 d = Some e))"
    (is "?l \<longleftrightarrow> ?r")
proof -
  let ?s4 = "defaultFakeIPv4Store st" and ?s6 = "defaultFakeIPv6Store st"
  have ok: "v4.pool_inv ?s4" "v6.pool_inv ?s6" "store_ok ?s4" "store_ok ?s6"
    using inv by (auto simp: stores_inv_def v4.pool_inv_alt v6.pool_inv_alt)
  have step: "snd (lookupFakeDomainByIP t4 t6 st ip) =
    (case snd (LookupDomain ?s4 t4 ip) of Some x \<Rightarrow> Some x | None \<Rightarrow> snd (LookupDomain ?s6 t6 ip))"
    by (simp add: lookupFakeDomainByIP_def Let_def split: prod.split option.split)
  show ?thesis
  proof (cases "v6.pool_ip ip")
    case True
    have "LookupDomain ?s4 t4 ip = (?s4, None)" by (rule LookupDomain_None [OF stores_inv_miss(1) [OF inv True]])
    moreover have "\<not> (live ?s4 t4 d = Some e \<and> entry_ip e = ip)" for e
      using live_pool_ip(1) [OF ok(1), of t4 d e] pool_ip_disjoint True by blast
    ultimately show ?thesis unfolding step using LookupDomain_iff [OF ok(4), of t6 ip d] by auto
  next
    case False
    have "\<not> (live ?s6 t6 d = Some e \<and> entry_ip e = ip)" for d e
      using live_pool_ip(2) [OF ok(2), of t6 d e] False by blast
    then have n: "snd (LookupDomain ?s6 t6 ip) \<noteq> Some d" and "\<nexists>e. live ?s6 t6 d = Some e \<and> entry_ip e = ip" for d
      using LookupDomain_iff [OF ok(4), of t6 ip] by auto
    then show ?thesis unfolding step using LookupDomain_iff [OF ok(3), of t4 ip d]
      by (auto split: option.split)
  qed
qed

lemma pool_ip_fake:
  assumes "stores_inv st" "v4.pool_ip ip \<or> v6.pool_ip ip"
  shows "isFakeIPAddress st ip"
proof -
  have p: "store_prefix (defaultFakeIPv4Store st) = fakeIPv4Prefix" "store_prefix (defaultFakeIPv6Store st) = fakeIPv6Prefix"
    using assms(1) by (auto simp: stores_inv_def v4.pool_inv_alt v6.pool_inv_alt)
  from assms(2) show ?thesis
  proof
    assume "v4.pool_ip ip"
    then obtain k where k: "k < fakeIPv4_count" "ip = addr_String_opt (fakeIPv4_at k)" unfolding v4.pool_ip_def by blast
    have "ParseAddr ip = Some (IP4 (0xC6120000 + of_nat k))" unfolding k(2) fakeIPv4_string by simp
    then show ?thesis using v4.pool_contains [of k] k(1)
      by (simp add: isFakeIPAddress_def p Contains_opt_def fakeIPv4_at_def)
  next
    assume "v6.pool_ip ip"
    then obtain k where k: "k < fakeIPv6_count" "ip = addr_String_opt (fakeIPv6_at k)" unfolding v6.pool_ip_def by blast
    have "ParseAddr ip = Some (IP6 (0xfd666c756d6901000000000000000000 + of_nat k) [])"
      unfolding k(2) fakeIPv6_string [OF k(1)] by (rule ParseAddr_string6)
    then show ?thesis using v6.pool_contains [of k] k(1)
      by (simp add: isFakeIPAddress_def p Contains_opt_def fakeIPv6_at_def)
  qed
qed

text \<open>The store and the address range a supported query type selects.\<close>

definition family_store :: "16 word \<Rightarrow> fakeStores \<Rightarrow> fakeIPStore" where
  "family_store q st = (if q = TypeA then defaultFakeIPv4Store st else defaultFakeIPv6Store st)"

definition family_ips :: "16 word \<Rightarrow> string set" where
  "family_ips q = (if q = TypeA then (\<lambda>k. addr_String_opt (fakeIPv4_at k)) ` {1..<fakeIPv4_count}
                   else (\<lambda>k. addr_String_opt (fakeIPv6_at k)) ` {1..<fakeIPv6_count})"

lemma family_ips_pool:
  "v4.pool_ip i \<longleftrightarrow> i \<in> family_ips TypeA" "v6.pool_ip i \<longleftrightarrow> i \<in> family_ips TypeAAAA"
  by (auto simp: v4.pool_ip_def v6.pool_ip_def family_ips_def TypeA_def TypeAAAA_def)

lemma allocateFakeIP_contract:
  assumes inv: "stores_inv st" and d: "d \<noteq> []" and q: "q = TypeA \<or> q = TypeAAAA"
  obtains (exhausted) st' where "allocateFakeIP c now st d q ttl = Some (st', Inl (Error ''fake ip pool exhausted''))"
      "\<forall>ip \<in> family_ips q. busy (family_store q st) now ip"
      "live (family_store q st') now = live (family_store q st) now" "live (family_store q st) now (ToLower d) = None"
      "\<forall>q'. (q' = TypeA) \<noteq> (q = TypeA) \<longrightarrow> family_store q' st' = family_store q' st"
    | (ok) st' ip where "allocateFakeIP c now st d q ttl = Some (st', Inr ip)" "ip \<in> family_ips q"
      "live (family_store q st') now = (live (family_store q st) now)(ToLower d \<mapsto>
         \<lparr> entry_domain = ToLower d, entry_ip = ip, entry_expiresAt = now + fakeIPLifetime c ttl \<rparr>)"
      "\<forall>q'. (q' = TypeA) \<noteq> (q = TypeA) \<longrightarrow> family_store q' st' = family_store q' st"
      "\<forall>e. live (family_store q st) now (ToLower d) = Some e \<longrightarrow> entry_ip e = ip"
      "live (family_store q st) now (ToLower d) = None \<longrightarrow> \<not> busy (family_store q st) now ip"
proof -
  have i4: "v4.pool_inv (defaultFakeIPv4Store st)" and i6: "v6.pool_inv (defaultFakeIPv6Store st)"
    using inv by (auto simp: stores_inv_def)
  show thesis
  proof (cases "q = TypeA")
    case True
    have a: "allocateFakeIP c now st d TypeA ttl = map_option (\<lambda>(s, r). (st\<lparr> defaultFakeIPv4Store := s \<rparr>, r))
          (Allocate (defaultFakeIPv4Store st) now d (fakeIPLifetime c ttl))"
      using True by (simp add: allocateFakeIP_def)
    show thesis
    proof (rule v4.Allocate_contract [OF i4 d, of now "fakeIPLifetime c ttl"], goal_cases)
      case (1 s')
      then show ?case
        by (intro exhausted [of "st\<lparr> defaultFakeIPv4Store := s' \<rparr>"]) (auto simp: a True family_store_def family_ips_def)
    next
      case (2 s' ip)
      then show ?case
        by (intro ok [of "st\<lparr> defaultFakeIPv4Store := s' \<rparr>" ip]) (auto simp: a True family_store_def family_ips_pool)
    qed
  next
    case False
    then have q6: "q = TypeAAAA" "TypeAAAA \<noteq> TypeA" using q by auto
    have a: "allocateFakeIP c now st d TypeAAAA ttl = map_option (\<lambda>(s, r). (st\<lparr> defaultFakeIPv6Store := s \<rparr>, r))
          (Allocate (defaultFakeIPv6Store st) now d (fakeIPLifetime c ttl))"
      using q6 by (simp add: allocateFakeIP_def)
    show thesis
    proof (rule v6.Allocate_contract [OF i6 d, of now "fakeIPLifetime c ttl"], goal_cases)
      case (1 s')
      then show ?case
        by (intro exhausted [of "st\<lparr> defaultFakeIPv6Store := s' \<rparr>"]) (auto simp: a q6 family_store_def family_ips_def)
    next
      case (2 s' ip)
      then show ?case
        by (intro ok [of "st\<lparr> defaultFakeIPv6Store := s' \<rparr>" ip]) (auto simp: a q6 family_store_def family_ips_pool)
    qed
  qed
qed

lemma family_store_lookup:
  assumes "stores_inv st"
  shows "snd (lookupFakeDomainByIP t4 t6 st ip) = Some d \<longleftrightarrow>
    (\<exists>e. entry_ip e = ip \<and> (live (family_store TypeA st) t4 d = Some e \<or> live (family_store TypeAAAA st) t6 d = Some e))"
  using lookupFake_iff [OF assms, of t4 t6 ip d] by (simp add: family_store_def TypeA_def TypeAAAA_def)

lemma live_later: "live s now d = Some e \<Longrightarrow> t < entry_expiresAt e \<Longrightarrow> live s t d = Some e"
  by (simp add: live_Some)

lemma live_earlier: "live s t d = Some e \<Longrightarrow> now \<le> t \<Longrightarrow> live s now d = Some e"
  by (simp add: live_Some)

lemma allocateFakeIP_lookup:
  assumes inv: "stores_inv st" and "allocateFakeIP c now st d q ttl = Some (st', Inr ip)"
    and "t4 < now + fakeIPLifetime c ttl" "t6 < now + fakeIPLifetime c ttl"
  shows "snd (lookupFakeDomainByIP t4 t6 st' ip) = Some (ToLower d)"
proof -
  have inv': "stores_inv st'" by (rule stores_inv_allocate [OF inv assms(2)])
  have dq: "d \<noteq> []" "q = TypeA \<or> q = TypeAAAA"
    using assms(2) by (auto simp: allocateFakeIP_def Allocate_def Let_def split: if_splits)
  let ?e = "\<lparr> entry_domain = ToLower d, entry_ip = ip, entry_expiresAt = now + fakeIPLifetime c ttl \<rparr>"
  have "live (family_store q st') now (ToLower d) = Some ?e"
    by (rule allocateFakeIP_contract [OF inv dq, of c now ttl]) (use assms(2) in auto)
  then have "live (family_store q st') t (ToLower d) = Some ?e" if "t < now + fakeIPLifetime c ttl" for t
    using that by (auto intro: live_later)
  then have "entry_ip ?e = ip \<and>
      (live (family_store TypeA st') t4 (ToLower d) = Some ?e \<or> live (family_store TypeAAAA st') t6 (ToLower d) = Some ?e)"
    using assms(3,4) dq(2) by auto
  then show ?thesis unfolding family_store_lookup [OF inv'] by blast
qed

lemma allocateFakeIP_unchanged:
  assumes "stores_inv st" "allocateFakeIP c now st d q ttl = Some (st', r)" "d' \<noteq> ToLower d"
  shows "live (family_store q' st') now d' = live (family_store q' st) now d'"
proof (cases "d = [] \<or> \<not> (q = TypeA \<or> q = TypeAAAA)")
  case True
  with assms(2) have "st' = st" by (auto simp: allocateFakeIP_def Allocate_def Let_def split: if_splits)
  then show ?thesis by simp
next
  case False
  then have "d \<noteq> []" "q = TypeA \<or> q = TypeAAAA" by auto
  then show ?thesis
  proof (rule allocateFakeIP_contract [OF assms(1), of d q c now ttl], goal_cases)
    case (1 st1)
    with assms(2) show ?case by (cases "(q' = TypeA) = (q = TypeA)") (auto simp: family_store_def split: if_splits)
  next
    case (2 st1 ip)
    with assms(2,3) show ?case by (cases "(q' = TypeA) = (q = TypeA)") (auto simp: family_store_def split: if_splits)
  qed
qed

section \<open>Properties\<close>

text \<open>The stores at start-up and after a first allocation, for concrete instances.\<close>

definition exampleStores :: fakeStores where
  "exampleStores =
  \<lparr> defaultFakeIPv4Store = \<lparr> store_prefix = fakeIPv4Prefix, store_next = fakeIPv4_at 1, domainToEntry = [], ipToEntry = [] \<rparr>,
    defaultFakeIPv6Store = \<lparr> store_prefix = fakeIPv6Prefix, store_next = fakeIPv6_at 1, domainToEntry = [], ipToEntry = [] \<rparr> \<rparr>"

lemma exampleStores_reach: "fake_reach exampleStores"
  by (rule fake_reach.init) (simp add: initFakeStores_eq exampleStores_def)

definition exampleStores1 :: fakeStores where
  "exampleStores1 = exampleStores\<lparr> defaultFakeIPv4Store :=
     \<lparr> store_prefix = fakeIPv4Prefix, store_next = fakeIPv4_at 2,
       domainToEntry = [(''a.com'', \<lparr> entry_domain = ''a.com'', entry_ip = ''198.18.0.1'', entry_expiresAt = 60000000000 \<rparr>)],
       ipToEntry = [(''198.18.0.1'', \<lparr> entry_domain = ''a.com'', entry_ip = ''198.18.0.1'', entry_expiresAt = 60000000000 \<rparr>)] \<rparr> \<rparr>"

lemma example_string: "string4 0xC6120001 = ''198.18.0.1''"
  by (simp add: string4_def octets_expand string_of_nat.simps)

lemma exampleStores_allocate:
  "allocateFakeIP 0 0 exampleStores ''A.com'' TypeA 0 = Some (exampleStores1, Inr ''198.18.0.1'')"
  by (simp add: allocateFakeIP_def Allocate_def exampleStores_def exampleStores1_def lower_eval
     fakeIPLifetime_def second_def defaultFakeTTL_def int64_def cleanupExpiredLocked_def allocateLoop.simps
     Contains_opt_def Contains_def fakeIPv4Prefix_def fakeIPv4_at_def addr_String_opt_def example_string storeEntry_def)


text \<open>
  C1: on every reachable pair of stores, allocating a fake address returns: with an address of the
  range of the query type that \<^verbatim>\<open>isFakeIPAddress\<close> recognises, or with the error for an unsupported
  type, for an empty domain, or for an exhausted pool.  The pool is reported exhausted only
  when every address of the range is held by an entry that has not expired.
\<close>

theorem allocateFakeIP_returns:
  assumes "fake_reach st"
  shows "\<exists>st' r. allocateFakeIP c now st d q ttl = Some (st', r) \<and> fake_reach st' \<and>
    (case r of
       Inr ip \<Rightarrow> (q = TypeA \<or> q = TypeAAAA) \<and> d \<noteq> [] \<and> ip \<in> family_ips q \<and> isFakeIPAddress st' ip
     | Inl e \<Rightarrow>
         q \<noteq> TypeA \<and> q \<noteq> TypeAAAA \<and> e = Error ''unsupported fake ip qtype'' \<or>
         (q = TypeA \<or> q = TypeAAAA) \<and> d = [] \<and> e = Error ''domain is empty'' \<or>
         (q = TypeA \<or> q = TypeAAAA) \<and> e = Error ''fake ip pool exhausted'' \<and>
           (\<forall>ip \<in> family_ips q. busy (family_store q st) now ip))"
proof -
  have inv: "stores_inv st" by (rule fake_reach_inv [OF assms])
  consider "\<not> (q = TypeA \<or> q = TypeAAAA)" | "q = TypeA \<or> q = TypeAAAA" "d = []"
    | "q = TypeA \<or> q = TypeAAAA" "d \<noteq> []" by blast
  then show ?thesis
  proof cases
    case 1
    with assms show ?thesis by (simp add: allocateFakeIP_def)
  next
    case 2
    then have "allocateFakeIP c now st d q ttl = Some (st, Inl (Error ''domain is empty''))"
      by (auto simp: allocateFakeIP_def Allocate_def Let_def)
    with 2 assms show ?thesis by simp
  next
    case 3
    show ?thesis
    proof (rule allocateFakeIP_contract [OF inv 3(2,1), of c now ttl], goal_cases)
      case (1 st')
      with 3 fake_reach.allocate [OF assms 1(1)] show ?case by auto
    next
      case (2 st' ip)
      have "stores_inv st'" by (rule stores_inv_allocate [OF inv 2(1)])
      then have "isFakeIPAddress st' ip"
        using pool_ip_fake 2(2) 3(1) family_ips_pool by metis
      with 2 3 fake_reach.allocate [OF assms 2(1)] show ?case by auto
    qed
  qed
qed

theorem allocateFakeIP_returns_witness:
  "\<exists>st' r. allocateFakeIP 0 0 exampleStores ''A.com'' TypeA 0 = Some (st', r) \<and> fake_reach st'"
  using allocateFakeIP_returns [OF exampleStores_reach, of 0 0 "''A.com''" TypeA 0] by blast

text \<open>
  C2: the address handed out for a domain resolves back to that domain (in lower case) at every
  time before the entry expires.
\<close>

theorem allocate_then_lookup:
  assumes "fake_reach st" and "allocateFakeIP c now st d q ttl = Some (st', Inr ip)"
    and "t4 < now + fakeIPLifetime c ttl" "t6 < now + fakeIPLifetime c ttl"
  shows "snd (lookupFakeDomainByIP t4 t6 st' ip) = Some (ToLower d)"
  by (rule allocateFakeIP_lookup [OF fake_reach_inv [OF assms(1)] assms(2-4)])

theorem allocate_then_lookup_witness:
  "snd (lookupFakeDomainByIP 5 5 exampleStores1 ''198.18.0.1'') = Some ''a.com''"
  using allocate_then_lookup [OF exampleStores_reach exampleStores_allocate, of 5 5]
  by (simp add: fakeIPLifetime_def int64_def second_def defaultFakeTTL_def lower_eval)

text \<open>
  C3: while an address resolves to a domain, allocating for another domain never changes what the
  address resolves to.
\<close>

theorem live_address_not_reassigned:
  assumes "fake_reach st" and "snd (lookupFakeDomainByIP t4 t6 st ip) = Some d'"
    and "allocateFakeIP c now st d q ttl = Some (st', r)" "d' \<noteq> ToLower d" "now \<le> t4" "now \<le> t6"
  shows "snd (lookupFakeDomainByIP t4 t6 st' ip) = Some d'"
proof -
  have inv: "stores_inv st" by (rule fake_reach_inv [OF assms(1)])
  have inv': "stores_inv st'" by (rule stores_inv_allocate [OF inv assms(3)])
  have "live (family_store q' st') t d' = Some e" if "live (family_store q' st) t d' = Some e" "now \<le> t" for q' t e
  proof -
    have "live (family_store q' st') now d' = Some e"
      using allocateFakeIP_unchanged [OF inv assms(3,4)] live_earlier [OF that] by simp
    with that(1) show ?thesis unfolding live_Some by blast
  qed
  then show ?thesis
    using assms(2,5,6) unfolding family_store_lookup [OF inv] family_store_lookup [OF inv'] by blast
qed

theorem live_address_not_reassigned_witness:
  "\<exists>st' r. allocateFakeIP 0 5 exampleStores1 ''b.com'' TypeAAAA 7 = Some (st', r) \<and>
     snd (lookupFakeDomainByIP 5 5 st' ''198.18.0.1'') = Some ''a.com''"
proof -
  have r: "fake_reach exampleStores1" by (rule fake_reach.allocate [OF exampleStores_reach exampleStores_allocate])
  obtain st' r where a: "allocateFakeIP 0 5 exampleStores1 ''b.com'' TypeAAAA 7 = Some (st', r)"
    by (rule allocateFakeIP_contract [OF fake_reach_inv [OF r], of "''b.com''" TypeAAAA 0 5 7]) auto
  have l: "snd (lookupFakeDomainByIP 5 5 exampleStores1 ''198.18.0.1'') = Some ''a.com''"
    by (simp add: lookupFakeDomainByIP_def LookupDomain_def exampleStores1_def)
  show ?thesis using live_address_not_reassigned [OF r l a] a by (auto simp: lower_eval)
qed

text \<open>
  Asking again for the same domain, in any letter case, before its entry expires gives the same
  address.
\<close>

lemma reallocation_keeps_address:
  assumes "fake_reach st" and "allocateFakeIP c now st d q ttl = Some (st1, Inr ip)"
    and "now2 < now + fakeIPLifetime c ttl" and "ToLower d2 = ToLower d"
  shows "\<exists>st2. allocateFakeIP c2 now2 st1 d2 q ttl2 = Some (st2, Inr ip)"
proof -
  have inv: "stores_inv st" by (rule fake_reach_inv [OF assms(1)])
  have inv1: "stores_inv st1" by (rule stores_inv_allocate [OF inv assms(2)])
  have dq: "d \<noteq> []" "q = TypeA \<or> q = TypeAAAA"
    using assms(2) by (auto simp: allocateFakeIP_def Allocate_def Let_def split: if_splits)
  let ?e = "\<lparr> entry_domain = ToLower d, entry_ip = ip, entry_expiresAt = now + fakeIPLifetime c ttl \<rparr>"
  have "live (family_store q st1) now (ToLower d) = Some ?e"
    by (rule allocateFakeIP_contract [OF inv dq, of c now ttl]) (use assms(2) in auto)
  then have lv: "live (family_store q st1) now2 (ToLower d2) = Some ?e"
    unfolding assms(4) by (rule live_later) (use assms(3) in simp)
  have d2: "d2 \<noteq> []" using dq(1) assms(4) by (metis ToLower_empty)
  show ?thesis
  proof (rule allocateFakeIP_contract [OF inv1 d2 dq(2), of c2 now2 ttl2], goal_cases)
    case (1 st2)
    with lv show ?case by simp
  next
    case (2 st2 ip2)
    with lv show ?case by auto
  qed
qed

end
