(* ===== verification/Go_Time_Json.thy ===== *)
theory Go_Time_Json
  imports Go_Netip
begin

text \<open>
  What the configuration code uses of \<^verbatim>\<open>encoding/json\<close>, \<^verbatim>\<open>time\<close> and \<^verbatim>\<open>strings\<close>.

  A JSON document is its value: the text-level syntax is not modelled.  Decoding into a struct goes
  through the members of the object in order; a member is matched to a field by its name up to
  letter case, members without a field are ignored, and a later member overrides an earlier one.
\<close>

section \<open>JSON values and decoding\<close>

datatype json = JNull | JBool bool | JInt int | JFrac | JStr string | JArr "json list" | JObj "(string \<times> json) list"

definition jmembers :: "(string \<times> json) list \<Rightarrow> string \<Rightarrow> json list" where
  "jmembers obj tag = map snd (filter (\<lambda>(k, _). ToLower k = ToLower tag) obj)"

text \<open>A field of a type with its own \<^verbatim>\<open>UnmarshalJSON\<close>, starting from its zero value.\<close>

fun jfield :: "(json \<Rightarrow> 'a go) \<Rightarrow> 'a \<Rightarrow> json list \<Rightarrow> 'a go" where
  "jfield dec x [] = Inr x"
| "jfield dec x (v # vs) = go_bind (dec v) (\<lambda>y. jfield dec y vs)"

text \<open>A pointer field: null sets it to nil.\<close>

fun jpointer :: "(json \<Rightarrow> 'a go) \<Rightarrow> 'a option \<Rightarrow> json list \<Rightarrow> 'a option go" where
  "jpointer dec x [] = Inr x"
| "jpointer dec x (JNull # vs) = jpointer dec None vs"
| "jpointer dec x (v # vs) = go_bind (dec v) (\<lambda>y. jpointer dec (Some y) vs)"

text \<open>A field of a built-in type: null leaves it as it is.\<close>

fun jvalue :: "(json \<Rightarrow> 'a go) \<Rightarrow> 'a \<Rightarrow> json list \<Rightarrow> 'a go" where
  "jvalue dec x [] = Inr x"
| "jvalue dec x (JNull # vs) = jvalue dec x vs"
| "jvalue dec x (v # vs) = go_bind (dec v) (\<lambda>y. jvalue dec y vs)"

fun jstring :: "json \<Rightarrow> string go" where
  "jstring (JStr s) = Inr s"
| "jstring JNull = Inr []"
| "jstring _ = Inl (Error ''json: cannot unmarshal into Go value of type string'')"

fun jint :: "json \<Rightarrow> int go" where
  "jint (JInt i) = (if - (2 ^ 63) \<le> i \<and> i < 2 ^ 63 then Inr i
     else Inl (Error ''json: cannot unmarshal number into Go value of type int''))"
| "jint _ = Inl (Error ''json: cannot unmarshal into Go value of type int'')"

fun go_map :: "('a \<Rightarrow> 'b go) \<Rightarrow> 'a list \<Rightarrow> 'b list go" where
  "go_map f [] = Inr []"
| "go_map f (x # xs) = go_bind (f x) (\<lambda>y. go_bind (go_map f xs) (\<lambda>ys. Inr (y # ys)))"

fun jstrings :: "json \<Rightarrow> string list go" where
  "jstrings (JArr vs) = go_map jstring vs"
| "jstrings JNull = Inr []"
| "jstrings _ = Inl (Error ''json: cannot unmarshal into Go value of type []string'')"

section \<open>Strings\<close>

text \<open>\<^verbatim>\<open>strings.TrimSpace\<close> on ASCII white space.\<close>

definition is_space :: "char \<Rightarrow> bool" where
  "is_space c \<longleftrightarrow> (let n = (of_char c :: nat) in n = 32 \<or> 9 \<le> n \<and> n \<le> 13)"

definition TrimSpace :: "string \<Rightarrow> string" where
  "TrimSpace s = rev (dropWhile is_space (rev (dropWhile is_space s)))"

text \<open>\<^verbatim>\<open>strings.SplitSeq\<close> and \<^verbatim>\<open>strings.Split\<close> with a one-byte separator.\<close>

fun split_on :: "char \<Rightarrow> string \<Rightarrow> string list" where
  "split_on c [] = [[]]"
| "split_on c (x # s) = (if x = c then [] # split_on c s
     else case split_on c s of [] \<Rightarrow> [[x]] | t # ts \<Rightarrow> (x # t) # ts)"

lemma split_on_nonempty [simp]: "split_on c s \<noteq> []"
  by (cases s) (auto split: list.split)

section \<open>Durations\<close>

definition unit_of :: "string \<Rightarrow> nat option" where
  "unit_of u = map_of [(''ns'', 1), (''us'', 1000), ([CHR 0xC2, CHR 0xB5, CHR ''s''], 1000),
     ([CHR 0xCE, CHR 0xBC, CHR ''s''], 1000), (''ms'', 1000000), (''s'', 1000000000),
     (''m'', 60000000000), (''h'', 3600000000000)] u"

text \<open>\<^verbatim>\<open>leadingInt\<close>: \<open>None\<close> when the number overflows.\<close>

fun leadingInt :: "string \<Rightarrow> nat \<Rightarrow> (nat \<times> string) option" where
  "leadingInt [] x = Some (x, [])"
| "leadingInt (c # s) x =
     (if \<not> is_digit c then Some (x, c # s)
      else if x > 2 ^ 63 div 10 then None
      else if x * 10 + digit_val c > 2 ^ 63 then None
      else leadingInt s (x * 10 + digit_val c))"

text \<open>\<^verbatim>\<open>leadingFraction\<close>: digits beyond the precision of 63 bits are dropped.\<close>

fun leadingFraction :: "string \<Rightarrow> nat \<Rightarrow> nat \<Rightarrow> bool \<Rightarrow> nat \<times> nat \<times> string" where
  "leadingFraction [] x scale over = (x, scale, [])"
| "leadingFraction (c # s) x scale over =
     (if \<not> is_digit c then (x, scale, c # s)
      else if over \<or> x > (2 ^ 63 - 1) div 10 \<or> x * 10 + digit_val c > 2 ^ 63 then leadingFraction s x scale True
      else leadingFraction s (x * 10 + digit_val c) (scale * 10) False)"

lemma leadingInt_length: "leadingInt s x = Some (y, r) \<Longrightarrow> length r \<le> length s"
  by (induction s x rule: leadingInt.induct) (auto split: if_splits)

lemma leadingFraction_length: "leadingFraction s x sc ov = (y, sc', r) \<Longrightarrow> length r \<le> length s"
  by (induction s x sc ov rule: leadingFraction.induct) (auto split: if_splits)

definition unit_end :: "string \<Rightarrow> string" where
  "unit_end s = dropWhile (\<lambda>c. \<not> (c = CHR ''.'' \<or> is_digit c)) s"

definition unit_text :: "string \<Rightarrow> string" where
  "unit_text s = takeWhile (\<lambda>c. \<not> (c = CHR ''.'' \<or> is_digit c)) s"

lemma unit_split: "s = unit_text s @ unit_end s"
  by (simp add: unit_text_def unit_end_def)

text \<open>
  One round of the loop of \<^verbatim>\<open>time.ParseDuration\<close>: the nanoseconds of one number with its unit and
  the rest.  The fraction of a unit is computed exactly here, the library does it in
  floating point.
\<close>

definition parse_term :: "string \<Rightarrow> (nat \<times> string) go" where
  "parse_term s =
     (if s = [] \<or> \<not> (hd s = CHR ''.'' \<or> is_digit (hd s)) then Inl (Error ''time: invalid duration'')
      else case leadingInt s 0 of
        None \<Rightarrow> Inl (Error ''time: invalid duration'')
      | Some (v, s1) \<Rightarrow>
          let pre = (length s1 \<noteq> length s);
              (f, scale, s2) = (if s1 \<noteq> [] \<and> hd s1 = CHR ''.'' then leadingFraction (tl s1) 0 1 False else (0, 1, s1));
              post = (s1 \<noteq> [] \<and> hd s1 = CHR ''.'' \<and> length s2 \<noteq> length (tl s1))
          in if \<not> pre \<and> \<not> post then Inl (Error ''time: invalid duration'')
             else if unit_text s2 = [] then Inl (Error ''time: missing unit in duration'')
             else case unit_of (unit_text s2) of
               None \<Rightarrow> Inl (Error ''time: unknown unit in duration'')
             | Some unit \<Rightarrow>
                 if v > 2 ^ 63 div unit then Inl (Error ''time: invalid duration'')
                 else let w = v * unit + f * unit div scale in
                   if w > 2 ^ 63 then Inl (Error ''time: invalid duration'') else Inr (w, unit_end s2))"

lemma parse_term_shorter:
  assumes "parse_term s = Inr (w, r)"
  shows "length r < length s"
proof -
  have u: "length (unit_end x) < length x" if "unit_text x \<noteq> []" for x
    using that unit_split [of x] by (metis length_append length_greater_0_conv less_add_same_cancel2)
  obtain v s1 where l: "leadingInt s 0 = Some (v, s1)"
    using assms by (auto simp: parse_term_def split: if_splits option.splits)
  note l1 = leadingInt_length [OF l]
  show ?thesis
  proof (cases "s1 \<noteq> [] \<and> hd s1 = CHR ''.''")
    case True
    obtain f sc s2 where f: "leadingFraction (tl s1) 0 1 False = (f, sc, s2)" by (cases "leadingFraction (tl s1) 0 1 False")
    have "length s2 < length s" using leadingFraction_length [OF f] True l1 by (cases s1) auto
    moreover have "r = unit_end s2" "unit_text s2 \<noteq> []"
      using assms True by (auto simp: parse_term_def l f [unfolded One_nat_def] Let_def split: if_splits option.splits)
    ultimately show ?thesis using u [of s2] by simp
  next
    case False
    then have "r = unit_end s1" "unit_text s1 \<noteq> []"
      using assms by (auto simp: parse_term_def l Let_def split: if_splits option.splits)
    then show ?thesis using u [of s1] l1 by simp
  qed
qed

function parse_terms :: "string \<Rightarrow> nat \<Rightarrow> nat go" where
  "parse_terms s d =
     (if s = [] then Inr d
      else case parse_term s of
        Inl e \<Rightarrow> Inl e
      | Inr (w, r) \<Rightarrow> if d + w > 2 ^ 63 then Inl (Error ''time: invalid duration'') else parse_terms r (d + w))"
  by pat_completeness auto
termination
  by (relation "measure (\<lambda>(s, d). length s)") (auto dest: parse_term_shorter)

declare parse_terms.simps [simp del]

definition ParseDuration :: "string \<Rightarrow> duration go" where
  "ParseDuration s0 =
     (let neg = (s0 \<noteq> [] \<and> hd s0 = CHR ''-'');
          s = (if s0 \<noteq> [] \<and> (hd s0 = CHR ''-'' \<or> hd s0 = CHR ''+'') then tl s0 else s0)
      in if s = ''0'' then Inr 0
         else if s = [] then Inl (Error ''time: invalid duration'')
         else go_bind (parse_terms s 0) (\<lambda>d.
           if neg then Inr (- int d)
           else if d > 2 ^ 63 - 1 then Inl (Error ''time: invalid duration'')
           else Inr (int d)))"

text \<open>\<^verbatim>\<open>Duration.String\<close>.\<close>

definition fmtFrac :: "nat \<Rightarrow> nat \<Rightarrow> string" where
  "fmtFrac v prec =
     (let ds = string_of_nat (v mod 10 ^ prec);
          padded = replicate (prec - length ds) (CHR ''0'') @ ds;
          trimmed = rev (dropWhile (\<lambda>c. c = CHR ''0'') (rev (if prec = 0 then [] else padded)))
      in if trimmed = [] then [] else CHR ''.'' # trimmed)"

definition Duration_String :: "duration \<Rightarrow> string" where
  "Duration_String d =
     (let u = nat \<bar>d\<bar>;
          body =
            (if u < 1000000000 then
               (if u = 0 then ''0s''
                else if u < 1000 then string_of_nat u @ ''ns''
                else if u < 1000000 then string_of_nat (u div 1000) @ fmtFrac u 3 @ [CHR 0xC2, CHR 0xB5, CHR ''s'']
                else string_of_nat (u div 1000000) @ fmtFrac u 6 @ ''ms'')
             else
               let secs = u div 1000000000; mins = secs div 60; hours = mins div 60 in
               (if hours > 0 then string_of_nat hours @ ''h'' else [])
               @ (if mins > 0 then string_of_nat (mins mod 60) @ ''m'' else [])
               @ string_of_nat (secs mod 60) @ fmtFrac u 9 @ ''s'')
      in (if d < 0 then CHR ''-'' # body else body))"

end
