(* ===== verification/Policy.thy ===== *)
theory Policy
  imports Go_Time_Json
begin

text \<open>
  Traffic policies, \<^verbatim>\<open>src/internal/policy.go\<close> up to the fallback policies and the DNS mode of
  \<^verbatim>\<open>src/internal/dns.go\<close>: the enumerations with their JSON forms, the policy record, its validation in
  \<^verbatim>\<open>UnmarshalJSON\<close>, its log form, and \<^verbatim>\<open>mergePolicies\<close>.

  \<^verbatim>\<open>UnmarshalJSON\<close> checks its members one by one with the same three shapes of code, which are
  \<open>checkText\<close>, \<open>checkInt\<close> and \<open>checkDuration\<close>.  \<^verbatim>\<open>mergePolicies\<close> is one conditional assignment per
  field and policy, \<open>inherit\<close>.  The lemmas show that merging is a first-match lookup per field and
  that every policy computed from a checked configuration is in range.
\<close>

named_theorems policy_simps

section \<open>The enumerations\<close>

datatype Mode = ModeUnknown | ModeRaw | ModeDirect | ModeTLSRF | ModeTTLD | ModeBlock | ModeTLSAlert

abbreviation ModeDefault :: Mode where "ModeDefault \<equiv> ModeTLSRF"

definition Mode_UnmarshalJSON :: "json \<Rightarrow> Mode go" where
  "Mode_UnmarshalJSON data =
     go_bind (jstring data) (\<lambda>s0.
       let s = ToLower (TrimSpace s0) in
       if s = ''raw'' then Inr ModeRaw
       else if s = ''direct'' then Inr ModeDirect
       else if s = ''tls-rf'' then Inr ModeTLSRF
       else if s = ''ttl-d'' then Inr ModeTTLD
       else if s = ''block'' then Inr ModeBlock
       else if s = ''tls-alert'' then Inr ModeTLSAlert
       else Inl (Error (''invalid mode: '' @ s)))"

fun Mode_String :: "Mode \<Rightarrow> string" where
  "Mode_String ModeRaw = ''raw''"
| "Mode_String ModeDirect = ''direct''"
| "Mode_String ModeTLSRF = ''tls-rf''"
| "Mode_String ModeTTLD = ''ttl-d''"
| "Mode_String ModeBlock = ''block''"
| "Mode_String ModeTLSAlert = ''tls-alert''"
| "Mode_String ModeUnknown = ''unknown''"

datatype BoolWithDefault = BoolUnset | BoolFalse | BoolTrue

fun BoolWithDefault_UnmarshalJSON :: "json \<Rightarrow> BoolWithDefault go" where
  "BoolWithDefault_UnmarshalJSON JNull = Inr BoolUnset"
| "BoolWithDefault_UnmarshalJSON (JBool b) = Inr (if b then BoolTrue else BoolFalse)"
| "BoolWithDefault_UnmarshalJSON _ = Inl (Error ''invalid bool'')"

datatype DNSMode = DNSModeUnknown | DNSModePreferIPv4 | DNSModePreferIPv6 | DNSModeIPv4Only | DNSModeIPv6Only

abbreviation DNSModeDefault :: DNSMode where "DNSModeDefault \<equiv> DNSModePreferIPv4"

fun DNSMode_String :: "DNSMode \<Rightarrow> string" where
  "DNSMode_String DNSModePreferIPv4 = ''prefer_ipv4''"
| "DNSMode_String DNSModePreferIPv6 = ''prefer_ipv6''"
| "DNSMode_String DNSModeIPv4Only = ''ipv4_only''"
| "DNSMode_String DNSModeIPv6Only = ''ipv6_only''"
| "DNSMode_String DNSModeUnknown = ''unknown''"

definition DNSMode_UnmarshalJSON :: "json \<Rightarrow> DNSMode go" where
  "DNSMode_UnmarshalJSON data =
     go_bind (jstring data) (\<lambda>s.
       if s = ''prefer_ipv4'' then Inr DNSModePreferIPv4
       else if s = ''prefer_ipv6'' then Inr DNSModePreferIPv6
       else if s = ''ipv4_only'' then Inr DNSModeIPv4Only
       else if s = ''ipv6_only'' then Inr DNSModeIPv6Only
       else Inl (Error (''invalid dns_mode: '' @ s)))"

section \<open>Policies\<close>

definition unsetInt :: int where "unsetInt = -1"

record Policy =
  p_ReplyFirst :: BoolWithDefault
  p_DNSMode :: DNSMode
  p_ConnectTimeout :: duration
  p_Host :: "string option"
  p_MapTo :: "string option"
  p_Port :: int
  p_HttpStatus :: int
  p_TLS13Only :: BoolWithDefault
  p_Mode :: Mode
  p_NumRecords :: int
  p_NumSegments :: int
  p_OOB :: BoolWithDefault
  p_OOBEx :: BoolWithDefault
  p_ModMinorVer :: BoolWithDefault
  p_SendInterval :: duration
  p_FakeTTL :: int
  p_FakeSleep :: duration
  p_MaxTTL :: int
  p_Attempts :: int
  p_SingleTimeout :: duration

text \<open>The zero value \<^verbatim>\<open>Policy{}\<close>.\<close>

definition zeroPolicy :: Policy where
  "zeroPolicy = \<lparr>p_ReplyFirst = BoolUnset, p_DNSMode = DNSModeUnknown, p_ConnectTimeout = 0, p_Host = None,
     p_MapTo = None, p_Port = 0, p_HttpStatus = 0, p_TLS13Only = BoolUnset, p_Mode = ModeUnknown,
     p_NumRecords = 0, p_NumSegments = 0, p_OOB = BoolUnset, p_OOBEx = BoolUnset, p_ModMinorVer = BoolUnset,
     p_SendInterval = 0, p_FakeTTL = 0, p_FakeSleep = 0, p_MaxTTL = 0, p_Attempts = 0, p_SingleTimeout = 0\<rparr>"

text \<open>The checks of \<^verbatim>\<open>UnmarshalJSON\<close> on one member each.\<close>

fun checkText :: "string \<Rightarrow> string option \<Rightarrow> string option go" where
  "checkText name (Some []) = Inl (Error (name @ '' cannot be an empty string''))"
| "checkText name x = Inr x"

definition checkInt :: "string \<Rightarrow> string \<Rightarrow> (int \<Rightarrow> bool) \<Rightarrow> int \<Rightarrow> int option \<Rightarrow> int go" where
  "checkInt name msg bad unset x =
     (case x of None \<Rightarrow> Inr unset
      | Some i \<Rightarrow> if bad i then Inl (Error (name @ '' '' @ Itoa i @ '': '' @ msg)) else Inr i)"

definition checkDuration :: "string \<Rightarrow> string \<Rightarrow> (duration \<Rightarrow> bool) \<Rightarrow> duration \<Rightarrow> string option \<Rightarrow> duration go" where
  "checkDuration name msg bad unset x =
     (case x of None \<Rightarrow> Inr unset
      | Some s \<Rightarrow>
          (case ParseDuration s of
             Inl (Error e) \<Rightarrow> Inl (Error (''parse '' @ name @ '' '' @ s @ '': '' @ e))
           | Inl e \<Rightarrow> Inl e
           | Inr d \<Rightarrow> if bad d then Inl (Error (name @ '' '' @ s @ '': '' @ msg)) else Inr d))"

abbreviation outside :: string where "outside \<equiv> ''outside the valid range''"

definition Policy_UnmarshalJSON :: "(string \<times> json) list \<Rightarrow> Policy go" where
  "Policy_UnmarshalJSON data =
     go_bind (jfield BoolWithDefault_UnmarshalJSON BoolUnset (jmembers data ''reply_first'')) (\<lambda>tReplyFirst.
     go_bind (jpointer jstring None (jmembers data ''connect_timeout'')) (\<lambda>tConnectTimeout.
     go_bind (jpointer jstring None (jmembers data ''host'')) (\<lambda>tHost.
     go_bind (jpointer jstring None (jmembers data ''map_to'')) (\<lambda>tMapTo.
     go_bind (jpointer jint None (jmembers data ''port'')) (\<lambda>tPort.
     go_bind (jfield DNSMode_UnmarshalJSON DNSModeUnknown (jmembers data ''dns_mode'')) (\<lambda>tDNSMode.
     go_bind (jpointer jint None (jmembers data ''http_status'')) (\<lambda>tHttpStatus.
     go_bind (jfield BoolWithDefault_UnmarshalJSON BoolUnset (jmembers data ''tls13_only'')) (\<lambda>tTLS13Only.
     go_bind (jfield Mode_UnmarshalJSON ModeUnknown (jmembers data ''mode'')) (\<lambda>tMode.
     go_bind (jpointer jint None (jmembers data ''num_records'')) (\<lambda>tNumRecords.
     go_bind (jpointer jint None (jmembers data ''num_segs'')) (\<lambda>tNumSegments.
     go_bind (jfield BoolWithDefault_UnmarshalJSON BoolUnset (jmembers data ''oob'')) (\<lambda>tOOB.
     go_bind (jfield BoolWithDefault_UnmarshalJSON BoolUnset (jmembers data ''oob_ex'')) (\<lambda>tOOBEx.
     go_bind (jfield BoolWithDefault_UnmarshalJSON BoolUnset (jmembers data ''mod_minor_ver'')) (\<lambda>tModMinorVer.
     go_bind (jpointer jstring None (jmembers data ''send_interval'')) (\<lambda>tSendInterval.
     go_bind (jpointer jint None (jmembers data ''fake_ttl'')) (\<lambda>tFakeTTL.
     go_bind (jpointer jstring None (jmembers data ''fake_sleep'')) (\<lambda>tFakeSleep.
     go_bind (jpointer jint None (jmembers data ''max_ttl'')) (\<lambda>tMaxTTL.
     go_bind (jpointer jint None (jmembers data ''attempts'')) (\<lambda>tAttempts.
     go_bind (jpointer jstring None (jmembers data ''single_timeout'')) (\<lambda>tSingleTimeout.
     go_bind (checkText ''host'' tHost) (\<lambda>host.
     go_bind (checkText ''map_to'' tMapTo) (\<lambda>mapTo.
     go_bind (checkInt ''port'' outside (\<lambda>i. i < 0 \<or> i > 65535) unsetInt tPort) (\<lambda>port.
     go_bind (checkInt ''http_status'' outside (\<lambda>i. i < 0) unsetInt tHttpStatus) (\<lambda>httpStatus.
     go_bind (checkInt ''num_records'' ''must be greater than 0'' (\<lambda>i. i \<le> 0) 0 tNumRecords) (\<lambda>numRecords.
     go_bind (checkInt ''num_segs'' outside (\<lambda>i. i = 0 \<or> i < -1) 0 tNumSegments) (\<lambda>numSegments.
     go_bind (checkInt ''fake_ttl'' outside (\<lambda>i. i < 0 \<or> i > 255) unsetInt tFakeTTL) (\<lambda>fakeTTL.
     go_bind (checkInt ''attempts'' ''must be greater than 1'' (\<lambda>i. i < 1) 0 tAttempts) (\<lambda>attempts.
     go_bind (checkInt ''max_ttl'' outside (\<lambda>i. i \<le> 1 \<or> i > 255) 0 tMaxTTL) (\<lambda>maxTTL.
     go_bind (checkDuration ''connect_timeout'' ''must be greater than 0'' (\<lambda>d. d \<le> 0) unsetInt tConnectTimeout) (\<lambda>connectTimeout.
     go_bind (checkDuration ''send_interval'' outside (\<lambda>d. d < 0) unsetInt tSendInterval) (\<lambda>sendInterval.
     go_bind (checkDuration ''fake_sleep'' ''must be greater than 0'' (\<lambda>d. d \<le> 0) 0 tFakeSleep) (\<lambda>fakeSleep.
     go_bind (checkDuration ''single_timeout'' ''must be greater than 0'' (\<lambda>d. d \<le> 0) unsetInt tSingleTimeout) (\<lambda>singleTimeout.
     Inr \<lparr>p_ReplyFirst = tReplyFirst, p_DNSMode = tDNSMode, p_ConnectTimeout = connectTimeout, p_Host = host,
       p_MapTo = mapTo, p_Port = port, p_HttpStatus = httpStatus, p_TLS13Only = tTLS13Only, p_Mode = tMode,
       p_NumRecords = numRecords, p_NumSegments = numSegments, p_OOB = tOOB, p_OOBEx = tOOBEx,
       p_ModMinorVer = tModMinorVer, p_SendInterval = sendInterval, p_FakeTTL = fakeTTL, p_FakeSleep = fakeSleep,
       p_MaxTTL = maxTTL, p_Attempts = attempts, p_SingleTimeout = singleTimeout\<rparr>)))))))))))))))))))))))))))))))))"

definition Policy_String :: "Policy \<Rightarrow> string" where
  "Policy_String p =
     (let fields =
        (if p_ConnectTimeout p \<noteq> 0 then [''timeout='' @ Duration_String (p_ConnectTimeout p)] else [])
        @ (if p_Port p \<noteq> unsetInt \<and> p_Port p \<noteq> 0 then [CHR '':'' # Itoa (p_Port p)] else [])
        @ (if p_Host p = None \<or> p_Host p = Some [] then [DNSMode_String (p_DNSMode p)] else [])
        @ (if p_HttpStatus p > 0 then [''http_status='' @ Itoa (p_HttpStatus p)] else [])
        @ (if p_TLS13Only p = BoolTrue then [''tls13_only''] else [])
        @ [Mode_String (p_Mode p)]
        @ (case p_Mode p of
             ModeTLSRF \<Rightarrow>
               (if p_ModMinorVer p = BoolTrue then [''mod_minor_ver''] else [])
               @ (if p_NumRecords p \<noteq> unsetInt \<and> p_NumRecords p \<noteq> 1 then [Itoa (p_NumRecords p) @ '' records''] else [])
               @ (if p_NumSegments p \<noteq> unsetInt \<and> p_NumSegments p \<noteq> 1 then [Itoa (p_NumSegments p) @ '' segments''] else [])
               @ (if p_SendInterval p > 0 then [''send_interval='' @ Duration_String (p_SendInterval p)] else [])
               @ (if p_OOB p = BoolTrue then [''oob''] else [])
               @ (if p_OOBEx p = BoolTrue then [''oob_ex''] else [])
           | ModeTTLD \<Rightarrow>
               (if p_FakeTTL p = 0 \<or> p_FakeTTL p = unsetInt then
                  [''auto_fake_ttl'']
                  @ (if p_Attempts p \<noteq> 0 then [''attempts='' @ Itoa (p_Attempts p)] else [])
                  @ (if p_MaxTTL p \<noteq> 0 then [''max_ttl='' @ Itoa (p_MaxTTL p)] else [])
                  @ (if p_SingleTimeout p \<noteq> 0 then [''single_timeout='' @ Duration_String (p_SingleTimeout p)] else [])
                else [''fake_ttl='' @ Itoa (p_FakeTTL p)])
               @ [''fake_sleep='' @ Duration_String (p_FakeSleep p)]
           | _ \<Rightarrow> [])
      in join '', '' fields)"

section \<open>Merging\<close>

text \<open>The assignment \<^verbatim>\<open>if merged.X == unset && p.X != unset { merged.X = p.X }\<close>.\<close>

definition inherit :: "'a \<Rightarrow> 'a \<Rightarrow> 'a \<Rightarrow> 'a" where
  "inherit unset m x = (if m = unset \<and> x \<noteq> unset then x else m)"

definition mergeStep :: "Policy \<Rightarrow> Policy \<Rightarrow> Policy" where
  "mergeStep p m = \<lparr>
     p_ReplyFirst = inherit BoolUnset (p_ReplyFirst m) (p_ReplyFirst p),
     p_DNSMode = inherit DNSModeUnknown (p_DNSMode m) (p_DNSMode p),
     p_ConnectTimeout = inherit unsetInt (p_ConnectTimeout m) (p_ConnectTimeout p),
     p_Host = inherit None (p_Host m) (p_Host p),
     p_MapTo = inherit None (p_MapTo m) (p_MapTo p),
     p_Port = inherit 0 (p_Port m) (p_Port p),
     p_HttpStatus = inherit unsetInt (p_HttpStatus m) (p_HttpStatus p),
     p_TLS13Only = inherit BoolUnset (p_TLS13Only m) (p_TLS13Only p),
     p_Mode = inherit ModeUnknown (p_Mode m) (p_Mode p),
     p_NumRecords = inherit 0 (p_NumRecords m) (p_NumRecords p),
     p_NumSegments = inherit 0 (p_NumSegments m) (p_NumSegments p),
     p_OOB = inherit BoolUnset (p_OOB m) (p_OOB p),
     p_OOBEx = inherit BoolUnset (p_OOBEx m) (p_OOBEx p),
     p_ModMinorVer = inherit BoolUnset (p_ModMinorVer m) (p_ModMinorVer p),
     p_SendInterval = inherit unsetInt (p_SendInterval m) (p_SendInterval p),
     p_FakeTTL = inherit unsetInt (p_FakeTTL m) (p_FakeTTL p),
     p_FakeSleep = inherit 0 (p_FakeSleep m) (p_FakeSleep p),
     p_MaxTTL = inherit 0 (p_MaxTTL m) (p_MaxTTL p),
     p_Attempts = inherit 0 (p_Attempts m) (p_Attempts p),
     p_SingleTimeout = inherit unsetInt (p_SingleTimeout m) (p_SingleTimeout p)\<rparr>"

definition unsetPolicy :: Policy where
  "unsetPolicy = zeroPolicy\<lparr>p_HttpStatus := unsetInt, p_SendInterval := unsetInt, p_FakeTTL := unsetInt,
     p_ConnectTimeout := unsetInt, p_SingleTimeout := unsetInt\<rparr>"

definition applyPolicyDefaults :: "Policy \<Rightarrow> Policy" where
  "applyPolicyDefaults p =
     (let p1 = (if p_Mode p = ModeUnknown then p\<lparr>p_Mode := ModeDefault\<rparr> else p)
      in if p_DNSMode p1 = DNSModeUnknown then p1\<lparr>p_DNSMode := DNSModeDefault\<rparr> else p1)"

text \<open>The last two conditionals of \<^verbatim>\<open>mergePolicies\<close> are those of \<^verbatim>\<open>applyPolicyDefaults\<close>.\<close>

definition mergePolicies :: "Policy list \<Rightarrow> Policy" where
  "mergePolicies policies = applyPolicyDefaults (fold mergeStep policies unsetPolicy)"

definition plainFallbackPolicy :: Policy where
  "plainFallbackPolicy = zeroPolicy\<lparr>p_Mode := ModeRaw\<rparr>"

definition gfwFallbackPolicy :: Policy where
  "gfwFallbackPolicy = zeroPolicy\<lparr>p_Mode := ModeTLSRF\<rparr>"

section \<open>Merging takes the first value that is set\<close>

definition first_set :: "'a \<Rightarrow> ('p \<Rightarrow> 'a) \<Rightarrow> 'p list \<Rightarrow> 'a" where
  "first_set unset f ps = (case find (\<lambda>p. f p \<noteq> unset) ps of Some p \<Rightarrow> f p | None \<Rightarrow> unset)"

lemma first_set_simps [simp]:
  "first_set u f [] = u"
  "first_set u f (p # ps) = (if f p = u then first_set u f ps else f p)"
  by (auto simp: first_set_def)

lemma inherit_simps [simp]: "inherit u u x = x" "m \<noteq> u \<Longrightarrow> inherit u m x = m"
  by (auto simp: inherit_def)

definition overlay :: "Policy list \<Rightarrow> Policy \<Rightarrow> Policy" where
  "overlay ps m = \<lparr>
     p_ReplyFirst = inherit BoolUnset (p_ReplyFirst m) (first_set BoolUnset p_ReplyFirst ps),
     p_DNSMode = inherit DNSModeUnknown (p_DNSMode m) (first_set DNSModeUnknown p_DNSMode ps),
     p_ConnectTimeout = inherit unsetInt (p_ConnectTimeout m) (first_set unsetInt p_ConnectTimeout ps),
     p_Host = inherit None (p_Host m) (first_set None p_Host ps),
     p_MapTo = inherit None (p_MapTo m) (first_set None p_MapTo ps),
     p_Port = inherit 0 (p_Port m) (first_set 0 p_Port ps),
     p_HttpStatus = inherit unsetInt (p_HttpStatus m) (first_set unsetInt p_HttpStatus ps),
     p_TLS13Only = inherit BoolUnset (p_TLS13Only m) (first_set BoolUnset p_TLS13Only ps),
     p_Mode = inherit ModeUnknown (p_Mode m) (first_set ModeUnknown p_Mode ps),
     p_NumRecords = inherit 0 (p_NumRecords m) (first_set 0 p_NumRecords ps),
     p_NumSegments = inherit 0 (p_NumSegments m) (first_set 0 p_NumSegments ps),
     p_OOB = inherit BoolUnset (p_OOB m) (first_set BoolUnset p_OOB ps),
     p_OOBEx = inherit BoolUnset (p_OOBEx m) (first_set BoolUnset p_OOBEx ps),
     p_ModMinorVer = inherit BoolUnset (p_ModMinorVer m) (first_set BoolUnset p_ModMinorVer ps),
     p_SendInterval = inherit unsetInt (p_SendInterval m) (first_set unsetInt p_SendInterval ps),
     p_FakeTTL = inherit unsetInt (p_FakeTTL m) (first_set unsetInt p_FakeTTL ps),
     p_FakeSleep = inherit 0 (p_FakeSleep m) (first_set 0 p_FakeSleep ps),
     p_MaxTTL = inherit 0 (p_MaxTTL m) (first_set 0 p_MaxTTL ps),
     p_Attempts = inherit 0 (p_Attempts m) (first_set 0 p_Attempts ps),
     p_SingleTimeout = inherit unsetInt (p_SingleTimeout m) (first_set unsetInt p_SingleTimeout ps)\<rparr>"

lemma inherit_unset [simp]: "inherit u m u = m"
  by (auto simp: inherit_def)

lemma inherit_inherit: "inherit u (inherit u m x) y = inherit u m (if x = u then y else x)"
  by (auto simp: inherit_def)

lemma fold_mergeStep: "fold mergeStep ps m = overlay ps m"
proof (induction ps arbitrary: m)
  case Nil
  show ?case by (simp add: overlay_def)
next
  case (Cons p ps)
  have "overlay ps (mergeStep p m) = overlay (p # ps) m"
    by (simp add: overlay_def mergeStep_def inherit_inherit)
  then show ?case using Cons by simp
qed

lemma mergePolicies_overlay: "mergePolicies ps = applyPolicyDefaults (overlay ps unsetPolicy)"
  by (simp add: mergePolicies_def fold_mergeStep)

lemma mergePolicies_fields [policy_simps]:
  "p_ReplyFirst (mergePolicies ps) = first_set BoolUnset p_ReplyFirst ps"
  "p_ConnectTimeout (mergePolicies ps) = first_set unsetInt p_ConnectTimeout ps"
  "p_Host (mergePolicies ps) = first_set None p_Host ps"
  "p_MapTo (mergePolicies ps) = first_set None p_MapTo ps"
  "p_Port (mergePolicies ps) = first_set 0 p_Port ps"
  "p_HttpStatus (mergePolicies ps) = first_set unsetInt p_HttpStatus ps"
  "p_TLS13Only (mergePolicies ps) = first_set BoolUnset p_TLS13Only ps"
  "p_NumRecords (mergePolicies ps) = first_set 0 p_NumRecords ps"
  "p_NumSegments (mergePolicies ps) = first_set 0 p_NumSegments ps"
  "p_OOB (mergePolicies ps) = first_set BoolUnset p_OOB ps"
  "p_OOBEx (mergePolicies ps) = first_set BoolUnset p_OOBEx ps"
  "p_ModMinorVer (mergePolicies ps) = first_set BoolUnset p_ModMinorVer ps"
  "p_SendInterval (mergePolicies ps) = first_set unsetInt p_SendInterval ps"
  "p_FakeTTL (mergePolicies ps) = first_set unsetInt p_FakeTTL ps"
  "p_FakeSleep (mergePolicies ps) = first_set 0 p_FakeSleep ps"
  "p_MaxTTL (mergePolicies ps) = first_set 0 p_MaxTTL ps"
  "p_Attempts (mergePolicies ps) = first_set 0 p_Attempts ps"
  "p_SingleTimeout (mergePolicies ps) = first_set unsetInt p_SingleTimeout ps"
  "p_Mode (mergePolicies ps) = (let m = first_set ModeUnknown p_Mode ps in if m = ModeUnknown then ModeTLSRF else m)"
  "p_DNSMode (mergePolicies ps) = (let m = first_set DNSModeUnknown p_DNSMode ps in if m = DNSModeUnknown then DNSModePreferIPv4 else m)"
  by (simp_all add: mergePolicies_overlay applyPolicyDefaults_def overlay_def unsetPolicy_def zeroPolicy_def Let_def)

text \<open>
  C13: Merging policies gives every field the value of the first policy of the list that sets it, and
  the unset value where none does; the mode defaults to \<^verbatim>\<open>tls-rf\<close> and the DNS mode to \<^verbatim>\<open>prefer_ipv4\<close>.
\<close>

theorem mergePolicies_first_set:
  "mergePolicies ps = \<lparr>
     p_ReplyFirst = first_set BoolUnset p_ReplyFirst ps,
     p_DNSMode = (if first_set DNSModeUnknown p_DNSMode ps = DNSModeUnknown then DNSModePreferIPv4
                  else first_set DNSModeUnknown p_DNSMode ps),
     p_ConnectTimeout = first_set (-1) p_ConnectTimeout ps,
     p_Host = first_set None p_Host ps,
     p_MapTo = first_set None p_MapTo ps,
     p_Port = first_set 0 p_Port ps,
     p_HttpStatus = first_set (-1) p_HttpStatus ps,
     p_TLS13Only = first_set BoolUnset p_TLS13Only ps,
     p_Mode = (if first_set ModeUnknown p_Mode ps = ModeUnknown then ModeTLSRF else first_set ModeUnknown p_Mode ps),
     p_NumRecords = first_set 0 p_NumRecords ps,
     p_NumSegments = first_set 0 p_NumSegments ps,
     p_OOB = first_set BoolUnset p_OOB ps,
     p_OOBEx = first_set BoolUnset p_OOBEx ps,
     p_ModMinorVer = first_set BoolUnset p_ModMinorVer ps,
     p_SendInterval = first_set (-1) p_SendInterval ps,
     p_FakeTTL = first_set (-1) p_FakeTTL ps,
     p_FakeSleep = first_set 0 p_FakeSleep ps,
     p_MaxTTL = first_set 0 p_MaxTTL ps,
     p_Attempts = first_set 0 p_Attempts ps,
     p_SingleTimeout = first_set (-1) p_SingleTimeout ps\<rparr>"
  by (simp add: mergePolicies_overlay applyPolicyDefaults_def overlay_def unsetPolicy_def zeroPolicy_def unsetInt_def)

section \<open>Ranges\<close>

definition policy_in_range :: "Policy \<Rightarrow> bool" where
  "policy_in_range p \<longleftrightarrow>
     p_ConnectTimeout p \<in> {-1..<2 ^ 63} \<and> p_Host p \<noteq> Some [] \<and> p_MapTo p \<noteq> Some []
     \<and> p_Port p \<in> {-1..65535} \<and> p_HttpStatus p \<in> {-1..<2 ^ 63}
     \<and> p_NumRecords p \<in> {0..<2 ^ 63} \<and> p_NumSegments p \<in> {-1..<2 ^ 63}
     \<and> p_SendInterval p \<in> {-1..<2 ^ 63} \<and> p_FakeTTL p \<in> {-1..255} \<and> p_FakeSleep p \<in> {0..<2 ^ 63}
     \<and> p_MaxTTL p \<in> insert 0 {2..255} \<and> p_Attempts p \<in> {0..<2 ^ 63} \<and> p_SingleTimeout p \<in> {-1..<2 ^ 63}"

lemma jpointer_jint_range:
  "jpointer jint x vs = Inr (Some i) \<Longrightarrow> (\<forall>j. x = Some j \<longrightarrow> - (2 ^ 63) \<le> j \<and> j < 2 ^ 63)
    \<Longrightarrow> - (2 ^ 63) \<le> i \<and> i < 2 ^ 63"
proof (induction jint x vs rule: jpointer.induct)
  case (1 x)
  then show ?case by simp
next
  case (2 x vs)
  then show ?case by simp
qed (auto simp: go_bind_Inr_iff split: if_splits)

lemma ParseDuration_range: "ParseDuration s = Inr d \<Longrightarrow> d < 2 ^ 63"
  by (auto simp: ParseDuration_def Let_def go_bind_Inr_iff split: if_splits)

lemma checkInt_Inr:
  "checkInt name msg bad u x = Inr i \<longleftrightarrow> (x = None \<and> i = u) \<or> (x = Some i \<and> \<not> bad i)"
  by (auto simp: checkInt_def split: option.splits if_splits)

lemma checkText_Inr: "checkText name x = Inr y \<longleftrightarrow> x = y \<and> y \<noteq> Some []"
  by (cases "(name, x)" rule: checkText.cases) auto

lemma checkDuration_Inr:
  "checkDuration name msg bad u x = Inr d \<longleftrightarrow>
     (x = None \<and> d = u) \<or> (\<exists>s. x = Some s \<and> ParseDuration s = Inr d \<and> \<not> bad d)"
  by (auto simp: checkDuration_def split: option.splits if_splits sum.splits gerr.splits)

lemmas check_Inr = checkInt_Inr checkText_Inr checkDuration_Inr

text \<open>What a successful parse says of each field.\<close>

lemma Policy_UnmarshalJSON_fields:
  assumes "Policy_UnmarshalJSON data = Inr p"
  shows "\<exists>t. jpointer jstring None (jmembers data ''host'') = Inr t \<and> checkText ''host'' t = Inr (p_Host p)"
    and "\<exists>t. jpointer jstring None (jmembers data ''map_to'') = Inr t \<and> checkText ''map_to'' t = Inr (p_MapTo p)"
    and "\<exists>t. jpointer jint None (jmembers data ''port'') = Inr t
      \<and> checkInt ''port'' outside (\<lambda>i. i < 0 \<or> i > 65535) unsetInt t = Inr (p_Port p)"
    and "\<exists>t. jpointer jint None (jmembers data ''http_status'') = Inr t
      \<and> checkInt ''http_status'' outside (\<lambda>i. i < 0) unsetInt t = Inr (p_HttpStatus p)"
    and "\<exists>t. jpointer jint None (jmembers data ''num_records'') = Inr t
      \<and> checkInt ''num_records'' ''must be greater than 0'' (\<lambda>i. i \<le> 0) 0 t = Inr (p_NumRecords p)"
    and "\<exists>t. jpointer jint None (jmembers data ''num_segs'') = Inr t
      \<and> checkInt ''num_segs'' outside (\<lambda>i. i = 0 \<or> i < -1) 0 t = Inr (p_NumSegments p)"
    and "\<exists>t. jpointer jint None (jmembers data ''fake_ttl'') = Inr t
      \<and> checkInt ''fake_ttl'' outside (\<lambda>i. i < 0 \<or> i > 255) unsetInt t = Inr (p_FakeTTL p)"
    and "\<exists>t. jpointer jint None (jmembers data ''attempts'') = Inr t
      \<and> checkInt ''attempts'' ''must be greater than 1'' (\<lambda>i. i < 1) 0 t = Inr (p_Attempts p)"
    and "\<exists>t. jpointer jint None (jmembers data ''max_ttl'') = Inr t
      \<and> checkInt ''max_ttl'' outside (\<lambda>i. i \<le> 1 \<or> i > 255) 0 t = Inr (p_MaxTTL p)"
    and "\<exists>t. checkDuration ''connect_timeout'' ''must be greater than 0'' (\<lambda>d. d \<le> 0) unsetInt t = Inr (p_ConnectTimeout p)"
    and "\<exists>t. checkDuration ''send_interval'' outside (\<lambda>d. d < 0) unsetInt t = Inr (p_SendInterval p)"
    and "\<exists>t. checkDuration ''fake_sleep'' ''must be greater than 0'' (\<lambda>d. d \<le> 0) 0 t = Inr (p_FakeSleep p)"
    and "\<exists>t. checkDuration ''single_timeout'' ''must be greater than 0'' (\<lambda>d. d \<le> 0) unsetInt t = Inr (p_SingleTimeout p)"
  using assms [unfolded Policy_UnmarshalJSON_def go_bind_Inr_iff sum.inject]
  by - (elim exE conjE, hypsubst, simp (no_asm) only: Policy.simps, intro exI conjI, assumption+)+

lemma parsed_int:
  assumes "\<exists>t. jpointer jint None vs = Inr t \<and> checkInt name msg bad u t = Inr i"
  shows "i = u \<or> \<not> bad i \<and> i < 2 ^ 63"
  using assms by (auto simp: checkInt_Inr dest: jpointer_jint_range)

lemma parsed_duration:
  assumes "\<exists>t. checkDuration name msg bad u t = Inr d"
  shows "d = u \<or> \<not> bad d \<and> d < 2 ^ 63"
  using assms by (auto simp: checkDuration_Inr dest: ParseDuration_range)

lemma Policy_UnmarshalJSON_in_range:
  assumes "Policy_UnmarshalJSON data = Inr p"
  shows "policy_in_range p"
proof -
  note F = Policy_UnmarshalJSON_fields [OF assms]
  have "p_Host p \<noteq> Some []" "p_MapTo p \<noteq> Some []" using F(1,2) by (auto simp: checkText_Inr)
  moreover have "p_Port p \<in> {-1..65535}" using parsed_int [OF F(3)] by (auto simp: unsetInt_def)
  moreover have "p_HttpStatus p \<in> {-1..<2 ^ 63}" using parsed_int [OF F(4)] by (auto simp: unsetInt_def)
  moreover have "p_NumRecords p \<in> {0..<2 ^ 63}" using parsed_int [OF F(5)] by (auto simp: unsetInt_def)
  moreover have "p_NumSegments p \<in> {-1..<2 ^ 63}" using parsed_int [OF F(6)] by (auto simp: unsetInt_def)
  moreover have "p_FakeTTL p \<in> {-1..255}" using parsed_int [OF F(7)] by (auto simp: unsetInt_def)
  moreover have "p_Attempts p \<in> {0..<2 ^ 63}" using parsed_int [OF F(8)] by (auto simp: unsetInt_def)
  moreover have "p_MaxTTL p \<in> insert 0 {2..255}" using parsed_int [OF F(9)] by (auto simp: unsetInt_def)
  moreover have "p_ConnectTimeout p \<in> {-1..<2 ^ 63}" using parsed_duration [OF F(10)] by (auto simp: unsetInt_def)
  moreover have "p_SendInterval p \<in> {-1..<2 ^ 63}" using parsed_duration [OF F(11)] by (auto simp: unsetInt_def)
  moreover have "p_FakeSleep p \<in> {0..<2 ^ 63}" using parsed_duration [OF F(12)] by (auto simp: unsetInt_def)
  moreover have "p_SingleTimeout p \<in> {-1..<2 ^ 63}" using parsed_duration [OF F(13)] by (auto simp: unsetInt_def)
  ultimately show ?thesis unfolding policy_in_range_def by blast
qed

lemma fallback_in_range: "policy_in_range plainFallbackPolicy" "policy_in_range gfwFallbackPolicy"
  by (simp_all add: policy_in_range_def plainFallbackPolicy_def gfwFallbackPolicy_def zeroPolicy_def)

lemma first_set_cases: "first_set u f ps = u \<or> (\<exists>p \<in> set ps. first_set u f ps = f p)"
  by (induction ps) auto

lemma first_set_in: "u \<in> A \<Longrightarrow> (\<And>p. p \<in> set ps \<Longrightarrow> f p \<in> A) \<Longrightarrow> first_set u f ps \<in> A"
  using first_set_cases [of u f ps] by auto

lemma first_set_neq: "u \<noteq> a \<Longrightarrow> (\<And>p. p \<in> set ps \<Longrightarrow> f p \<noteq> a) \<Longrightarrow> first_set u f ps \<noteq> a"
  using first_set_cases [of u f ps] by metis

lemma applyPolicyDefaults_fields [simp]:
  "p_Mode (applyPolicyDefaults p) = (if p_Mode p = ModeUnknown then ModeTLSRF else p_Mode p)"
  "p_DNSMode (applyPolicyDefaults p) = (if p_DNSMode p = DNSModeUnknown then DNSModePreferIPv4 else p_DNSMode p)"
  "policy_in_range (applyPolicyDefaults p) = policy_in_range p"
  by (simp_all add: applyPolicyDefaults_def policy_in_range_def)

lemma unsetPolicy_fields [simp]:
  "p_ReplyFirst unsetPolicy = BoolUnset" "p_DNSMode unsetPolicy = DNSModeUnknown"
  "p_ConnectTimeout unsetPolicy = unsetInt" "p_Host unsetPolicy = None" "p_MapTo unsetPolicy = None"
  "p_Port unsetPolicy = 0" "p_HttpStatus unsetPolicy = unsetInt" "p_TLS13Only unsetPolicy = BoolUnset"
  "p_Mode unsetPolicy = ModeUnknown" "p_NumRecords unsetPolicy = 0" "p_NumSegments unsetPolicy = 0"
  "p_SendInterval unsetPolicy = unsetInt" "p_FakeTTL unsetPolicy = unsetInt" "p_FakeSleep unsetPolicy = 0"
  "p_MaxTTL unsetPolicy = 0" "p_Attempts unsetPolicy = 0" "p_SingleTimeout unsetPolicy = unsetInt"
  by (simp_all add: unsetPolicy_def zeroPolicy_def)

lemma merge_in_range:
  assumes "\<And>p. p \<in> set ps \<Longrightarrow> policy_in_range p"
  shows "policy_in_range (mergePolicies ps)"
proof -
  note R = assms [unfolded policy_in_range_def]
  show ?thesis
    unfolding mergePolicies_overlay applyPolicyDefaults_fields
    unfolding policy_in_range_def overlay_def Policy.simps unsetPolicy_fields inherit_simps
    by (intro conjI first_set_in first_set_neq; (drule R)?; simp add: unsetInt_def)
qed


lemmas json_eval = jmembers_def ToLower_def lower_eval Mode_UnmarshalJSON_def DNSMode_UnmarshalJSON_def TrimSpace_def is_space_def
  checkInt_def checkDuration_def unsetInt_def

definition sample_policy :: "(string \<times> json) list" where
  "sample_policy = [(''mode'', JStr '' TTL-d ''), (''fake_ttl'', JInt 7), (''connect_timeout'', JStr ''1m5s'')]"

lemma sample_policy_parses:
  "Policy_UnmarshalJSON sample_policy = Inr (unsetPolicy\<lparr>p_Mode := ModeTTLD, p_Port := -1, p_FakeTTL := 7, p_ConnectTimeout := 65000000000\<rparr>)"
proof -
  have d: "ParseDuration ''1m5s'' = Inr 65000000000"
    by (simp add: ParseDuration_def parse_terms.simps parse_term_def is_digit_def digit_val_def unit_of_def unit_text_def unit_end_def Let_def)
  show ?thesis
    by (simp add: Policy_UnmarshalJSON_def sample_policy_def json_eval d unsetPolicy_def zeroPolicy_def)
qed


text \<open>
  A policy of the configuration that names no port keeps its rule from inheriting one: the unset
  port of a parsed policy is -1, while merging takes 0 for unset, so the merged port is -1 whatever
  port the default policy names.
\<close>

lemma default_port_not_inherited:
  assumes "Policy_UnmarshalJSON data = Inr p" and "jmembers data ''port'' = []"
  shows "p_Port (mergePolicies (p # ds)) = -1"
proof -
  have "p_Port p = -1"
    using Policy_UnmarshalJSON_fields(3) [OF assms(1)] assms(2) by (auto simp: checkInt_Inr unsetInt_def)
  then show ?thesis by (simp add: policy_simps)
qed

lemma default_port_not_inherited_witness:
  "p_Port (mergePolicies [unsetPolicy\<lparr>p_Mode := ModeTTLD, p_Port := -1, p_FakeTTL := 7, p_ConnectTimeout := 65000000000\<rparr>,
     unsetPolicy\<lparr>p_Port := 8443\<rparr>]) = -1"
  by (rule default_port_not_inherited [OF sample_policy_parses]) (simp add: sample_policy_def json_eval)

text \<open>
  Under the built-in fallback policies, those of domains without a rule, the connect timeout, the
  send interval, the fake TTL, the HTTP status and the single timeout of the default policy have no
  effect: the fallbacks carry 0 there, which merging takes for a value that is set.
\<close>

lemma fallback_hides_default_policy:
  "map (\<lambda>m. (p_ConnectTimeout m, p_SendInterval m, p_FakeTTL m, p_HttpStatus m, p_SingleTimeout m, p_NumRecords m, p_Port m))
     [mergePolicies [plainFallbackPolicy, d], mergePolicies [gfwFallbackPolicy, d]]
   = [(0, 0, 0, 0, 0, p_NumRecords d, p_Port d), (0, 0, 0, 0, 0, p_NumRecords d, p_Port d)]"
  by (simp add: policy_simps plainFallbackPolicy_def gfwFallbackPolicy_def
      zeroPolicy_def unsetInt_def Let_def)

text \<open>
  A JSON string is read as a mode exactly if, trimmed and in lower case, it is what that mode
  prints as; nothing is read as the unknown mode.
\<close>

lemma Mode_UnmarshalJSON_iff:
  "Mode_UnmarshalJSON (JStr s) = Inr m \<longleftrightarrow> ToLower (TrimSpace s) = Mode_String m \<and> m \<noteq> ModeUnknown"
  by (cases m) (auto simp: Mode_UnmarshalJSON_def Let_def)

end
