(* ===== verification/Addr_Trie.thy ===== *)
theory Addr_Trie
  imports Go_Netip
begin

text \<open>
  The three matchers of \<^verbatim>\<open>src/vendor/github.com/moi-si/addrtrie\<close> that the policies are looked up
  in: \<^verbatim>\<open>domain.go\<close>, \<^verbatim>\<open>ipv4.go\<close> and \<^verbatim>\<open>ipv6.go\<close>.

  A bit trie node has two children and an optional value; a label node has a map of children
  and optional exact and wildcard values.  The loops are recursions over the bits and over the
  labels.  The reference definition is \<open>lpm\<close>, a scan of the rules in insertion order that keeps
  the longest match; the lemmas show that the tries compute it.  The argument is shared: \<open>lpm_top\<close>
  turns the scan into the topmost defined index of a partial function, \<open>findBits_top\<close> and
  \<open>Find_top\<close> do the same for the two searches.  The locale \<open>bit_key\<close> captures what a key type has
  to provide, \<open>addr_trie\<close> extends it by the string interface; both are interpreted for IPv4 and
  IPv6.
\<close>

section \<open>Bit tries\<close>

text \<open>\<^verbatim>\<open>bitNode\<close>: the two children, and the value when \<^verbatim>\<open>valueExists\<close> holds.\<close>

datatype 'a bitNode = BitNode "'a bitNode option" "'a bitNode option" "'a option"

fun children :: "'a bitNode \<Rightarrow> bool \<Rightarrow> 'a bitNode option" where
  "children (BitNode l r x) b = (if b then r else l)"

fun bit_value :: "'a bitNode \<Rightarrow> 'a option" where
  "bit_value (BitNode l r x) = x"

definition newBitNode :: "'a bitNode" where
  "newBitNode = BitNode None None None"

fun insertBits :: "bool list \<Rightarrow> 'a \<Rightarrow> 'a bitNode \<Rightarrow> 'a bitNode" where
  "insertBits [] v (BitNode l r x) = BitNode l r (Some v)"
| "insertBits (b # bs) v (BitNode l r x) =
     (let cur = (case children (BitNode l r x) b of None \<Rightarrow> newBitNode | Some c \<Rightarrow> c);
          c = insertBits bs v cur
      in if b then BitNode l (Some c) x else BitNode (Some c) r x)"

text \<open>The search loop: the rest of the bits, the current node, and the last value seen.\<close>

fun findBits :: "bool list \<Rightarrow> 'a bitNode \<Rightarrow> 'a option \<Rightarrow> 'a option" where
  "findBits [] cur matched = (case bit_value cur of Some v \<Rightarrow> Some v | None \<Rightarrow> matched)"
| "findBits (b # bs) cur matched =
     (let matched1 = (case bit_value cur of Some v \<Rightarrow> Some v | None \<Rightarrow> matched)
      in case children cur b of
           None \<Rightarrow> (case bit_value cur of Some v \<Rightarrow> Some v | None \<Rightarrow> matched1)
         | Some c \<Rightarrow> findBits bs c matched1)"

definition findRoot :: "bool list \<Rightarrow> 'a bitNode \<Rightarrow> 'a option" where
  "findRoot bs root =
     (case findBits bs root None of
        Some v \<Rightarrow> Some v
      | None \<Rightarrow> (case bit_value root of Some v \<Rightarrow> Some v | None \<Rightarrow> None))"

subsection \<open>IPv4\<close>

definition getBit32 :: "32 word \<Rightarrow> nat \<Rightarrow> 32 word" where
  "getBit32 v i = and (drop_bit (31 - i) v) 1"

definition parseIPv4OrCIDR :: "string \<Rightarrow> (32 word \<times> nat) go" where
  "parseIPv4OrCIDR s =
     (case ParsePrefix s of
        Some p \<Rightarrow>
          (case prefix_Addr p of
             IP4 ip \<Rightarrow> if prefix_Bits p > 32 then Inl (Error ''non-canonical mask'')
                       else Inr (ip, prefix_Bits p)
           | IP6 _ _ \<Rightarrow> Inl (Error ''non-IPv4 mask''))
      | None \<Rightarrow>
          (case ParseAddr s of
             Some a \<Rightarrow>
               (case Unmap a of
                  IP4 ip \<Rightarrow> Inr (ip, 32)
                | IP6 _ _ \<Rightarrow> Inl (Error ''invalid IPv4 address''))
           | None \<Rightarrow> Inl (Error ''invalid IPv4 address or CIDR'')))"

definition NewIPv4Trie :: "'a bitNode" where
  "NewIPv4Trie = newBitNode"

definition setRoot :: "'a \<Rightarrow> 'a bitNode \<Rightarrow> 'a bitNode" where
  "setRoot v root = (case root of BitNode l r x \<Rightarrow> BitNode l r (Some v))"

definition IPv4Trie_Insert :: "'a bitNode \<Rightarrow> string \<Rightarrow> 'a \<Rightarrow> 'a bitNode go" where
  "IPv4Trie_Insert t prefix value =
     (if prefix = ''*'' then Inr (setRoot value t)
      else go_bind (parseIPv4OrCIDR prefix) (\<lambda>(ip, bitLen).
        Inr (insertBits (map (\<lambda>i. getBit32 ip i = 1) [0..<bitLen]) value t)))"

definition IPv4Trie_Find :: "'a bitNode \<Rightarrow> string \<Rightarrow> 'a option" where
  "IPv4Trie_Find t ipStr =
     (case ParseAddr ipStr of
        None \<Rightarrow> None
      | Some a \<Rightarrow>
          (case Unmap a of
             IP6 _ _ \<Rightarrow> None
           | IP4 ip \<Rightarrow> findRoot (map (\<lambda>i. getBit32 ip i = 1) [0..<32]) t))"

subsection \<open>IPv6\<close>

record uint128 =
  u128_hi :: "64 word"
  u128_lo :: "64 word"

definition uint128_of :: "128 word \<Rightarrow> uint128" where
  "uint128_of w = \<lparr> u128_hi = ucast (drop_bit 64 w), u128_lo = ucast w \<rparr>"

definition getBit128 :: "uint128 \<Rightarrow> nat \<Rightarrow> 64 word" where
  "getBit128 v i =
     (if i < 64 then and (drop_bit (63 - i) (u128_hi v)) 1
      else and (drop_bit (63 - (i - 64)) (u128_lo v)) 1)"

definition parseIPv6OrCIDR :: "string \<Rightarrow> (uint128 \<times> nat) go" where
  "parseIPv6OrCIDR s =
     (case ParsePrefix s of
        Some p \<Rightarrow>
          (case Unmap (prefix_Addr p) of
             IP4 _ \<Rightarrow> Inl (Error ''non-IPv6 mask'')
           | IP6 ip _ \<Rightarrow> if prefix_Bits p > 128 then Inl (Error ''non-canonical mask'')
                         else Inr (uint128_of ip, prefix_Bits p))
      | None \<Rightarrow>
          (case ParseAddr s of
             Some a \<Rightarrow>
               (case Unmap a of
                  IP4 _ \<Rightarrow> Inl (Error ''invalid IPv6 address'')
                | IP6 ip _ \<Rightarrow> Inr (uint128_of ip, 128))
           | None \<Rightarrow> Inl (Error ''invalid IPv6 address or CIDR'')))"

definition NewIPv6Trie :: "'a bitNode" where
  "NewIPv6Trie = newBitNode"

definition IPv6Trie_Insert :: "'a bitNode \<Rightarrow> string \<Rightarrow> 'a \<Rightarrow> 'a bitNode go" where
  "IPv6Trie_Insert t prefix value =
     (if prefix = ''*'' then Inr (setRoot value t)
      else go_bind (parseIPv6OrCIDR prefix) (\<lambda>(ip, bitLen).
        Inr (insertBits (map (\<lambda>i. getBit128 ip i = 1) [0..<bitLen]) value t)))"

definition IPv6Trie_Find :: "'a bitNode \<Rightarrow> string \<Rightarrow> 'a option" where
  "IPv6Trie_Find t ipStr =
     (case ParseAddr ipStr of
        None \<Rightarrow> None
      | Some a \<Rightarrow>
          (case Unmap a of
             IP4 _ \<Rightarrow> None
           | IP6 ip _ \<Rightarrow> findRoot (map (\<lambda>i. getBit128 (uint128_of ip) i = 1) [0..<128]) t))"

section \<open>The domain trie\<close>

text \<open>\<^verbatim>\<open>labelNode\<close>: the children by label, the exact value and the wildcard value.\<close>

datatype 'a labelNode = LabelNode "(string \<times> 'a labelNode) list" "'a option" "'a option"

fun label_children :: "'a labelNode \<Rightarrow> (string \<times> 'a labelNode) list" where
  "label_children (LabelNode cs e w) = cs"

fun exactValue :: "'a labelNode \<Rightarrow> 'a option" where
  "exactValue (LabelNode cs e w) = e"

fun wildcardValue :: "'a labelNode \<Rightarrow> 'a option" where
  "wildcardValue (LabelNode cs e w) = w"

definition newLabelNode :: "'a labelNode" where
  "newLabelNode = LabelNode [] None None"

definition NewDomainMatcher :: "'a labelNode" where
  "NewDomainMatcher = newLabelNode"

text \<open>
  The labels in the order in which both loops visit them, from the last one; each with
  whether a dot precedes it (\<^verbatim>\<open>j != -1\<close>).  The loop runs while the rest is not empty, so the
  empty label before a leading dot is not visited.
\<close>

function label_steps :: "string \<Rightarrow> (string \<times> bool) list" where
  "label_steps s =
     (if s = [] then []
      else case last_index_byte (CHR ''.'') s of
             None \<Rightarrow> [(s, False)]
           | Some j \<Rightarrow> (drop (j + 1) s, True) # label_steps (take j s))"
  by pat_completeness auto
termination
  by (relation "measure length") (auto dest: last_index_byte_Some)

declare label_steps.simps [simp del]

fun insertLabels :: "string list \<Rightarrow> 'a \<Rightarrow> bool \<Rightarrow> bool \<Rightarrow> 'a labelNode \<Rightarrow> 'a labelNode" where
  "insertLabels [] v isWildcard isExact (LabelNode cs e w) =
     LabelNode cs (if isExact then Some v else e) (if isWildcard then Some v else w)"
| "insertLabels (l # ls) v isWildcard isExact (LabelNode cs e w) =
     (let node = (case map_of cs l of None \<Rightarrow> newLabelNode | Some c \<Rightarrow> c)
      in LabelNode (AList.update l (insertLabels ls v isWildcard isExact node) cs) e w)"

definition insertPattern :: "'a labelNode \<Rightarrow> string \<Rightarrow> 'a \<Rightarrow> bool \<Rightarrow> bool \<Rightarrow> 'a labelNode" where
  "insertPattern root pattern v isWildcard isExact =
     insertLabels (map fst (label_steps pattern)) v isWildcard isExact root"

definition DomainMatcher_Add :: "'a labelNode \<Rightarrow> string \<Rightarrow> 'a \<Rightarrow> 'a labelNode go" where
  "DomainMatcher_Add root pattern v =
     (if pattern = ''*'' then Inr (insertLabels [] v True False root)
      else if CHR ''.'' \<notin> set pattern then Inl (Error (''invalid pattern: '' @ pattern))
      else if HasPrefix pattern ''*.'' then Inr (insertPattern root (drop 2 pattern) v True False)
      else if HasPrefix pattern ''*'' then Inr (insertPattern root (drop 1 pattern) v True True)
      else Inr (insertPattern root pattern v False True))"

text \<open>
  The search loop: the node reached, the last wildcard candidate, and whether every label
  was found.
\<close>

fun findLabels :: "(string \<times> bool) list \<Rightarrow> 'a labelNode \<Rightarrow> 'a option \<Rightarrow> 'a labelNode \<times> 'a option \<times> bool" where
  "findLabels [] node candidate = (node, candidate, True)"
| "findLabels ((l, dot) # ls) node candidate =
     (case map_of (label_children node) l of
        None \<Rightarrow> (node, candidate, False)
      | Some child \<Rightarrow>
          findLabels ls child
            (if dot \<and> wildcardValue child \<noteq> None then wildcardValue child else candidate))"

definition DomainMatcher_Find :: "'a labelNode \<Rightarrow> string \<Rightarrow> 'a option" where
  "DomainMatcher_Find root domain =
     (let (node, candidate, fullyMatched) = findLabels (label_steps domain) root None
      in if fullyMatched \<and> exactValue node \<noteq> None then exactValue node
         else if candidate \<noteq> None then candidate
         else if wildcardValue root \<noteq> None then wildcardValue root
         else None)"

section \<open>Longest-prefix match\<close>

text \<open>
  The reference for the bit tries: of the rules \<open>(ip, bits, value)\<close>, in insertion order, whose
  first \<open>bits\<close> bits agree with the address, the one with the most bits, the later one on a tie.
\<close>

definition lpm_step :: "(nat \<Rightarrow> 'w \<Rightarrow> 'w \<Rightarrow> bool) \<Rightarrow> 'w \<Rightarrow> 'w \<times> nat \<times> 'a \<Rightarrow> (nat \<times> 'a) option \<Rightarrow> (nat \<times> 'a) option" where
  "lpm_step agree w = (\<lambda>(ip, n, v) best.
     if agree n ip w \<and> (case best of None \<Rightarrow> True | Some (m, _) \<Rightarrow> m \<le> n) then Some (n, v) else best)"

definition lpm :: "(nat \<Rightarrow> 'w \<Rightarrow> 'w \<Rightarrow> bool) \<Rightarrow> ('w \<times> nat \<times> 'a) list \<Rightarrow> 'w \<Rightarrow> 'a option" where
  "lpm agree rules w = map_option snd (fold (lpm_step agree w) rules None)"

text \<open>The value stored at a path.\<close>

fun lookupBits :: "bool list \<Rightarrow> 'a bitNode \<Rightarrow> 'a option" where
  "lookupBits [] n = bit_value n"
| "lookupBits (b # bs) n = (case children n b of None \<Rightarrow> None | Some c \<Rightarrow> lookupBits bs c)"

lemma lookup_new [simp]: "lookupBits bs newBitNode = None"
  by (cases bs) (auto simp: newBitNode_def)

lemma lookup_insert: "lookupBits q (insertBits p v t) = (if q = p then Some v else lookupBits q t)"
proof (induction p v t arbitrary: q rule: insertBits.induct)
  case (1 v l r x)
  then show ?case by (cases q) auto
next
  case (2 b bs v l r x)
  then show ?case
    by (cases q) (auto simp: Let_def split: option.split)
qed

text \<open>The largest index, up to a bound, at which a partial function is defined.\<close>

fun top_at :: "(nat \<Rightarrow> 'a option) \<Rightarrow> nat \<Rightarrow> (nat \<times> 'a) option" where
  "top_at f 0 = map_option (Pair 0) (f 0)"
| "top_at f (Suc n) = (case f (Suc n) of Some v \<Rightarrow> Some (Suc n, v) | None \<Rightarrow> top_at f n)"

lemma top_at_None: "top_at f n = None \<longleftrightarrow> (\<forall>k \<le> n. f k = None)"
  by (induction n) (auto simp: le_Suc_eq split: option.splits)

lemma top_at_empty [simp]: "top_at (\<lambda>_. None) n = None"
  by (simp add: top_at_None)

lemma top_at_le: "top_at f n = Some (k, v) \<Longrightarrow> k \<le> n \<and> f k = Some v"
  by (induction n) (auto split: option.splits)

lemma top_at_cong: "(\<And>k. k \<le> n \<Longrightarrow> f k = g k) \<Longrightarrow> top_at f n = top_at g n"
  by (induction n) (auto split: option.splits)

lemma top_at_update:
  assumes "k \<le> n"
  shows "top_at (f(k \<mapsto> v)) n =
    (case top_at f n of None \<Rightarrow> Some (k, v) | Some (m, u) \<Rightarrow> if m \<le> k then Some (k, v) else Some (m, u))"
  using assms
proof (induction n)
  case 0
  then show ?case by (auto split: option.split)
next
  case (Suc n)
  show ?case
  proof (cases "k = Suc n")
    case True
    then show ?thesis using top_at_le [of f n] by (fastforce split: option.split)
  next
    case False
    with Suc show ?thesis by (auto split: option.split)
  qed
qed

lemma top_at_shift:
  "top_at f (Suc n) = (case top_at (\<lambda>k. f (Suc k)) n of
     Some (k, v) \<Rightarrow> Some (Suc k, v) | None \<Rightarrow> map_option (Pair 0) (f 0))"
proof (induction n)
  case 0
  then show ?case by (auto split: option.split)
next
  case (Suc n)
  show ?case
    by (subst top_at.simps(2)) (simp add: Suc.IH del: top_at.simps(2) split: option.split, simp split: option.split)
qed

lemma lpm_top:
  assumes "\<And>ip n v. (ip, n, v) \<in> set rules \<Longrightarrow> agree n ip w \<Longrightarrow> n \<le> L"
  shows "fold (lpm_step agree w) rules None =
    top_at (fold (\<lambda>(ip, n, v) f. if agree n ip w then f(n \<mapsto> v) else f) rules (\<lambda>_. None)) L"
  using assms
proof (induction rules rule: rev_induct)
  case Nil
  then show ?case by simp
next
  case (snoc r rules)
  obtain ip n v where r: "r = (ip, n, v)" by (cases r)
  have IH: "fold (lpm_step agree w) rules None =
    top_at (fold (\<lambda>(ip, n, v) f. if agree n ip w then f(n \<mapsto> v) else f) rules (\<lambda>_. None)) L"
    by (rule snoc.IH) (use snoc.prems in auto)
  show ?case
  proof (cases "agree n ip w")
    case True
    then have "n \<le> L" using snoc.prems [of ip n v] r by simp
    have step: "lpm_step agree w r B = (case B of None \<Rightarrow> Some (n, v)
        | Some (m, u) \<Rightarrow> if m \<le> n then Some (n, v) else Some (m, u))" for B
      using True by (auto simp: r lpm_step_def split: option.split)
    show ?thesis
      unfolding fold_append comp_def fold_simps step IH top_at_update [OF \<open>n \<le> L\<close>, symmetric]
      by (simp add: r True fun_upd_def)
  next
    case False
    then have "lpm_step agree w r B = B" for B by (simp add: r lpm_step_def)
    then show ?thesis using False by (simp add: r IH)
  qed
qed

lemma findBits_top:
  "findBits bs t m = (case top_at (\<lambda>k. lookupBits (take k bs) t) (length bs) of Some (k, v) \<Rightarrow> Some v | None \<Rightarrow> m)"
proof (induction bs t m rule: findBits.induct)
  case (1 cur m)
  then show ?case by (simp split: option.split)
next
  case (2 b bs cur m)
  show ?case
  proof (cases "children cur b")
    case None
    have "top_at (\<lambda>k. lookupBits (take (Suc k) (b # bs)) cur) (length bs) = None"
      using None by (simp add: top_at_None)
    then show ?thesis unfolding list.size(4) add_Suc_right Nat.add_0_right
      by (subst top_at_shift) (simp add: None split: option.split)
  next
    case (Some c)
    have e: "top_at (\<lambda>k. lookupBits (take (Suc k) (b # bs)) cur) (length bs) =
        top_at (\<lambda>k. lookupBits (take k bs) c) (length bs)"
      using Some by (intro top_at_cong) simp
    show ?thesis unfolding list.size(4) add_Suc_right Nat.add_0_right
      by (subst top_at_shift) (simp add: Some e "2.IH" [OF refl Some] del: take_Suc_Cons split: option.split)
  qed
qed

lemma findRoot_top:
  "findRoot bs t = map_option snd (top_at (\<lambda>k. lookupBits (take k bs) t) (length bs))"
proof (cases "top_at (\<lambda>k. lookupBits (take k bs) t) (length bs)")
  case None
  then have "lookupBits (take 0 bs) t = None" unfolding top_at_None by blast
  with None show ?thesis by (simp add: findRoot_def findBits_top)
next
  case (Some r)
  then show ?thesis by (cases r) (simp add: findRoot_def findBits_top)
qed

text \<open>The first bits of an address, most significant first.\<close>

definition bit_path :: "('w \<Rightarrow> nat \<Rightarrow> bool) \<Rightarrow> 'w \<Rightarrow> nat \<Rightarrow> bool list" where
  "bit_path getbit w n = map (getbit w) [0..<n]"

locale bit_key =
  fixes width :: nat and getbit :: "'w \<Rightarrow> nat \<Rightarrow> bool" and agree :: "nat \<Rightarrow> 'w \<Rightarrow> 'w \<Rightarrow> bool"
  assumes agree_iff: "n \<le> width \<Longrightarrow> agree n a b \<longleftrightarrow> (\<forall>i < n. getbit a i = getbit b i)"
begin

definition build :: "('w \<times> nat \<times> 'a) list \<Rightarrow> 'a bitNode" where
  "build rules = fold (\<lambda>(ip, n, v). insertBits (bit_path getbit ip n) v) rules newBitNode"

lemma path_eq: "n \<le> width \<Longrightarrow> k \<le> width \<Longrightarrow> bit_path getbit w k = bit_path getbit ip n \<longleftrightarrow> k = n \<and> agree n ip w"
  by (auto simp: bit_path_def agree_iff list_eq_iff_nth_eq)

lemma take_path: "k \<le> n \<Longrightarrow> take k (bit_path getbit w n) = bit_path getbit w k"
  by (simp add: bit_path_def take_map)

lemma lookup_build:
  assumes "\<forall>(ip, n, v) \<in> set rules. n \<le> width" "k \<le> width"
  shows "lookupBits (bit_path getbit w k) (build rules) =
    fold (\<lambda>(ip, n, v) f. if agree n ip w then f(n \<mapsto> v) else f) rules (\<lambda>_. None) k"
  using assms(1)
proof (induction rules rule: rev_induct)
  case Nil
  then show ?case by (simp add: build_def)
next
  case (snoc r rules)
  obtain ip n v where r: "r = (ip, n, v)" by (cases r)
  from snoc have "lookupBits (bit_path getbit w k) (build rules) =
    fold (\<lambda>(ip, n, v) f. if agree n ip w then f(n \<mapsto> v) else f) rules (\<lambda>_. None) k" by simp
  moreover have "build (rules @ [r]) = insertBits (bit_path getbit ip n) v (build rules)" by (simp add: build_def r)
  ultimately show ?case using path_eq [of n k w ip] snoc.prems assms(2) by (auto simp: r lookup_insert)
qed

text \<open>The trie search is the longest-prefix match over the inserted rules.\<close>

theorem find_build:
  assumes "\<forall>(ip, n, v) \<in> set rules. n \<le> width"
  shows "findRoot (bit_path getbit w width) (build rules) = lpm agree rules w"
proof -
  have "top_at (\<lambda>k. lookupBits (take k (bit_path getbit w width)) (build rules)) width =
      top_at (fold (\<lambda>(ip, n, v) f. if agree n ip w then f(n \<mapsto> v) else f) rules (\<lambda>_. None)) width"
    by (rule top_at_cong) (simp add: take_path lookup_build [OF assms])
  also have "\<dots> = fold (lpm_step agree w) rules None"
    by (rule lpm_top [symmetric]) (use assms in auto)
  finally show ?thesis by (simp add: findRoot_top lpm_def bit_path_def)
qed

end

text \<open>Inserting a list of rules in order; the first rejected rule stops it.\<close>

fun insert_all :: "('t \<Rightarrow> string \<Rightarrow> 'a \<Rightarrow> 't go) \<Rightarrow> (string \<times> 'a) list \<Rightarrow> 't \<Rightarrow> 't go" where
  "insert_all ins [] t = Inr t"
| "insert_all ins ((p, v) # rules) t = go_bind (ins t p v) (insert_all ins rules)"

text \<open>The rules as the tries read them: pattern \<open>*\<close> is the empty prefix.\<close>

definition parsed_rules :: "(string \<Rightarrow> ('w \<times> nat) go) \<Rightarrow> (string \<times> 'a) list \<Rightarrow> ('w \<times> nat \<times> 'a) list" where
  "parsed_rules rule rules = map (\<lambda>(p, v). case rule p of Inr (ip, n) \<Rightarrow> (ip, n, v)) rules"

locale addr_trie = bit_key width getbit agree
  for width :: nat and getbit :: "'w \<Rightarrow> nat \<Rightarrow> bool" and agree :: "nat \<Rightarrow> 'w \<Rightarrow> 'w \<Rightarrow> bool" +
  fixes rule :: "string \<Rightarrow> ('w \<times> nat) go" and key :: "string \<Rightarrow> 'w option"
    and ins :: "'a bitNode \<Rightarrow> string \<Rightarrow> 'a \<Rightarrow> 'a bitNode go" and fnd :: "'a bitNode \<Rightarrow> string \<Rightarrow> 'a option"
  assumes rule_width: "rule s = Inr (ip, n) \<Longrightarrow> n \<le> width"
    and ins_rule: "ins t s v = go_bind (rule s) (\<lambda>(ip, n). Inr (insertBits (bit_path getbit ip n) v t))"
    and fnd_key: "fnd t s = Option.bind (key s) (\<lambda>w. findRoot (bit_path getbit w width) t)"
begin

lemma insert_all_build:
  assumes "insert_all ins rules t0 = Inr t"
  shows "t = fold (\<lambda>(ip, n, v). insertBits (bit_path getbit ip n) v) (parsed_rules rule rules) t0 \<and>
    (\<forall>(ip, n, v) \<in> set (parsed_rules rule rules). n \<le> width)"
  using assms
proof (induction rules arbitrary: t0)
  case Nil
  then show ?case by (simp add: parsed_rules_def)
next
  case (Cons r rules)
  obtain p v where r: "r = (p, v)" by (cases r)
  from Cons.prems obtain t1 where t1: "ins t0 p v = Inr t1" "insert_all ins rules t1 = Inr t"
    by (auto simp: r go_bind_Inr_iff)
  then obtain ip n where "rule p = Inr (ip, n)" "t1 = insertBits (bit_path getbit ip n) v t0"
    by (auto simp: ins_rule go_bind_Inr_iff)
  then show ?case using Cons.IH [OF t1(2)] rule_width by (auto simp: parsed_rules_def r)
qed

lemma fnd_insert_all:
  assumes "insert_all ins rules newBitNode = Inr t"
  shows "fnd t s = Option.bind (key s) (lpm agree (parsed_rules rule rules))"
proof -
  have "t = build (parsed_rules rule rules)" and "\<forall>(ip, n, v) \<in> set (parsed_rules rule rules). n \<le> width"
    using insert_all_build [OF assms] by (auto simp: build_def)
  then show ?thesis by (simp add: fnd_key find_build)
qed

end

lemma and_one_bit: "and (drop_bit k w) 1 = 1 \<longleftrightarrow> bit w k" for w :: "'a::len word"
  by (simp add: and_one_eq bit_iff_odd_drop_bit mod2_eq_if)

lemma drop_bit_agree:
  fixes a b :: "'a::len word"
  assumes "n \<le> LENGTH('a)"
  shows "drop_bit (LENGTH('a) - n) a = drop_bit (LENGTH('a) - n) b \<longleftrightarrow>
    (\<forall>i < n. bit a (LENGTH('a) - 1 - i) = bit b (LENGTH('a) - 1 - i))" (is "?l \<longleftrightarrow> ?r")
proof
  assume l: ?l
  show ?r
  proof (intro allI impI)
    fix i assume "i < n"
    with assms have "LENGTH('a) - 1 - i = (LENGTH('a) - n) + (n - 1 - i)" by linarith
    moreover have "bit (drop_bit (LENGTH('a) - n) a) (n - 1 - i) = bit (drop_bit (LENGTH('a) - n) b) (n - 1 - i)"
      by (simp only: l)
    ultimately show "bit a (LENGTH('a) - 1 - i) = bit b (LENGTH('a) - 1 - i)"
      by (simp add: bit_drop_bit_eq)
  qed
next
  assume r: ?r
  show ?l
  proof (rule bit_eqI)
    fix j
    show "bit (drop_bit (LENGTH('a) - n) a) j = bit (drop_bit (LENGTH('a) - n) b) j"
    proof (cases "j < n")
      case True
      then have "LENGTH('a) - 1 - (n - 1 - j) = (LENGTH('a) - n) + j" using assms by linarith
      with r [rule_format, of "n - 1 - j"] True show ?thesis by (simp add: bit_drop_bit_eq)
    next
      case False
      then have "\<not> (LENGTH('a) - n) + j < LENGTH('a)" using assms by linarith
      then show ?thesis using bit_imp_le_length by (fastforce simp: bit_drop_bit_eq)
    qed
  qed
qed

definition same_prefix32 :: "nat \<Rightarrow> 32 word \<Rightarrow> 32 word \<Rightarrow> bool" where
  "same_prefix32 n a b \<longleftrightarrow> drop_bit (32 - n) a = drop_bit (32 - n) b"

definition same_prefix128 :: "nat \<Rightarrow> 128 word \<Rightarrow> 128 word \<Rightarrow> bool" where
  "same_prefix128 n a b \<longleftrightarrow> drop_bit (128 - n) a = drop_bit (128 - n) b"

definition rule4 :: "string \<Rightarrow> (32 word \<times> nat) go" where
  "rule4 s = (if s = ''*'' then Inr (0, 0) else parseIPv4OrCIDR s)"

definition key4 :: "string \<Rightarrow> 32 word option" where
  "key4 s = (case ParseAddr s of None \<Rightarrow> None | Some a \<Rightarrow> (case Unmap a of IP4 w \<Rightarrow> Some w | IP6 _ _ \<Rightarrow> None))"

definition word_of_uint128 :: "uint128 \<Rightarrow> 128 word" where
  "word_of_uint128 u = or (push_bit 64 (ucast (u128_hi u))) (ucast (u128_lo u))"

definition rule6 :: "string \<Rightarrow> (128 word \<times> nat) go" where
  "rule6 s = (if s = ''*'' then Inr (0, 0)
     else go_bind (parseIPv6OrCIDR s) (\<lambda>(ip, n). Inr (word_of_uint128 ip, n)))"

definition key6 :: "string \<Rightarrow> 128 word option" where
  "key6 s = (case ParseAddr s of None \<Rightarrow> None | Some a \<Rightarrow> (case Unmap a of IP4 _ \<Rightarrow> None | IP6 w _ \<Rightarrow> Some w))"

lemma uint128_inverse [simp]: "uint128_of (word_of_uint128 u) = u"
proof -
  have "ucast (drop_bit 64 (word_of_uint128 u)) = u128_hi u"
    by (rule bit_word_eqI) (auto simp: word_of_uint128_def bit_simps dest: bit_imp_le_length)
  moreover have "ucast (word_of_uint128 u) = u128_lo u"
    by (rule bit_word_eqI) (auto simp: word_of_uint128_def bit_simps)
  ultimately show ?thesis by (simp add: uint128_of_def)
qed

lemma getBit32_bit: "i < 32 \<Longrightarrow> getBit32 w i = 1 \<longleftrightarrow> bit w (31 - i)"
  by (simp add: getBit32_def and_one_bit)

lemma getBit128_bit: "i < 128 \<Longrightarrow> getBit128 (uint128_of w) i = 1 \<longleftrightarrow> bit w (127 - i)"
  by (auto simp: getBit128_def and_one_bit uint128_of_def bit_simps)

interpretation trie4: addr_trie 32 "\<lambda>w i. getBit32 w i = 1" same_prefix32 rule4 key4 IPv4Trie_Insert IPv4Trie_Find
proof
  show "n \<le> 32 \<Longrightarrow> same_prefix32 n a b \<longleftrightarrow> (\<forall>i < n. (getBit32 a i = 1) = (getBit32 b i = 1))" for n a b
    using drop_bit_agree [of n a b] by (auto simp: same_prefix32_def getBit32_bit)
next
  show "rule4 s = Inr (ip, n) \<Longrightarrow> n \<le> 32" for s ip n
    by (auto simp: rule4_def parseIPv4OrCIDR_def split: if_splits option.splits addr.splits)
next
  have root: "setRoot v t = insertBits [] v t" for v and t :: "'a bitNode"
    by (cases t) (simp add: setRoot_def)
  show "IPv4Trie_Insert t s v = go_bind (rule4 s)
      (\<lambda>(ip, n). Inr (insertBits (bit_path (\<lambda>w i. getBit32 w i = 1) ip n) v t))" for t :: "'a bitNode" and s v
    by (simp add: IPv4Trie_Insert_def rule4_def root bit_path_def)
next
  show "IPv4Trie_Find t s = Option.bind (key4 s) (\<lambda>w. findRoot (bit_path (\<lambda>w i. getBit32 w i = 1) w 32) t)"
    for t :: "'a bitNode" and s
    by (simp add: IPv4Trie_Find_def key4_def bit_path_def split: option.split addr.split)
qed

interpretation trie6: addr_trie 128 "\<lambda>w i. getBit128 (uint128_of w) i = 1" same_prefix128 rule6 key6
  IPv6Trie_Insert IPv6Trie_Find
proof
  show "n \<le> 128 \<Longrightarrow> same_prefix128 n a b \<longleftrightarrow>
      (\<forall>i < n. (getBit128 (uint128_of a) i = 1) = (getBit128 (uint128_of b) i = 1))" for n a b
    using drop_bit_agree [of n a b] by (auto simp: same_prefix128_def getBit128_bit)
next
  show "rule6 s = Inr (ip, n) \<Longrightarrow> n \<le> 128" for s ip n
    by (auto simp: rule6_def parseIPv6OrCIDR_def split: if_splits option.splits addr.splits)
next
  have root: "setRoot v t = insertBits [] v t" for v and t :: "'a bitNode"
    by (cases t) (simp add: setRoot_def)
  show "IPv6Trie_Insert t s v = go_bind (rule6 s)
      (\<lambda>(ip, n). Inr (insertBits (bit_path (\<lambda>w i. getBit128 (uint128_of w) i = 1) ip n) v t))"
    for t :: "'a bitNode" and s v
    by (cases "parseIPv6OrCIDR s") (auto simp: IPv6Trie_Insert_def rule6_def root bit_path_def)
next
  show "IPv6Trie_Find t s =
      Option.bind (key6 s) (\<lambda>w. findRoot (bit_path (\<lambda>w i. getBit128 (uint128_of w) i = 1) w 128) t)"
    for t :: "'a bitNode" and s
    by (simp add: IPv6Trie_Find_def key6_def bit_path_def split: option.split addr.split)
qed

section \<open>Paths in the domain trie\<close>

fun node_at :: "string list \<Rightarrow> 'a labelNode \<Rightarrow> 'a labelNode option" where
  "node_at [] n = Some n"
| "node_at (l # ls) n = (case map_of (label_children n) l of None \<Rightarrow> None | Some c \<Rightarrow> node_at ls c)"

definition exactAt :: "string list \<Rightarrow> 'a labelNode \<Rightarrow> 'a option" where
  "exactAt ls t = Option.bind (node_at ls t) exactValue"

definition wildAt :: "string list \<Rightarrow> 'a labelNode \<Rightarrow> 'a option" where
  "wildAt ls t = Option.bind (node_at ls t) wildcardValue"

lemma at_simps [simp]:
  "exactAt [] t = exactValue t" "wildAt [] t = wildcardValue t"
  "exactAt (l # ls) t = Option.bind (map_of (label_children t) l) (exactAt ls)"
  "wildAt (l # ls) t = Option.bind (map_of (label_children t) l) (wildAt ls)"
  by (auto simp: exactAt_def wildAt_def split: option.splits)

lemma at_new [simp]: "exactAt ls newLabelNode = None" "wildAt ls newLabelNode = None"
  by (cases ls; simp add: newLabelNode_def)+

lemma at_insert:
  "exactAt q (insertLabels p v w e t) = (if q = p \<and> e then Some v else exactAt q t)"
  "wildAt q (insertLabels p v w e t) = (if q = p \<and> w then Some v else wildAt q t)"
proof (induction p v w e t arbitrary: q rule: insertLabels.induct)
  case (1 v w e cs ex wi)
  { case 1 show ?case by (cases q) auto next case 2 show ?case by (cases q) auto }
next
  case (2 l ls v w e cs ex wi)
  let ?n = "case map_of cs l of None \<Rightarrow> newLabelNode | Some c \<Rightarrow> c"
  { case 1 show ?case using "2.IH"(1) [OF refl] by (cases q) (auto simp: Let_def split: option.splits)
    next case 2 show ?case using "2.IH"(2) [OF refl] by (cases q) (auto simp: Let_def split: option.splits) }
qed

definition wild_steps :: "(string \<times> bool) list \<Rightarrow> 'a labelNode \<Rightarrow> nat \<Rightarrow> 'a option" where
  "wild_steps st t k = (if k = 0 \<or> \<not> snd (st ! (k - 1)) then None else wildAt (map fst (take k st)) t)"

lemma findLabels_node:
  "snd (snd (findLabels st t c)) \<Longrightarrow> node_at (map fst st) t = Some (fst (findLabels st t c))"
  "\<not> snd (snd (findLabels st t c)) \<Longrightarrow> node_at (map fst st) t = None"
  by (induction st t c rule: findLabels.induct) (auto split: option.splits)

lemma top_at_zero:
  "g 0 = None \<Longrightarrow> top_at (g(0 := x)) n = (case top_at g n of Some r \<Rightarrow> Some r | None \<Rightarrow> map_option (Pair 0) x)"
  by (induction n) (auto split: option.splits)

lemma findLabels_wild:
  "fst (snd (findLabels st t c)) =
    (case top_at (wild_steps st t) (length st) of Some (k, v) \<Rightarrow> Some v | None \<Rightarrow> c)"
proof (induction st t c rule: findLabels.induct)
  case (1 t c)
  then show ?case by (simp add: wild_steps_def)
next
  case (2 l dot ls t c)
  let ?st = "(l, dot) # ls"
  show ?case
  proof (cases "map_of (label_children t) l")
    case None
    have "top_at (wild_steps ?st t) (length ?st) = None"
      unfolding top_at_None using None by (auto simp: wild_steps_def take_Cons' )
    then show ?thesis using None by simp
  next
    case (Some ch)
    let ?g = "wild_steps ls ch" and ?x = "if dot then wildcardValue ch else None"
    have "wild_steps ?st t (Suc k) = (?g(0 := ?x)) k" for k
      using Some by (auto simp: wild_steps_def nth_Cons')
    then have "top_at (\<lambda>k. wild_steps ?st t (Suc k)) (length ls) = top_at (?g(0 := ?x)) (length ls)"
      by (intro top_at_cong) simp
    also have "\<dots> = (case top_at ?g (length ls) of Some r \<Rightarrow> Some r | None \<Rightarrow> map_option (Pair 0) ?x)"
      by (rule top_at_zero) (simp add: wild_steps_def)
    finally have top: "top_at (\<lambda>k. wild_steps ?st t (Suc k)) (length ls) =
      (case top_at ?g (length ls) of Some r \<Rightarrow> Some r | None \<Rightarrow> map_option (Pair 0) ?x)" .
    have z: "wild_steps ?st t 0 = None" by (simp add: wild_steps_def)
    have "top_at (wild_steps ?st t) (length ?st) =
      (case (case top_at ?g (length ls) of Some r \<Rightarrow> Some r | None \<Rightarrow> map_option (Pair 0) ?x) of
         Some (k, v) \<Rightarrow> Some (Suc k, v) | None \<Rightarrow> None)"
      unfolding list.size(4) add_Suc_right Nat.add_0_right top_at_shift [of "wild_steps ?st t"] top z option.map by (rule refl)
    then show ?thesis using "2.IH" [OF Some] Some by (auto split: option.splits)
  qed
qed

lemma Find_top:
  "DomainMatcher_Find t d =
    (case exactAt (map fst (label_steps d)) t of
       Some v \<Rightarrow> Some v
     | None \<Rightarrow> (case top_at (wild_steps (label_steps d) t) (length (label_steps d)) of
                  Some (k, v) \<Rightarrow> Some v
                | None \<Rightarrow> wildcardValue t))"
proof -
  obtain n c f where r: "findLabels (label_steps d) t None = (n, c, f)" by (cases "findLabels (label_steps d) t None")
  have "exactAt (map fst (label_steps d)) t = (if f then exactValue n else None)"
    using findLabels_node [of "label_steps d" t None] by (cases f) (simp_all add: r exactAt_def)
  moreover have "c = (case top_at (wild_steps (label_steps d) t) (length (label_steps d)) of Some (k, v) \<Rightarrow> Some v | None \<Rightarrow> None)"
    using findLabels_wild [of "label_steps d" t None] by (simp add: r)
  ultimately show ?thesis by (auto simp: DomainMatcher_Find_def r Let_def split: option.splits)
qed

abbreviation labels :: "string \<Rightarrow> string list" where
  "labels s \<equiv> map fst (label_steps s)"

definition no_lead_dot :: "string \<Rightarrow> bool" where
  "no_lead_dot s \<longleftrightarrow> \<not> HasPrefix s ''.''"

lemma no_lead_dot_iff: "no_lead_dot s \<longleftrightarrow> s = [] \<or> hd s \<noteq> CHR ''.''"
  by (cases s) (auto simp: no_lead_dot_def HasPrefix_def)

lemma label_steps_Nil [simp]: "label_steps [] = []"
  by (simp add: label_steps.simps)

lemma label_steps_nonempty: "label_steps s = [] \<longleftrightarrow> s = []"
  by (subst label_steps.simps) (auto split: option.split)

lemma last_index_byte_concat:
  "last_index_byte c (xs @ ys) =
    (case last_index_byte c ys of Some j \<Rightarrow> Some (length xs + j) | None \<Rightarrow> last_index_byte c xs)"
  by (induction xs) (auto split: option.splits)

lemma last_dot_split:
  assumes "last_index_byte (CHR ''.'') s = Some j" "no_lead_dot s"
  shows "take j s \<noteq> []" "no_lead_dot (take j s)" "s = take j s @ ''.'' @ drop (j + 1) s"
proof -
  note j = last_index_byte_Some [OF assms(1)]
  have "j \<noteq> 0" using j assms(2) by (cases s) (auto simp: no_lead_dot_iff intro!: gr0I)
  then show "take j s \<noteq> []" using j by (cases s) auto
  then show "no_lead_dot (take j s)" using assms(2) by (cases s; cases j) (auto simp: no_lead_dot_iff)
  show "s = take j s @ ''.'' @ drop (j + 1) s" using j by simp
qed

lemma label_flags:
  "s \<noteq> [] \<Longrightarrow> no_lead_dot s \<Longrightarrow> i < length (label_steps s) \<Longrightarrow>
   snd (label_steps s ! i) \<longleftrightarrow> Suc i < length (label_steps s)"
proof (induction s arbitrary: i rule: label_steps.induct)
  case (1 s)
  show ?case
  proof (cases "last_index_byte (CHR ''.'') s")
    case None
    with 1 show ?thesis by (simp add: label_steps.simps [of s])
  next
    case (Some j)
    note sp = last_dot_split [OF Some "1.prems"(2)]
    have st: "label_steps s = (drop (j + 1) s, True) # label_steps (take j s)"
      using "1.prems"(1) Some by (simp add: label_steps.simps [of s])
    show ?thesis
    proof (cases i)
      case 0
      then show ?thesis using st sp(1) label_steps_nonempty [of "take j s"] by simp
    next
      case (Suc i')
      then show ?thesis using "1.IH" [OF "1.prems"(1) Some sp(1,2), of i'] "1.prems"(3) by (simp add: st)
    qed
  qed
qed

lemma join_snoc: "xs \<noteq> [] \<Longrightarrow> join sep (xs @ [y]) = join sep xs @ sep @ y"
proof (induction xs)
  case (Cons x xs)
  then show ?case by (cases xs) auto
qed simp

lemma join_append: "xs \<noteq> [] \<Longrightarrow> ys \<noteq> [] \<Longrightarrow> join sep (xs @ ys) = join sep xs @ sep @ join sep ys"
proof (induction xs)
  case (Cons x xs)
  then show ?case by (cases xs; cases ys) auto
qed simp

text \<open>Joining the labels again gives the domain.\<close>

lemma labels_inverse: "no_lead_dot s \<Longrightarrow> join ''.'' (rev (labels s)) = s"
proof (induction s rule: label_steps.induct)
  case (1 s)
  show ?case
  proof (cases "s = []")
    case False
    show ?thesis
    proof (cases "last_index_byte (CHR ''.'') s")
      case None
      with False show ?thesis by (simp add: label_steps.simps [of s])
    next
      case (Some j)
      note sp = last_dot_split [OF Some "1.prems"]
      have st: "labels s = drop (j + 1) s # labels (take j s)"
        using False Some by (simp add: label_steps.simps [of s])
      have "labels (take j s) \<noteq> []" using sp(1) label_steps_nonempty by auto
      then show ?thesis
        unfolding st rev.simps by (subst join_snoc) (use "1.IH" [OF False Some sp(2)] sp(3) in auto)
    qed
  qed simp
qed

lemma labels_inj: "no_lead_dot a \<Longrightarrow> no_lead_dot b \<Longrightarrow> labels a = labels b \<longleftrightarrow> a = b"
  using labels_inverse by metis

lemma labels_sub:
  "b \<noteq> [] \<Longrightarrow> no_lead_dot b \<Longrightarrow> labels (x @ ''.'' @ b) = labels b @ labels x"
proof (induction b rule: label_steps.induct)
  case (1 b)
  show ?case
  proof (cases "last_index_byte (CHR ''.'') b")
    case None
    then have "last_index_byte (CHR ''.'') (x @ ''.'' @ b) = Some (length x)"
      using last_index_byte_append [of "CHR ''.''" b x] by (simp add: last_index_byte_None)
    with None "1.prems" show ?thesis
      by (simp add: label_steps.simps [of "x @ CHR ''.'' # b"] label_steps.simps [of b])
  next
    case (Some j)
    note sp = last_dot_split [OF Some "1.prems"(2)]
    have li: "last_index_byte (CHR ''.'') (x @ ''.'' @ b) = Some (length x + Suc j)"
      using Some by (simp add: last_index_byte_concat)
    have st: "labels b = drop (j + 1) b # labels (take j b)"
      using "1.prems"(1) Some by (simp add: label_steps.simps [of b])
    have "labels (x @ ''.'' @ b) = drop (j + 1) b # labels (x @ ''.'' @ take j b)"
      using li by (subst label_steps.simps) simp
    with "1.IH" [OF "1.prems"(1) Some sp(1,2)] show ?thesis by (simp add: st)
  qed
qed

definition HasSuffix :: "string \<Rightarrow> string \<Rightarrow> bool" where
  "HasSuffix s t \<longleftrightarrow> length t \<le> length s \<and> drop (length s - length t) s = t"

lemma HasSuffix_iff: "HasSuffix s t \<longleftrightarrow> (\<exists>x. s = x @ t)"
proof
  assume "HasSuffix s t"
  then have "s = take (length s - length t) s @ t" unfolding HasSuffix_def by (metis append_take_drop_id)
  then show "\<exists>x. s = x @ t" by blast
qed (auto simp: HasSuffix_def)

text \<open>The wildcard \<open>b\<close> covers the domains below \<open>b\<close>; the empty wildcard covers every domain.\<close>

definition sub_domain :: "nat \<Rightarrow> string \<Rightarrow> string \<Rightarrow> bool" where
  "sub_domain n b d \<longleftrightarrow> b = [] \<or> HasSuffix d (CHR ''.'' # b)"

lemma sub_domain_labels:
  assumes "no_lead_dot b" "no_lead_dot d"
  shows "sub_domain n b d \<longleftrightarrow> (\<exists>k \<le> length (labels d) - 1. labels b = take k (labels d))"
proof (cases "b = []")
  case True
  then show ?thesis by (auto simp: sub_domain_def intro: exI [of _ 0])
next
  case False
  show ?thesis
  proof
    assume "sub_domain n b d"
    then obtain x where d: "d = x @ ''.'' @ b" using False by (auto simp: sub_domain_def HasSuffix_iff)
    then have "x \<noteq> []" using assms(2) by (auto simp: no_lead_dot_iff)
    then have "labels x \<noteq> []" by (simp add: label_steps_nonempty)
    then have "length (labels b) \<le> length (labels d) - 1" unfolding d labels_sub [OF False assms(1)]
      by (cases "labels x") auto
    moreover have "labels b = take (length (labels b)) (labels d)"
      unfolding d labels_sub [OF False assms(1)] by simp
    ultimately show "\<exists>k \<le> length (labels d) - 1. labels b = take k (labels d)" by blast
  next
    assume "\<exists>k \<le> length (labels d) - 1. labels b = take k (labels d)"
    then obtain k where k: "k \<le> length (labels d) - 1" "labels b = take k (labels d)" by blast
    have ne: "labels b \<noteq> []" using False label_steps_nonempty by auto
    have k': "k < length (labels d)" using k ne by (cases "labels d") auto
    have "d = join ''.'' (rev (take k (labels d) @ drop k (labels d)))"
      using labels_inverse [OF assms(2)] by simp
    also have "\<dots> = join ''.'' (rev (drop k (labels d))) @ ''.'' @ join ''.'' (rev (labels b))"
      using k' ne k(2) by (simp only: rev_append) (subst join_append, auto)
    finally show "sub_domain n b d"
      using labels_inverse [OF assms(1)] by (auto simp: sub_domain_def HasSuffix_iff)
  qed
qed

text \<open>What a pattern stands for: the domain it names exactly, and the domain it covers below.\<close>

definition wild_body :: "string \<Rightarrow> string option" where
  "wild_body p = (if p = ''*'' then Some [] else if HasPrefix p ''*.'' then Some (drop 2 p)
     else if HasPrefix p ''*'' then Some (drop 1 p) else None)"

definition exact_body :: "string \<Rightarrow> string option" where
  "exact_body p = (if p = ''*'' \<or> HasPrefix p ''*.'' then None
     else if HasPrefix p ''*'' then Some (drop 1 p) else Some p)"

definition exact_rule :: "(string \<times> 'a) list \<Rightarrow> string \<Rightarrow> 'a option" where
  "exact_rule rules d = fold (\<lambda>(p, v) acc. if exact_body p = Some d then Some v else acc) rules None"

definition wild_rules :: "(string \<times> 'a) list \<Rightarrow> (string \<times> nat \<times> 'a) list" where
  "wild_rules rules = concat (map (\<lambda>(p, v). case wild_body p of
     None \<Rightarrow> [] | Some b \<Rightarrow> [(b, length (labels b), v)]) rules)"

definition domain_match :: "(string \<times> 'a) list \<Rightarrow> string \<Rightarrow> 'a option" where
  "domain_match rules d =
     (case exact_rule rules d of Some v \<Rightarrow> Some v | None \<Rightarrow> lpm sub_domain (wild_rules rules) d)"

definition plain_pattern :: "string \<Rightarrow> bool" where
  "plain_pattern p \<longleftrightarrow> (case wild_body p of Some b \<Rightarrow> no_lead_dot b | None \<Rightarrow> no_lead_dot p)"

lemma plain_patternD:
  "plain_pattern p \<Longrightarrow> wild_body p = Some b \<Longrightarrow> no_lead_dot b"
  "plain_pattern p \<Longrightarrow> exact_body p = Some b \<Longrightarrow> no_lead_dot b"
  by (auto simp: plain_pattern_def wild_body_def exact_body_def split: if_splits)

lemma Add_at:
  assumes "DomainMatcher_Add t0 p v = Inr t"
  shows "exactAt ls t = (if map_option labels (exact_body p) = Some ls then Some v else exactAt ls t0)"
    and "wildAt ls t = (if map_option labels (wild_body p) = Some ls then Some v else wildAt ls t0)"
  using assms
  by (auto simp: DomainMatcher_Add_def insertPattern_def at_insert at_insert [of "[]", simplified] wild_body_def
      exact_body_def split: if_splits)

lemma build_at:
  assumes "insert_all DomainMatcher_Add rules t0 = Inr t"
  shows "exactAt ls t =
      fold (\<lambda>(p, v) acc. if map_option labels (exact_body p) = Some ls then Some v else acc) rules (exactAt ls t0)"
    and "wildAt ls t =
      fold (\<lambda>(p, v) acc. if map_option labels (wild_body p) = Some ls then Some v else acc) rules (wildAt ls t0)"
  using assms
proof (induction rules arbitrary: t0)
  case (Cons r rules)
  obtain p v where r: "r = (p, v)" by (cases r)
  { case 1
    then obtain t1 where t1: "DomainMatcher_Add t0 p v = Inr t1" "insert_all DomainMatcher_Add rules t1 = Inr t"
      by (auto simp: r go_bind_Inr_iff)
    show ?case using Cons.IH(1) [OF t1(2)] Add_at(1) [OF t1(1), of ls] by (simp add: r)
  next
    case 2
    then obtain t1 where t1: "DomainMatcher_Add t0 p v = Inr t1" "insert_all DomainMatcher_Add rules t1 = Inr t"
      by (auto simp: r go_bind_Inr_iff)
    show ?case using Cons.IH(2) [OF t1(2)] Add_at(2) [OF t1(1), of ls] by (simp add: r) }
qed simp_all

lemma exact_rule_labels:
  assumes "\<forall>(p, v) \<in> set rules. plain_pattern p" "no_lead_dot d"
  shows "fold (\<lambda>(p, v) acc. if map_option labels (exact_body p) = Some (labels d) then Some v else acc) rules None
    = exact_rule rules d"
  unfolding exact_rule_def
proof (rule fold_cong [OF refl refl])
  fix r assume "r \<in> set rules"
  then obtain p v where r: "r = (p, v)" and p: "plain_pattern p" using assms(1) by (cases r) auto
  have "map_option labels (exact_body p) = Some (labels d) \<longleftrightarrow> exact_body p = Some d"
    using plain_patternD(2) [OF p] labels_inj assms(2) by (cases "exact_body p") auto
  then show "(case r of (p, v) \<Rightarrow> \<lambda>acc. if map_option labels (exact_body p) = Some (labels d) then Some v else acc) =
     (case r of (p, v) \<Rightarrow> \<lambda>acc. if exact_body p = Some d then Some v else acc)" by (simp add: r)
qed

lemma wild_rules_at:
  assumes "\<forall>(p, v) \<in> set rules. plain_pattern p" "no_lead_dot d" "k \<le> length (labels d) - 1"
  shows "fold (\<lambda>(b, n, v) f. if sub_domain n b d then f(n \<mapsto> v) else f) (wild_rules rules) (\<lambda>_. None) k =
    fold (\<lambda>(p, v) acc. if map_option labels (wild_body p) = Some (take k (labels d)) then Some v else acc) rules None"
  using assms(1)
proof (induction rules rule: rev_induct)
  case Nil
  then show ?case by (simp add: wild_rules_def)
next
  case (snoc r rules)
  obtain p v where r: "r = (p, v)" by (cases r)
  have IH: "fold (\<lambda>(b, n, v) f. if sub_domain n b d then f(n \<mapsto> v) else f) (wild_rules rules) (\<lambda>_. None) k =
    fold (\<lambda>(p, v) acc. if map_option labels (wild_body p) = Some (take k (labels d)) then Some v else acc) rules None"
    using snoc by simp
  show ?case
  proof (cases "wild_body p")
    case None
    then show ?thesis using IH by (simp add: wild_rules_def r)
  next
    case (Some b)
    have b: "no_lead_dot b" using snoc.prems plain_patternD(1) [OF _ Some] by (simp add: r)
    have len: "length (take j (labels d)) = j" if "j \<le> length (labels d) - 1" for j using that by simp
    have "sub_domain n b d \<and> length (labels b) = k \<longleftrightarrow> labels b = take k (labels d)" for n
      unfolding sub_domain_labels [OF b assms(2)] using assms(3) len by (metis length_map)
    then show ?thesis using IH Some by (auto simp: wild_rules_def r)
  qed
qed

lemma wild_top:
  assumes "no_lead_dot d"
  shows "(case top_at (wild_steps (label_steps d) t) (length (label_steps d)) of Some (k, v) \<Rightarrow> Some v | None \<Rightarrow> wildcardValue t)
    = map_option snd (top_at (\<lambda>k. wildAt (take k (labels d)) t) (length (labels d) - 1))"
proof (cases "d = []")
  case True
  then show ?thesis by (cases "wildcardValue t") (auto simp: wild_steps_def)
next
  case False
  let ?h = "\<lambda>k. wildAt (take k (labels d)) t"
  obtain m where m: "length (label_steps d) = Suc m"
    using label_steps_nonempty [of d] False by (cases "label_steps d") auto
  have "\<not> snd (label_steps d ! m)" using label_flags [OF False assms, of m] m by simp
  then have "top_at (wild_steps (label_steps d) t) (Suc m) = top_at (wild_steps (label_steps d) t) m"
    by (simp add: wild_steps_def)
  also have "\<dots> = top_at (?h(0 := None)) m"
    by (rule top_at_cong) (use label_flags [OF False assms] m in \<open>auto simp: wild_steps_def take_map\<close>)
  finally have "top_at (wild_steps (label_steps d) t) (length (label_steps d)) = top_at (?h(0 := None)) m"
    by (simp add: m)
  moreover have "top_at ?h m = (case top_at (?h(0 := None)) m of Some r \<Rightarrow> Some r | None \<Rightarrow> map_option (Pair 0) (?h 0))"
    using top_at_zero [of "?h(0 := None)" "?h 0" m] by (simp add: fun_upd_idem)
  ultimately show ?thesis by (simp add: m option.map_comp comp_def option.map_ident split: option.split)
qed

lemma Find_build:
  assumes "insert_all DomainMatcher_Add rules NewDomainMatcher = Inr t"
    and "\<forall>(p, v) \<in> set rules. plain_pattern p" "no_lead_dot d"
  shows "DomainMatcher_Find t d = domain_match rules d"
proof -
  have ex: "exactAt (labels d) t = exact_rule rules d"
    using build_at(1) [OF assms(1), of "labels d"] exact_rule_labels [OF assms(2,3)] by (simp add: NewDomainMatcher_def)
  have "top_at (\<lambda>k. wildAt (take k (labels d)) t) (length (labels d) - 1) =
      top_at (fold (\<lambda>(b, n, v) f. if sub_domain n b d then f(n \<mapsto> v) else f) (wild_rules rules) (\<lambda>_. None)) (length (labels d) - 1)"
    by (rule top_at_cong) (simp add: build_at(2) [OF assms(1)] wild_rules_at [OF assms(2,3)] NewDomainMatcher_def)
  also have "\<dots> = fold (lpm_step sub_domain d) (wild_rules rules) None"
  proof (rule lpm_top [symmetric])
    fix b n v assume "(b, n, v) \<in> set (wild_rules rules)" and s: "sub_domain n b d"
    then have n: "n = length (labels b)" and b: "no_lead_dot b"
      using assms(2) plain_patternD(1) by (fastforce simp: wild_rules_def split: option.splits)+
    from s obtain k where "k \<le> length (labels d) - 1" "labels b = take k (labels d)"
      unfolding sub_domain_labels [OF b assms(3)] by blast
    then show "n \<le> length (labels d) - 1" unfolding n by simp
  qed
  finally show ?thesis
    unfolding Find_top wild_top [OF assms(3)] ex domain_match_def lpm_def by (simp only:)
qed


section \<open>Properties\<close>

text \<open>
  C4: a domain matcher built from a list of patterns finds, for a domain, the value of the last
  pattern that names the domain exactly; without one, the value of the wildcard with the most
  labels below which the domain lies, the last added on a tie; \<^verbatim>\<open>*\<close> covers what remains.
\<close>

theorem DomainMatcher_correct:
  assumes "insert_all DomainMatcher_Add rules NewDomainMatcher = Inr t"
    and "\<forall>(p, v) \<in> set rules. plain_pattern p" and "no_lead_dot d"
  shows "DomainMatcher_Find t d = domain_match rules d"
  by (rule Find_build [OF assms])

theorem DomainMatcher_correct_witness:
  "\<exists>t. insert_all DomainMatcher_Add [(''*'', 0 :: nat), (''*.a.b'', 1), (''*x.a.b'', 2)] NewDomainMatcher = Inr t \<and>
     DomainMatcher_Find t ''y.x.a.b'' = Some 2 \<and> DomainMatcher_Find t ''z.a.b'' = Some 1"
proof -
  let ?r = "[(''*'', 0 :: nat), (''*.a.b'', 1), (''*x.a.b'', 2)]"
  obtain t where t: "insert_all DomainMatcher_Add ?r NewDomainMatcher = Inr t"
    by (simp add: DomainMatcher_Add_def HasPrefix_def)
  have p: "\<forall>(p, v) \<in> set ?r. plain_pattern p"
    by (simp add: plain_pattern_def wild_body_def HasPrefix_def no_lead_dot_def)
  have "no_lead_dot ''y.x.a.b''" "no_lead_dot ''z.a.b''" by (simp_all add: no_lead_dot_def HasPrefix_def)
  note c = DomainMatcher_correct [OF t p this(1)] DomainMatcher_correct [OF t p this(2)]
  have "domain_match ?r ''y.x.a.b'' = Some 2" "domain_match ?r ''z.a.b'' = Some 1"
    by (simp_all add: domain_match_def exact_rule_def exact_body_def wild_rules_def wild_body_def HasPrefix_def
        lpm_def lpm_step_def sub_domain_def HasSuffix_def label_steps.simps)
  with t c show ?thesis by auto
qed

text \<open>
  C5: an IPv4 trie built from a list of rules finds, for an address, the value of the rule with
  the longest prefix that contains the address, the last inserted on a tie, and nothing for
  a string that is not an IPv4 address (an IPv4-mapped IPv6 address counts as IPv4).
\<close>

theorem IPv4Trie_longest_prefix:
  assumes "insert_all IPv4Trie_Insert rules NewIPv4Trie = Inr t"
  shows "IPv4Trie_Find t s = Option.bind (key4 s) (lpm same_prefix32 (parsed_rules rule4 rules))"
  using trie4.fnd_insert_all assms by (simp add: NewIPv4Trie_def)

theorem IPv4Trie_longest_prefix_witness:
  "\<exists>t. insert_all IPv4Trie_Insert [(''*'', 0 :: nat), (''198.18.0.0/15'', 1)] NewIPv4Trie = Inr t \<and>
     IPv4Trie_Find t ''198.18.0.0'' = Some 1"
proof -
  let ?r = "[(''*'', 0 :: nat), (''198.18.0.0/15'', 1)]"
  have pp: "ParsePrefix ''198.18.0.0/15'' = Some \<lparr> prefix_Addr = IP4 0xC6120000, prefix_Bits = 15 \<rparr>"
    by (simp add: ParsePrefix_def ParseAddr_def parseIPv4_def netip_eval)
  have k: "key4 ''198.18.0.0'' = Some 0xC6120000"
    by (simp add: key4_def ParseAddr_def parseIPv4_def netip_eval)
  obtain t where t: "insert_all IPv4Trie_Insert ?r NewIPv4Trie = Inr t"
    by (simp add: IPv4Trie_Insert_def parseIPv4OrCIDR_def pp)
  have "lpm same_prefix32 (parsed_rules rule4 ?r) 0xC6120000 = Some 1"
    by (simp add: lpm_def lpm_step_def parsed_rules_def rule4_def parseIPv4OrCIDR_def pp same_prefix32_def)
  then show ?thesis using IPv4Trie_longest_prefix [OF t, of "''198.18.0.0''"] t k by auto
qed

text \<open>
  C6: the same for an IPv6 trie; IPv4 and IPv4-mapped addresses find nothing.
\<close>

theorem IPv6Trie_longest_prefix:
  assumes "insert_all IPv6Trie_Insert rules NewIPv6Trie = Inr t"
  shows "IPv6Trie_Find t s = Option.bind (key6 s) (lpm same_prefix128 (parsed_rules rule6 rules))"
  using trie6.fnd_insert_all assms by (simp add: NewIPv6Trie_def)

theorem IPv6Trie_longest_prefix_witness:
  "\<exists>t. insert_all IPv6Trie_Insert [(''*'', 0 :: nat)] NewIPv6Trie = Inr t \<and>
     IPv6Trie_Find t ''::'' = Some 0 \<and> IPv6Trie_Find t ''1.1.1.1'' = None"
proof -
  let ?r = "[(''*'', 0 :: nat)]"
  obtain t where t: "insert_all IPv6Trie_Insert ?r NewIPv6Trie = Inr t" by (simp add: IPv6Trie_Insert_def)
  have k: "key6 ''::'' = Some 0" "key6 ''1.1.1.1'' = None"
    by (simp_all add: key6_def ParseAddr_def parseIPv6_def parseIPv4_def v6_address_def replicate_numeral_Cons netip_eval)
  have "lpm same_prefix128 (parsed_rules rule6 ?r) 0 = Some 0"
    by (simp add: lpm_def lpm_step_def parsed_rules_def rule6_def same_prefix128_def)
  then show ?thesis
    using IPv6Trie_longest_prefix [OF t, of "''::''"] IPv6Trie_longest_prefix [OF t, of "''1.1.1.1''"] t k by auto
qed

end
