(* ===== verification/Rule_Match.thy ===== *)
theory Rule_Match
  imports Policy Addr_Trie
begin

text \<open>
  From the rules of the configuration to the matchers: \<^verbatim>\<open>expandPattern\<close> and \<^verbatim>\<open>splitByPipe\<close> of
  \<^verbatim>\<open>src/internal/utils.go\<close>, \<^verbatim>\<open>buildDomainMatcher\<close>, \<^verbatim>\<open>buildIPMatchers\<close> and \<^verbatim>\<open>getIPPolicy\<close> of
  \<^verbatim>\<open>src/internal/config.go\<close>.

  The locale \<open>dropping\<close> is the interface of an insertion whose errors the caller drops; it is
  interpreted for the three matchers.  The lemmas show what a pattern stands for and what the
  matchers find, as a function of the list of rules.
\<close>

section \<open>Patterns\<close>

text \<open>\<^verbatim>\<open>splitByPipe\<close>: the loop collects the characters of the current part.\<close>

fun splitPipeLoop :: "string \<Rightarrow> string list \<Rightarrow> string \<Rightarrow> string list" where
  "splitPipeLoop [] result cur = result @ [cur]"
| "splitPipeLoop (ch # s) result cur =
     (if ch = CHR ''|'' then splitPipeLoop s (result @ [cur]) []
      else splitPipeLoop s result (cur @ [ch]))"

definition splitByPipe :: "string \<Rightarrow> string list" where
  "splitByPipe s = (if s = [] then [[]] else splitPipeLoop s [] [])"

text \<open>The search for the closing parenthesis of the one at the start, from position \<open>i\<close> at depth \<open>depth\<close>.\<close>

fun findRight :: "string \<Rightarrow> nat \<Rightarrow> nat \<Rightarrow> nat option" where
  "findRight [] i depth = None"
| "findRight (c # s) i depth =
     (if c = CHR ''('' then findRight s (Suc i) (Suc depth)
      else if c = CHR '')'' then
        (if depth - 1 = 0 then Some i else findRight s (Suc i) (depth - 1))
      else findRight s (Suc i) depth)"

lemma findRight_bound: "findRight s i d = Some r \<Longrightarrow> i \<le> r \<and> r < i + length s"
  by (induction s i d rule: findRight.induct) (force split: if_splits)+

lemma index_byte_bound: "index_byte c s = Some i \<Longrightarrow> i < length s"
  by (induction s arbitrary: i) (auto split: if_splits)

function expandPattern :: "string \<Rightarrow> string list" where
  "expandPattern s =
     (case index_byte (CHR ''('') s of
        None \<Rightarrow> splitByPipe s
      | Some left \<Rightarrow>
          (case findRight (drop (left + 1) s) (left + 1) 1 of
             None \<Rightarrow> splitByPipe s
           | Some right \<Rightarrow>
               let prefix = take left s;
                   inner = take (right - (left + 1)) (drop (left + 1) s);
                   suffix = drop (right + 1) s;
                   parts = splitByPipe inner;
                   suffixResults = expandPattern suffix
               in concat (map (\<lambda>part. map (\<lambda>suff. prefix @ part @ suff) suffixResults) parts)))"
  by pat_completeness auto
termination
  by (relation "measure length") (auto dest!: findRight_bound)

declare expandPattern.simps [simp del]

definition isIPv6 :: "string \<Rightarrow> bool" where
  "isIPv6 ip \<longleftrightarrow> CHR '':'' \<in> set ip"

section \<open>Matchers\<close>

text \<open>An insertion whose error the caller drops.\<close>

definition ignoring :: "('t \<Rightarrow> string \<Rightarrow> 'a \<Rightarrow> 't go) \<Rightarrow> string \<Rightarrow> 'a \<Rightarrow> 't \<Rightarrow> 't" where
  "ignoring ins p v t = (case ins t p v of Inl _ \<Rightarrow> t | Inr t' \<Rightarrow> t')"

text \<open>
  The rules of the configuration are an association list: the order of the iteration over the
  Go map.
\<close>

definition buildDomainMatcher :: "(string \<times> Policy) list \<Rightarrow> Policy labelNode" where
  "buildDomainMatcher policies =
     fold (\<lambda>(patterns, policy) matcher.
       fold (\<lambda>elem matcher.
         fold (\<lambda>pattern matcher. ignoring DomainMatcher_Add pattern policy matcher) (expandPattern elem) matcher)
       (split_on (CHR '';'') patterns) matcher)
     policies NewDomainMatcher"

definition buildIPMatchers :: "(string \<times> Policy) list \<Rightarrow> Policy bitNode \<times> Policy bitNode" where
  "buildIPMatchers policies =
     fold (\<lambda>(patterns, policy) ms.
       fold (\<lambda>elem ms.
         fold (\<lambda>ipOrNet (ipv4, ipv6).
           if isIPv6 ipOrNet then (ipv4, ignoring IPv6Trie_Insert ipOrNet policy ipv6)
           else (ignoring IPv4Trie_Insert ipOrNet policy ipv4, ipv6)) (expandPattern elem) ms)
       (split_on (CHR '';'') patterns) ms)
     policies (NewIPv4Trie, NewIPv6Trie)"

definition getIPPolicy :: "Policy bitNode \<times> Policy bitNode \<Rightarrow> string \<Rightarrow> Policy option" where
  "getIPPolicy ms ip = (if isIPv6 ip then IPv6Trie_Find (snd ms) ip else IPv4Trie_Find (fst ms) ip)"

section \<open>What patterns stand for\<close>

lemma splitPipeLoop_split_on:
  "splitPipeLoop s result cur = result @ (cur @ hd (split_on (CHR ''|'') s)) # tl (split_on (CHR ''|'') s)"
  by (induction s result cur rule: splitPipeLoop.induct) (auto split: list.split)

lemma splitByPipe_split_on: "splitByPipe s = split_on (CHR ''|'') s"
  by (simp add: splitByPipe_def splitPipeLoop_split_on)

lemma split_on_free: "c \<notin> set s \<Longrightarrow> split_on c s = [s]"
  by (induction s) auto

lemma split_on_append: "c \<notin> set s \<Longrightarrow> split_on c (s @ c # r) = s # split_on c r"
  by (induction s) auto

lemma split_on_join:
  "xs \<noteq> [] \<Longrightarrow> list_all (\<lambda>x. c \<notin> set x) xs \<Longrightarrow> split_on c (join [c] xs) = xs"
  by (induction "[c]" xs rule: join.induct) (simp_all add: split_on_free split_on_append)

text \<open>
  A pattern with its structure: groups of a literal and alternatives in parentheses, followed by
  alternatives without parentheses.
\<close>

type_synonym pattern = "(string \<times> string list) list \<times> string list"

definition render_group :: "string \<times> string list \<Rightarrow> string" where
  "render_group g = fst g @ ''('' @ join ''|'' (snd g) @ '')''"

definition render :: "pattern \<Rightarrow> string" where
  "render p = concat (map render_group (fst p)) @ join ''|'' (snd p)"

fun words_of :: "(string \<times> string list) list \<Rightarrow> string list \<Rightarrow> string list" where
  "words_of [] tails = tails"
| "words_of ((pre, alts) # gs) tails = [pre @ alt @ w. alt \<leftarrow> alts, w \<leftarrow> words_of gs tails]"

definition plain_word :: "string \<Rightarrow> bool" where
  "plain_word w \<longleftrightarrow> CHR ''('' \<notin> set w \<and> CHR '')'' \<notin> set w \<and> CHR ''|'' \<notin> set w"

definition pattern_wf :: "pattern \<Rightarrow> bool" where
  "pattern_wf p \<longleftrightarrow>
     list_all (\<lambda>(pre, alts). CHR ''('' \<notin> set pre \<and> alts \<noteq> [] \<and> list_all plain_word alts) (fst p)
     \<and> snd p \<noteq> [] \<and> list_all plain_word (snd p)"

lemma index_byte_append: "c \<notin> set s \<Longrightarrow> index_byte c (s @ c # r) = Some (length s)"
  by (induction s) auto

lemma index_byte_free: "c \<notin> set s \<Longrightarrow> index_byte c s = None"
  by (induction s) auto

lemma findRight_append:
  "CHR ''('' \<notin> set s \<Longrightarrow> CHR '')'' \<notin> set s \<Longrightarrow> findRight (s @ CHR '')'' # r) i 1 = Some (i + length s)"
  by (induction s arbitrary: i) auto

lemma set_join_subset: "set (join sep xs) \<subseteq> set sep \<union> (\<Union> (set ` set xs))"
  by (induction sep xs rule: join.induct) auto

lemma plain_join:
  assumes "list_all plain_word xs"
  shows "CHR ''('' \<notin> set (join ''|'' xs)" "CHR '')'' \<notin> set (join ''|'' xs)"
proof -
  have "set (join ''|'' xs) \<subseteq> {CHR ''|''} \<union> (\<Union> (set ` set xs))"
    using set_join_subset [of "''|''" xs] by simp
  then show "CHR ''('' \<notin> set (join ''|'' xs)" "CHR '')'' \<notin> set (join ''|'' xs)"
    using assms by (force simp: plain_word_def list_all_iff)+
qed

lemma split_pipe_join: "xs \<noteq> [] \<Longrightarrow> list_all plain_word xs \<Longrightarrow> splitByPipe (join ''|'' xs) = xs"
  by (simp add: splitByPipe_split_on split_on_join plain_word_def list_all_iff)

lemma expand_group:
  assumes "CHR ''('' \<notin> set pre" "alts \<noteq> []" "list_all plain_word alts"
  shows "expandPattern (render_group (pre, alts) @ r) = [pre @ alt @ w. alt \<leftarrow> alts, w \<leftarrow> expandPattern r]"
proof -
  let ?j = "join ''|'' alts"
  have i: "index_byte (CHR ''('') (pre @ CHR ''('' # ?j @ CHR '')'' # r) = Some (length pre)"
    using assms(1) by (rule index_byte_append)
  have f: "findRight (?j @ CHR '')'' # r) (Suc (length pre)) 1 = Some (Suc (length pre) + length ?j)"
    using findRight_append plain_join [OF assms(3)] by blast
  show ?thesis
    unfolding expandPattern.simps [of "render_group (pre, alts) @ r"]
    by (simp add: render_group_def i f [simplified] Let_def split_pipe_join assms(2,3))
qed

lemma expandPattern_words:
  "list_all (\<lambda>(pre, alts). CHR ''('' \<notin> set pre \<and> alts \<noteq> [] \<and> list_all plain_word alts) gs \<Longrightarrow>
   tails \<noteq> [] \<Longrightarrow> list_all plain_word tails \<Longrightarrow>
   expandPattern (concat (map render_group gs) @ join ''|'' tails) = words_of gs tails"
proof (induction gs)
  case Nil
  then show ?case
    by (simp add: expandPattern.simps [of "join ''|'' tails"] index_byte_free plain_join split_pipe_join)
next
  case (Cons g gs)
  then show ?case by (cases g) (simp add: expand_group)
qed

text \<open>
  C14: Expanding a pattern gives every word it stands for, in order: each group contributes its literal
  and one of its alternatives, and the alternatives behind the last group end the word.
\<close>

theorem expandPattern_correct:
  assumes "pattern_wf p"
  shows "expandPattern (render p) = words_of (fst p) (snd p)"
  using assms expandPattern_words by (simp add: pattern_wf_def render_def)

theorem expandPattern_correct_witness:
  "expandPattern ''a.(com|net).b(1|2)x'' = [''a.com.b1x'', ''a.com.b2x'', ''a.net.b1x'', ''a.net.b2x'']"
proof -
  let ?p = "([(''a.'', [''com'', ''net'']), (''.b'', [''1'', ''2''])], [''x''])"
  have "expandPattern (render ?p) = words_of (fst ?p) (snd ?p)"
    by (rule expandPattern_correct) (simp add: pattern_wf_def plain_word_def)
  then show ?thesis by (simp add: render_def render_group_def)
qed

section \<open>What the matchers find\<close>

text \<open>The rules of the configuration, one per pattern, in the order they are added.\<close>

definition config_rules :: "(string \<times> Policy) list \<Rightarrow> (string \<times> Policy) list" where
  "config_rules policies =
     concat (map (\<lambda>(patterns, policy).
       map (\<lambda>p. (p, policy)) (concat (map expandPattern (split_on (CHR '';'') patterns)))) policies)"

lemma fold_concat_map: "fold (\<lambda>x. fold f (g x)) xs = fold f (concat (map g xs))"
  by (induction xs) (auto simp: fun_eq_iff)

lemma buildDomainMatcher_rules:
  "buildDomainMatcher policies = fold (\<lambda>(p, v). ignoring DomainMatcher_Add p v) (config_rules policies) NewDomainMatcher"
  unfolding buildDomainMatcher_def config_rules_def fold_concat_map [symmetric]
  by (intro arg_cong2 [where f = "\<lambda>f. fold f policies"] ext refl)
    (auto simp: fold_concat_map fold_map comp_def)

lemma fold_split:
  "fold (\<lambda>(p, v) (a, b). if P p then (a, g p v b) else (f p v a, b)) rs (a0, b0) =
    (fold (\<lambda>(p, v). f p v) (filter (\<lambda>r. \<not> P (fst r)) rs) a0, fold (\<lambda>(p, v). g p v) (filter (\<lambda>r. P (fst r)) rs) b0)"
  by (induction rs arbitrary: a0 b0) auto

lemma buildIPMatchers_rules:
  "buildIPMatchers policies =
    (fold (\<lambda>(p, v). ignoring IPv4Trie_Insert p v) (filter (\<lambda>r. \<not> isIPv6 (fst r)) (config_rules policies)) NewIPv4Trie,
     fold (\<lambda>(p, v). ignoring IPv6Trie_Insert p v) (filter (\<lambda>r. isIPv6 (fst r)) (config_rules policies)) NewIPv6Trie)"
proof -
  have "buildIPMatchers policies =
    fold (\<lambda>(p, v) (a, b). if isIPv6 p then (a, ignoring IPv6Trie_Insert p v b) else (ignoring IPv4Trie_Insert p v a, b))
      (config_rules policies) (NewIPv4Trie, NewIPv6Trie)"
    unfolding buildIPMatchers_def config_rules_def fold_concat_map [symmetric]
    by (intro arg_cong2 [where f = "\<lambda>f. fold f policies"] ext refl)
      (auto simp: fold_concat_map fold_map comp_def)
  then show ?thesis by (simp add: fold_split)
qed

text \<open>
  An insertion that depends on the pattern only, with its error dropped, builds what the accepted
  patterns build.
\<close>

locale dropping =
  fixes ins :: "'t \<Rightarrow> string \<Rightarrow> 'a \<Rightarrow> 't go" and accepts :: "string \<Rightarrow> bool"
  assumes accepts_iff: "accepts p \<longleftrightarrow> (\<exists>t'. ins t p v = Inr t')"
begin

lemma fold_ignoring:
  "insert_all ins (filter (\<lambda>r. accepts (fst r)) rules) t = Inr (fold (\<lambda>(p, v). ignoring ins p v) rules t)"
proof (induction rules arbitrary: t)
  case (Cons r rules)
  obtain p v where r: "r = (p, v)" by (cases r)
  show ?case
  proof (cases "ins t p v")
    case (Inl e)
    then have "\<not> accepts p" using accepts_iff [of p t v] by simp
    with Inl Cons show ?thesis by (simp add: r ignoring_def)
  next
    case (Inr t')
    then have "accepts p" using accepts_iff [of p t v] by simp
    with Inr Cons show ?thesis by (simp add: r ignoring_def)
  qed
qed simp

end

definition accepts_domain :: "string \<Rightarrow> bool" where
  "accepts_domain p \<longleftrightarrow> p = ''*'' \<or> CHR ''.'' \<in> set p"

definition accepts4 :: "string \<Rightarrow> bool" where
  "accepts4 p \<longleftrightarrow> (case rule4 p of Inr _ \<Rightarrow> True | Inl _ \<Rightarrow> False)"

definition accepts6 :: "string \<Rightarrow> bool" where
  "accepts6 p \<longleftrightarrow> (case rule6 p of Inr _ \<Rightarrow> True | Inl _ \<Rightarrow> False)"

interpretation domain_rules: dropping DomainMatcher_Add accepts_domain
  by unfold_locales (auto simp: accepts_domain_def DomainMatcher_Add_def)

interpretation rules4: dropping IPv4Trie_Insert accepts4
  by unfold_locales (auto simp: accepts4_def trie4.ins_rule go_bind_Inr_iff split: sum.splits)

interpretation rules6: dropping IPv6Trie_Insert accepts6
  by unfold_locales (auto simp: accepts6_def trie6.ins_rule go_bind_Inr_iff split: sum.splits)

text \<open>What the matchers find is a policy of the configuration.\<close>

lemma top_at_value: "top_at f n = Some (k, v) \<Longrightarrow> f k = Some v"
  by (induction n) (auto split: option.splits)

lemma Find_value:
  assumes "DomainMatcher_Find t d = Some v"
  shows "\<exists>ls. exactAt ls t = Some v \<or> wildAt ls t = Some v"
proof -
  have "\<exists>ls. wildAt ls t = Some v" if "top_at (wild_steps (label_steps d) t) n = Some (k, v)" for n k
    using top_at_value [OF that] by (auto simp: wild_steps_def split: if_splits)
  moreover have "\<exists>ls. wildAt ls t = Some v" if "wildcardValue t = Some v"
    using that by (intro exI [of _ "[]"]) simp
  ultimately show ?thesis using assms unfolding Find_top by (auto split: option.splits)
qed

lemma fold_last_value:
  "fold (\<lambda>(p, v) acc. if P p then Some v else acc) rules None = Some x \<Longrightarrow> x \<in> snd ` set rules"
  by (induction rules rule: rev_induct) (auto split: if_splits)

lemma config_rules_values: "snd ` set (config_rules policies) \<subseteq> snd ` set policies"
  by (force simp: config_rules_def)

lemma buildDomainMatcher_value:
  assumes "DomainMatcher_Find (buildDomainMatcher policies) d = Some v"
  shows "v \<in> snd ` set policies"
proof -
  let ?rules = "filter (\<lambda>r. accepts_domain (fst r)) (config_rules policies)"
  have b: "insert_all DomainMatcher_Add ?rules NewDomainMatcher = Inr (buildDomainMatcher policies)"
    unfolding buildDomainMatcher_rules by (rule domain_rules.fold_ignoring)
  obtain ls where "exactAt ls (buildDomainMatcher policies) = Some v \<or> wildAt ls (buildDomainMatcher policies) = Some v"
    using Find_value [OF assms] by blast
  then have "v \<in> snd ` set ?rules"
    unfolding build_at [OF b] by (auto simp: NewDomainMatcher_def dest!: fold_last_value)
  then show ?thesis using config_rules_values [of policies] by auto
qed

lemma lpm_value: "lpm agree rules w = Some v \<Longrightarrow> v \<in> (\<lambda>(ip, n, v). v) ` set rules"
proof -
  have "\<forall>n v. fold (lpm_step agree w) rules None = Some (n, v) \<longrightarrow> v \<in> (\<lambda>(ip, n, v). v) ` set rules"
    by (induction rules rule: rev_induct) (auto simp: lpm_step_def split: if_splits)
  then show "lpm agree rules w = Some v \<Longrightarrow> v \<in> (\<lambda>(ip, n, v). v) ` set rules" by (auto simp: lpm_def)
qed

lemma parsed_rules_values:
  assumes "\<And>r. r \<in> set rules \<Longrightarrow> (case rule (fst r) of Inr _ \<Rightarrow> True | Inl _ \<Rightarrow> False)"
  shows "(\<lambda>(ip, n, v). v) ` set (parsed_rules rule rules) \<subseteq> snd ` set rules"
  using assms by (force simp: parsed_rules_def split: sum.splits)

lemma getIPPolicy_value:
  assumes "getIPPolicy (buildIPMatchers policies) ip = Some v"
  shows "v \<in> snd ` set policies"
proof -
  note r4 = trie4.fnd_insert_all [OF rules4.fold_ignoring] and r6 = trie6.fnd_insert_all [OF rules6.fold_ignoring]
  let ?r4 = "filter (\<lambda>r. accepts4 (fst r)) (filter (\<lambda>r. \<not> isIPv6 (fst r)) (config_rules policies))"
  let ?r6 = "filter (\<lambda>r. accepts6 (fst r)) (filter (\<lambda>r. isIPv6 (fst r)) (config_rules policies))"
  have "(\<exists>w. lpm same_prefix32 (parsed_rules rule4 ?r4) w = Some v) \<or> (\<exists>w. lpm same_prefix128 (parsed_rules rule6 ?r6) w = Some v)"
    using assms unfolding getIPPolicy_def buildIPMatchers_rules NewIPv4Trie_def NewIPv6Trie_def fst_conv snd_conv r4 r6
    by (auto split: if_splits Option.bind_splits)
  then have "v \<in> snd ` set ?r4 \<or> v \<in> snd ` set ?r6"
    using parsed_rules_values [of ?r4 rule4] parsed_rules_values [of ?r6 rule6]
    by (auto simp: accepts4_def accepts6_def dest!: lpm_value)
  then show ?thesis using config_rules_values [of policies] by auto
qed

text \<open>
  C15: The domain matcher built from the configuration finds the policy of the best matching pattern
  among the patterns it accepts: the last exact one, then the wildcard with the most labels.
  Patterns the matcher refuses are dropped without notice.
\<close>

theorem buildDomainMatcher_correct:
  assumes "\<forall>(p, v) \<in> set (config_rules policies). plain_pattern p" and "no_lead_dot d"
  shows "DomainMatcher_Find (buildDomainMatcher policies) d =
    domain_match (filter (\<lambda>r. accepts_domain (fst r)) (config_rules policies)) d"
  using assms domain_rules.fold_ignoring unfolding buildDomainMatcher_rules by (intro Find_build) auto

text \<open>
  C16: The policy of an address is that of the rule with the longest prefix, among the rules of its
  family that parse: a rule belongs to the IPv6 matcher exactly if it contains a colon, so the rule
  for every address stands for IPv4 addresses only.
\<close>

theorem getIPPolicy_correct:
  "getIPPolicy (buildIPMatchers policies) ip =
    (if isIPv6 ip then Option.bind (key6 ip) (lpm same_prefix128 (parsed_rules rule6
       (filter (\<lambda>r. isIPv6 (fst r) \<and> accepts6 (fst r)) (config_rules policies))))
     else Option.bind (key4 ip) (lpm same_prefix32 (parsed_rules rule4
       (filter (\<lambda>r. \<not> isIPv6 (fst r) \<and> accepts4 (fst r)) (config_rules policies)))))"
  by (simp add: getIPPolicy_def buildIPMatchers_rules NewIPv4Trie_def NewIPv6Trie_def
      trie4.fnd_insert_all [OF rules4.fold_ignoring] trie6.fnd_insert_all [OF rules6.fold_ignoring])

theorem buildDomainMatcher_correct_witness:
  "DomainMatcher_Find (buildDomainMatcher [(''*.a.b;x'', zeroPolicy), (''(c|d).a.b'', unsetPolicy)]) ''d.a.b'' = Some unsetPolicy"
proof -
  let ?ps = "[(''*.a.b;x'', zeroPolicy), (''(c|d).a.b'', unsetPolicy)]"
  have r: "config_rules ?ps = [(''*.a.b'', zeroPolicy), (''x'', zeroPolicy), (''c.a.b'', unsetPolicy), (''d.a.b'', unsetPolicy)]"
    by (simp add: config_rules_def expandPattern.simps splitByPipe_def Let_def)
  have "DomainMatcher_Find (buildDomainMatcher ?ps) ''d.a.b'' =
      domain_match (filter (\<lambda>r. accepts_domain (fst r)) (config_rules ?ps)) ''d.a.b''"
    by (rule buildDomainMatcher_correct)
      (simp_all add: r plain_pattern_def wild_body_def HasPrefix_def no_lead_dot_def)
  also have "\<dots> = Some unsetPolicy"
    by (simp add: r accepts_domain_def domain_match_def exact_rule_def exact_body_def HasPrefix_def)
  finally show ?thesis .
qed

end
