(* ===== verification/Gfw_List.thy ===== *)
theory Gfw_List
  imports Rule_Match "HOL-Library.List_Lexorder" "HOL-Library.Char_ord"
begin

text \<open>
  The built-in list of blocked hosts, \<^verbatim>\<open>src/internal/gfwlist.go\<close>: decoding it, reducing its rules to
  hosts, loading the two matchers, and the test of a domain against them.

  \<^verbatim>\<open>SplitHostPort\<close>, base64 and the host regular expression are written out for the inputs the code
  has; the host of \<^verbatim>\<open>url.Parse\<close> is the parameter \<open>parseURLHost\<close>.  The sets of patterns are lists.
\<close>

section \<open>Library functions\<close>

text \<open>\<^verbatim>\<open>net.SplitHostPort\<close>.\<close>

definition SplitHostPort :: "string \<Rightarrow> (string \<times> string) go" where
  "SplitHostPort hostport =
     (case last_index_byte (CHR '':'') hostport of
        None \<Rightarrow> Inl (Error ''missing port in address'')
      | Some i \<Rightarrow>
          let rest = (\<lambda>host j k.
                if CHR ''['' \<in> set (drop j hostport) then Inl (Error ''unexpected '[' in address'')
                else if CHR '']'' \<in> set (drop k hostport) then Inl (Error ''unexpected ']' in address'')
                else Inr (host, drop (i + 1) hostport))
          in if hd hostport = CHR ''['' then
               (case index_byte (CHR '']'') hostport of
                  None \<Rightarrow> Inl (Error ''missing ']' in address'')
                | Some e \<Rightarrow>
                    if e + 1 = length hostport then Inl (Error ''missing port in address'')
                    else if e + 1 = i then rest (take (e - 1) (drop 1 hostport)) 1 (e + 1)
                    else if hostport ! (e + 1) = CHR '':'' then Inl (Error ''too many colons in address'')
                    else Inl (Error ''missing port in address''))
             else if CHR '':'' \<in> set (take i hostport) then Inl (Error ''too many colons in address'')
             else rest (take i hostport) 0 0)"

text \<open>\<^verbatim>\<open>strings.Trim\<close> and \<^verbatim>\<open>strings.TrimLeft\<close> with a set of ASCII characters, \<^verbatim>\<open>strings.Contains\<close>.\<close>

definition TrimLeft :: "string \<Rightarrow> string \<Rightarrow> string" where
  "TrimLeft s cutset = dropWhile (\<lambda>c. c \<in> set cutset) s"

definition Trim :: "string \<Rightarrow> string \<Rightarrow> string" where
  "Trim s cutset = rev (dropWhile (\<lambda>c. c \<in> set cutset) (rev (TrimLeft s cutset)))"

fun ContainsSub :: "string \<Rightarrow> string \<Rightarrow> bool" where
  "ContainsSub [] t \<longleftrightarrow> t = []"
| "ContainsSub (c # s) t \<longleftrightarrow> HasPrefix (c # s) t \<or> ContainsSub s t"

text \<open>\<^verbatim>\<open>base64.StdEncoding.DecodeString\<close>; the input has no line breaks.\<close>

definition base64_val :: "char \<Rightarrow> nat option" where
  "base64_val c = (let n = (of_char c :: nat) in
     if 65 \<le> n \<and> n \<le> 90 then Some (n - 65)
     else if 97 \<le> n \<and> n \<le> 122 then Some (n - 71)
     else if 48 \<le> n \<and> n \<le> 57 then Some (n + 4)
     else if n = 43 then Some 62 else if n = 47 then Some 63 else None)"

definition quad_chars :: "nat \<Rightarrow> nat \<Rightarrow> nat \<Rightarrow> nat \<Rightarrow> string" where
  "quad_chars a b c d = (let v = ((a * 64 + b) * 64 + c) * 64 + d in
     [char_of (v div 65536), char_of (v div 256 mod 256), char_of (v mod 256)])"

fun base64_decode :: "string \<Rightarrow> string option" where
  "base64_decode [] = Some []"
| "base64_decode (w # x # y # z # s) =
     (case (base64_val w, base64_val x) of
        (Some a, Some b) \<Rightarrow>
          if y = CHR ''='' then (if z = CHR ''='' \<and> s = [] then Some (take 1 (quad_chars a b 0 0)) else None)
          else (case base64_val y of
                  None \<Rightarrow> None
                | Some c \<Rightarrow>
                    if z = CHR ''='' then (if s = [] then Some (take 2 (quad_chars a b c 0)) else None)
                    else (case base64_val z of
                            None \<Rightarrow> None
                          | Some d \<Rightarrow> map_option (\<lambda>r. quad_chars a b c d @ r) (base64_decode s)))
      | _ \<Rightarrow> None)"
| "base64_decode _ = None"

section \<open>The host pattern\<close>

text \<open>
  The regular expression of \<^verbatim>\<open>gfwHostRegexp\<close>: two or more labels joined by dots, where a label is at
  most 63 letters, digits and hyphens and neither begins nor ends with a hyphen.  As a label
  contains no dot, a label that is followed by another one extends to the dot; the last one is as
  long as possible.
\<close>

definition is_alnum :: "char \<Rightarrow> bool" where
  "is_alnum c \<longleftrightarrow> (let n = (of_char c :: nat) in 97 \<le> n \<and> n \<le> 122 \<or> 48 \<le> n \<and> n \<le> 57)"

definition label_char :: "char \<Rightarrow> bool" where
  "label_char c \<longleftrightarrow> is_alnum c \<or> c = CHR ''-''"

definition is_label :: "string \<Rightarrow> bool" where
  "is_label l \<longleftrightarrow> l \<noteq> [] \<and> length l \<le> 63 \<and> list_all label_char l \<and> is_alnum (hd l) \<and> is_alnum (last l)"

definition last_label :: "string \<Rightarrow> string" where
  "last_label run = rev (dropWhile (\<lambda>c. \<not> is_alnum c) (rev (take 63 run)))"

lemma tl_dropWhile_less: "dropWhile P s \<noteq> [] \<Longrightarrow> length (tl (dropWhile P s)) < length s"
  using length_dropWhile_le [of P s] by (cases "dropWhile P s") auto

function match_labels :: "string \<Rightarrow> string list option" where
  "match_labels s =
     (let run = takeWhile label_char s; rest = dropWhile label_char s;
          final = (if run \<noteq> [] \<and> is_alnum (hd run) then Some [last_label run] else None)
      in if is_label run \<and> rest \<noteq> [] \<and> hd rest = CHR ''.''
         then (case match_labels (tl rest) of Some ls \<Rightarrow> Some (run # ls) | None \<Rightarrow> final)
         else final)"
  by pat_completeness auto
termination
  by (relation "measure length") (auto intro!: tl_dropWhile_less simp del: length_tl)

declare match_labels.simps [simp del]

text \<open>The leftmost match.\<close>

fun FindString :: "string \<Rightarrow> string" where
  "FindString [] = []"
| "FindString (c # s) =
     (case match_labels (c # s) of
        Some (l # l' # ls) \<Rightarrow> join ''.'' (l # l' # ls)
      | _ \<Rightarrow> FindString s)"

section \<open>Rules\<close>

text \<open>\<open>parseURLHost\<close> is the host of \<^verbatim>\<open>url.Parse\<close>, if that accepts the rule.\<close>

definition extractGFWListHost :: "(string \<Rightarrow> string option) \<Rightarrow> string \<Rightarrow> string option" where
  "extractGFWListHost parseURLHost rule0 =
     (let rule1 = TrimSpace rule0 in
      if rule1 = [] then None
      else
        let rule2 = takeWhile (\<lambda>c. c \<noteq> CHR ''^'' \<and> c \<noteq> CHR ''$'') rule1;
            rule3 = TrimLeft rule2 ''|.''
        in if rule3 = [] then None
           else
             let rule4 = (if ContainsSub rule3 ''://'' then
                            (case parseURLHost rule3 of
                               Some h \<Rightarrow> if h \<noteq> [] then h else rule3
                             | None \<Rightarrow> rule3)
                          else rule3);
                 rule5 = Trim rule4 ''*./'';
                 rule6 = (case SplitHostPort rule5 of Inr (host, _) \<Rightarrow> host | Inl _ \<Rightarrow> rule5);
                 m = FindString (ToLower rule6)
             in if m = [] \<or> ParseIP m \<noteq> None then None else Some (Trim m ''.''))"

definition normalizeGFWListRule :: "(string \<Rightarrow> string option) \<Rightarrow> string \<Rightarrow> string option" where
  "normalizeGFWListRule parseURLHost rule0 =
     (let rule = TrimSpace rule0 in
      if rule = [] \<or> HasPrefix rule ''/'' \<or> HasPrefix rule ''||^'' then None
      else map_option (\<lambda>host. CHR ''*'' # host) (extractGFWListHost parseURLHost rule))"

text \<open>The keys of a set in order; the sets are the lists of their elements.\<close>

definition mapKeysSorted :: "string list \<Rightarrow> string list" where
  "mapKeysSorted m = sort (remdups m)"

definition addRule :: "(string \<Rightarrow> string option) \<Rightarrow> string \<Rightarrow> string list \<times> string list \<Rightarrow> string list \<times> string list" where
  "addRule parseURLHost line0 sets =
     (let line1 = TrimSpace line0 in
      if line1 = [] \<or> HasPrefix line1 ''!'' \<or> HasPrefix line1 ''['' then sets
      else
        let bypass = HasPrefix line1 ''@@'';
            line2 = (if bypass then drop 2 line1 else line1)
        in case normalizeGFWListRule parseURLHost line2 of
             None \<Rightarrow> sets
           | Some pattern \<Rightarrow>
               if bypass then (fst sets, List.insert pattern (snd sets)) else (List.insert pattern (fst sets), snd sets))"

definition parseEmbeddedGFWList :: "(string \<Rightarrow> string option) \<Rightarrow> string \<Rightarrow> (string list \<times> string list) go" where
  "parseEmbeddedGFWList parseURLHost raw =
     (let payload = filter (\<lambda>c. \<not> is_space c) raw in
      case base64_decode payload of
        None \<Rightarrow> Inl (Error ''decode embedded gfwlist: illegal base64 data'')
      | Some decoded \<Rightarrow>
          let (blocked, bypass) = fold (addRule parseURLHost) (split_on (CHR ''\<newline>'') decoded) ([], [])
          in Inr (mapKeysSorted blocked, mapKeysSorted bypass))"

record gfwMatchers =
  gfwDomainMatcher :: "unit labelNode option"
  gfwBypassMatcher :: "unit labelNode option"

fun addPatterns :: "unit labelNode \<Rightarrow> string list \<Rightarrow> unit labelNode go" where
  "addPatterns m [] = Inr m"
| "addPatterns m (p # ps) = go_bind (DomainMatcher_Add m p ()) (\<lambda>m1. addPatterns m1 ps)"

definition loadBuiltinGFWList :: "(string \<Rightarrow> string option) \<Rightarrow> string \<Rightarrow> gfwMatchers go" where
  "loadBuiltinGFWList parseURLHost embeddedGFWList =
     go_bind (parseEmbeddedGFWList parseURLHost embeddedGFWList) (\<lambda>(blocked, bypass).
     go_bind (addPatterns NewDomainMatcher blocked) (\<lambda>d.
     go_bind (addPatterns NewDomainMatcher bypass) (\<lambda>b.
     Inr \<lparr>gfwDomainMatcher = Some d, gfwBypassMatcher = Some b\<rparr>)))"

definition isGFWDomain :: "gfwMatchers \<Rightarrow> string \<Rightarrow> bool" where
  "isGFWDomain g domain0 =
     (if domain0 = [] then False
      else case gfwDomainMatcher g of
        None \<Rightarrow> False
      | Some dm \<Rightarrow>
          let domain = ToLower domain0 in
          (case gfwBypassMatcher g of
             Some bm \<Rightarrow> if DomainMatcher_Find bm domain \<noteq> None then False else DomainMatcher_Find dm domain \<noteq> None
           | None \<Rightarrow> DomainMatcher_Find dm domain \<noteq> None))"

section \<open>The hosts of the list\<close>

lemma last_label_props:
  assumes "run \<noteq> []" "is_alnum (hd run)" "list_all label_char run"
  shows "last_label run \<noteq> []" "is_alnum (hd (last_label run))" "is_alnum (last (last_label run))" "list_all label_char (last_label run)"
proof -
  let ?t = "take 63 run"
  have t: "?t \<noteq> []" "is_alnum (hd ?t)" using assms by (cases run; simp)+
  then have ne: "dropWhile (\<lambda>c. \<not> is_alnum c) (rev ?t) \<noteq> []"
    by (metis dropWhile_eq_Nil_conv hd_in_set set_rev)
  then show "last_label run \<noteq> []" by (simp add: last_label_def)
  have "?t = last_label run @ rev (takeWhile (\<lambda>c. \<not> is_alnum c) (rev ?t))"
    unfolding last_label_def by (metis rev_append rev_rev_ident takeWhile_dropWhile_id)
  moreover from this have "list_all label_char (last_label run)"
    using assms(3) by (metis append_take_drop_id list_all_append)
  ultimately show "is_alnum (hd (last_label run))" "list_all label_char (last_label run)"
    using t(2) \<open>last_label run \<noteq> []\<close> by (metis hd_append2, blast)
  show "is_alnum (last (last_label run))"
    using hd_dropWhile [OF ne] ne by (simp add: last_label_def last_rev)
qed

definition host_label :: "string \<Rightarrow> bool" where
  "host_label l \<longleftrightarrow> l \<noteq> [] \<and> is_alnum (hd l) \<and> is_alnum (last l) \<and> list_all label_char l"

lemma list_all_takeWhile: "list_all P (takeWhile P s)"
  by (induction s) auto

lemma match_labels_labels: "match_labels s = Some ls \<Longrightarrow> ls \<noteq> [] \<and> list_all host_label ls"
proof (induction s arbitrary: ls rule: match_labels.induct)
  case (1 s)
  let ?run = "takeWhile label_char s"
  have f: "host_label (last_label ?run)" if "?run \<noteq> []" "is_alnum (hd ?run)"
    using last_label_props [OF that list_all_takeWhile] by (simp add: host_label_def)
  have r: "host_label ?run" if "is_label ?run"
    using that by (simp add: host_label_def is_label_def)
  note eq = 1(2) [unfolded match_labels.simps [of s] Let_def]
  show ?case
  proof (cases "is_label ?run \<and> dropWhile label_char s \<noteq> [] \<and> hd (dropWhile label_char s) = CHR ''.''")
    case True
    show ?thesis
    proof (cases "match_labels (tl (dropWhile label_char s))")
      case None
      then show ?thesis using eq True f by (auto split: if_splits)
    next
      case (Some ls')
      then show ?thesis using eq True r 1(1) [OF refl refl refl True Some] by auto
    qed
  next
    case False
    then show ?thesis using eq f by (auto split: if_splits)
  qed
qed

lemma FindString_labels: "FindString s \<noteq> [] \<Longrightarrow> \<exists>l l' ls. FindString s = join ''.'' (l # l' # ls) \<and> list_all host_label (l # l' # ls)"
proof (induction s)
  case (Cons c s)
  show ?case
  proof (cases "match_labels (c # s)")
    case None
    then show ?thesis using Cons by simp
  next
    case (Some ls)
    then obtain l r where ls: "ls = l # r" using match_labels_labels by (cases ls) auto
    show ?thesis
    proof (cases r)
      case Nil
      then show ?thesis using Cons Some ls by simp
    next
      case (Cons l' r')
      then show ?thesis using match_labels_labels [OF Some] Some ls by auto
    qed
  qed
qed simp

lemma alnum_not_dot [simp]: "\<not> is_alnum (CHR ''.'')" "is_alnum c \<Longrightarrow> c \<noteq> CHR ''.''"
  by (auto simp: is_alnum_def)

definition gfw_host :: "string \<Rightarrow> bool" where
  "gfw_host h \<longleftrightarrow> h \<noteq> [] \<and> is_alnum (hd h) \<and> CHR ''.'' \<in> set h"

lemma join_hd: "l \<noteq> [] \<Longrightarrow> hd (join sep (l # ls)) = hd l"
  by (cases ls) auto

lemma join_last: "ls \<noteq> [] \<Longrightarrow> last ls \<noteq> [] \<Longrightarrow> join sep ls \<noteq> [] \<and> last (join sep ls) = last (last ls)"
  by (induction sep ls rule: join.induct) auto

lemma join_nonempty: "l \<noteq> [] \<Longrightarrow> join sep (l # ls) \<noteq> []"
  by (cases ls) auto

lemma dropWhile_id: "s \<noteq> [] \<Longrightarrow> \<not> P (hd s) \<Longrightarrow> dropWhile P s = s"
  by (cases s) auto

lemma Trim_id: "s \<noteq> [] \<Longrightarrow> hd s \<notin> set cs \<Longrightarrow> last s \<notin> set cs \<Longrightarrow> Trim s cs = s"
  by (simp add: Trim_def TrimLeft_def dropWhile_id hd_rev)

lemma extract_host:
  assumes "extractGFWListHost parseURLHost rule = Some h"
  shows "gfw_host h"
proof -
  obtain m where m: "FindString m \<noteq> []" "h = Trim (FindString m) ''.''"
    using assms by (auto simp: extractGFWListHost_def Let_def split: if_splits)
  obtain l l' ls where f: "FindString m = join ''.'' (l # l' # ls)" "list_all host_label (l # l' # ls)"
    using FindString_labels [OF m(1)] by blast
  have l: "l \<noteq> []" "is_alnum (hd l)" and la: "last (l # l' # ls) \<noteq> []" "is_alnum (last (last (l # l' # ls)))"
    using f(2) by (auto simp: host_label_def list_all_iff)
  have "hd (FindString m) = hd l" unfolding f(1) by (rule join_hd [OF l(1)])
  moreover have "last (FindString m) = last (last (l # l' # ls))" unfolding f(1) using join_last la(1) by blast
  ultimately have "h = FindString m" "is_alnum (hd h)" using m l(2) la(2) Trim_id [of "FindString m" "''.''"] by auto
  then show ?thesis using m(1) f(1) by (simp add: gfw_host_def)
qed

definition gfw_patterns :: "string list \<Rightarrow> bool" where
  "gfw_patterns ps \<longleftrightarrow> (\<forall>p \<in> set ps. \<exists>h. p = CHR ''*'' # h \<and> gfw_host h)"

lemma addRule_patterns:
  "gfw_patterns (fst sets) \<and> gfw_patterns (snd sets) \<Longrightarrow>
   gfw_patterns (fst (addRule u line sets)) \<and> gfw_patterns (snd (addRule u line sets))"
  by (auto simp: addRule_def normalizeGFWListRule_def gfw_patterns_def Let_def dest: extract_host split: option.splits if_splits)

lemma fold_addRule_patterns:
  "gfw_patterns (fst sets) \<and> gfw_patterns (snd sets) \<Longrightarrow>
   gfw_patterns (fst (fold (addRule u) ls sets)) \<and> gfw_patterns (snd (fold (addRule u) ls sets))"
  by (induction ls arbitrary: sets) (simp, metis addRule_patterns fold_simps(2))

lemma parse_patterns:
  assumes "parseEmbeddedGFWList u raw = Inr (blocked, bypass)"
  shows "gfw_patterns blocked" "gfw_patterns bypass"
proof -
  obtain decoded bl by' where d: "fold (addRule u) (split_on (CHR ''\<newline>'') decoded) ([], []) = (bl, by')"
    and r: "blocked = sort (remdups bl)" "bypass = sort (remdups by')"
    using assms by (auto simp: parseEmbeddedGFWList_def mapKeysSorted_def Let_def split: option.splits prod.splits)
  have "gfw_patterns bl \<and> gfw_patterns by'"
    using fold_addRule_patterns [of "([], [])" u "split_on (CHR ''\<newline>'') decoded"] unfolding d by (simp add: gfw_patterns_def)
  then show "gfw_patterns blocked" "gfw_patterns bypass" by (simp_all add: r gfw_patterns_def)
qed

lemma pattern_bodies:
  assumes "gfw_host h"
  shows "wild_body (CHR ''*'' # h) = Some h" "exact_body (CHR ''*'' # h) = Some h" "plain_pattern (CHR ''*'' # h)"
    "\<exists>t'. DomainMatcher_Add t (CHR ''*'' # h) v = Inr t'"
proof -
  have h: "h \<noteq> []" "\<not> HasPrefix (CHR ''*'' # h) ''*.''" "HasPrefix (CHR ''*'' # h) ''*''" "no_lead_dot h"
    using assms by (cases h; auto simp: gfw_host_def HasPrefix_def no_lead_dot_def)+
  then show "wild_body (CHR ''*'' # h) = Some h" "exact_body (CHR ''*'' # h) = Some h"
    by (simp_all add: wild_body_def exact_body_def)
  then show "plain_pattern (CHR ''*'' # h)" using h by (simp add: plain_pattern_def)
  show "\<exists>t'. DomainMatcher_Add t (CHR ''*'' # h) v = Inr t'"
    using h assms by (simp add: DomainMatcher_Add_def gfw_host_def)
qed

lemma addPatterns_insert_all: "addPatterns m ps = insert_all DomainMatcher_Add (map (\<lambda>p. (p, ())) ps) m"
  by (induction ps arbitrary: m) (auto intro!: arg_cong [where f = "go_bind _"])

lemma addPatterns_succeeds: "gfw_patterns ps \<Longrightarrow> \<exists>m'. addPatterns m ps = Inr m'"
proof (induction ps arbitrary: m)
  case (Cons p ps)
  then obtain h where "p = CHR ''*'' # h" "gfw_host h" by (auto simp: gfw_patterns_def)
  with pattern_bodies(4) obtain m1 where "DomainMatcher_Add m p () = Inr m1" by metis
  then show ?case using Cons by (auto simp: gfw_patterns_def)
qed simp

section \<open>What the list matches\<close>

definition covers :: "string \<Rightarrow> string \<Rightarrow> bool" where
  "covers h d \<longleftrightarrow> d = h \<or> HasSuffix d (CHR ''.'' # h)"

lemma lpm_None: "lpm agree rules w = None \<longleftrightarrow> (\<forall>(ip, n, v) \<in> set rules. \<not> agree n ip w)"
proof -
  have "fold (lpm_step agree w) rules b = None \<longleftrightarrow> b = None \<and> (\<forall>(ip, n, v) \<in> set rules. \<not> agree n ip w)" for b
    by (induction rules arbitrary: b) (auto simp: lpm_step_def split: option.splits if_splits)
  then show ?thesis by (simp add: lpm_def)
qed

lemma exact_rule_None: "exact_rule rules d = None \<longleftrightarrow> (\<forall>(p, v) \<in> set rules. exact_body p \<noteq> Some d)"
proof -
  have "fold (\<lambda>(p, v) acc. if exact_body p = Some d then Some v else acc) rules b = None \<longleftrightarrow>
      b = None \<and> (\<forall>(p, v) \<in> set rules. exact_body p \<noteq> Some d)" for b
    by (induction rules arbitrary: b) (auto split: if_splits)
  then show ?thesis by (simp add: exact_rule_def)
qed

lemma wild_rules_patterns:
  "list_all gfw_host hs \<Longrightarrow> wild_rules (map (\<lambda>h. (CHR ''*'' # h, ())) hs) = map (\<lambda>h. (h, length (labels h), ())) hs"
  by (induction hs) (simp_all add: wild_rules_def pattern_bodies(1))

lemma exact_rule_patterns:
  "list_all gfw_host hs \<Longrightarrow> exact_rule (map (\<lambda>h. (CHR ''*'' # h, ())) hs) d = None \<longleftrightarrow> d \<notin> set hs"
  by (induction hs) (auto simp: exact_rule_None pattern_bodies(2))

lemma gfw_patterns_hosts: "gfw_patterns ps \<Longrightarrow> \<exists>hs. ps = map (\<lambda>h. CHR ''*'' # h) hs \<and> list_all gfw_host hs"
proof (induction ps)
  case (Cons p ps)
  then obtain h hs where "p = CHR ''*'' # h" "gfw_host h" "ps = map (\<lambda>h. CHR ''*'' # h) hs" "list_all gfw_host hs"
    by (auto simp: gfw_patterns_def)
  then show ?case by (intro exI [of _ "h # hs"]) simp
qed simp

lemma Find_patterns:
  assumes "gfw_patterns ps" "addPatterns NewDomainMatcher ps = Inr m" "no_lead_dot d"
  shows "DomainMatcher_Find m d \<noteq> None \<longleftrightarrow> (\<exists>h. CHR ''*'' # h \<in> set ps \<and> covers h d)"
proof -
  obtain hs where ps: "ps = map (\<lambda>h. CHR ''*'' # h) hs" and hs: "list_all gfw_host hs"
    using gfw_patterns_hosts [OF assms(1)] by blast
  let ?r = "map (\<lambda>h. (CHR ''*'' # h, ())) hs"
  have "\<forall>(p, v) \<in> set ?r. plain_pattern p" using hs pattern_bodies(3) by (auto simp: list_all_iff)
  moreover have "insert_all DomainMatcher_Add ?r NewDomainMatcher = Inr m"
    using assms(2) by (simp add: addPatterns_insert_all ps comp_def)
  ultimately have "DomainMatcher_Find m d = domain_match ?r d" using assms(3) by (intro Find_build)
  moreover have "h \<noteq> []" if "h \<in> set hs" for h using hs that by (auto simp: list_all_iff gfw_host_def)
  then have "lpm sub_domain (wild_rules ?r) d = None \<longleftrightarrow> (\<forall>h \<in> set hs. \<not> HasSuffix d (CHR ''.'' # h))"
    by (auto simp: wild_rules_patterns [OF hs] lpm_None sub_domain_def)
  ultimately show ?thesis
    using exact_rule_patterns [OF hs, of d] by (auto simp: domain_match_def covers_def ps image_iff split: option.split)
qed


definition sampleList :: string where
  "sampleList = ''fHxhLmIKQEB8fGMuYS5i''"

lemma sample_decoded: "base64_decode (filter (\<lambda>c. \<not> is_space c) sampleList) = Some (''||a.b'' @ CHR ''\<newline>'' # ''@@||c.a.b'')"
  by (simp add: sampleList_def is_space_def base64_val_def quad_chars_def Let_def char_of_def bit_0)

lemma sample_parsed: "parseEmbeddedGFWList u sampleList = Inr ([''*a.b''], [''*c.a.b''])"
proof -
  have f: "FindString ''a.b'' = ''a.b''" "FindString ''c.a.b'' = ''c.a.b''"
    by (simp_all add: match_labels.simps label_char_def is_alnum_def is_label_def last_label_def Let_def)
  have "extractGFWListHost u ''||a.b'' = Some ''a.b''" "extractGFWListHost u ''||c.a.b'' = Some ''c.a.b''"
    by (simp_all add: extractGFWListHost_def TrimSpace_def is_space_def TrimLeft_def Trim_def HasPrefix_def SplitHostPort_def
        ToLower_def lower_eval f ParseIP_def ParseAddr_def parseIPv4_def netip_eval del: FindString.simps)
  then show ?thesis
    unfolding parseEmbeddedGFWList_def Let_def sample_decoded
    by (simp add: addRule_def normalizeGFWListRule_def TrimSpace_def is_space_def HasPrefix_def mapKeysSorted_def List.insert_def)
qed


end
