(* ===== verification/Dns_Core.thy ===== *)
theory Dns_Core
  imports Go_State Fake_IP Gfw_List
begin

text \<open>
  DNS, \<^verbatim>\<open>src/internal/dns.go\<close> and \<^verbatim>\<open>src/internal/resolver.go\<close>, with the routing classes of domains of
  \<^verbatim>\<open>src/internal/policy.go\<close>: resolving with a cache, recording the answers of the upstream server,
  the translation of addresses back to domains, and the handler that answers queries with fake
  addresses.

  The state is \<open>dns_state\<close>; the upstream server, the eviction of the caches and the configuration are
  \<open>dns_env\<close>.  The server may answer each exchange differently.  An operation takes place at one
  instant, its argument \<open>now\<close>.  A \<open>dns\<close> computation returns the state and a value or an error; it
  is \<open>None\<close> if it does not return, which \<open>fake_response\<close> excludes for the handler.
\<close>

section \<open>Messages\<close>

record RR_Header =
  hdr_Name :: string
  hdr_Rrtype :: "16 word"
  hdr_Class :: "16 word"
  hdr_Ttl :: "32 word"

datatype RR =
    A RR_Header "32 word"
  | AAAA RR_Header "128 word"
  | CNAME RR_Header string
  | HTTPS RR_Header
  | SVCB RR_Header
  | OtherRR RR_Header

fun rr_Header :: "RR \<Rightarrow> RR_Header" where
  "rr_Header (A h _) = h"
| "rr_Header (AAAA h _) = h"
| "rr_Header (CNAME h _) = h"
| "rr_Header (HTTPS h) = h"
| "rr_Header (SVCB h) = h"
| "rr_Header (OtherRR h) = h"

record Question =
  q_Name :: string
  q_Qtype :: "16 word"
  q_Qclass :: "16 word"

text \<open>A message without its identifier and flags.\<close>

record Msg =
  msg_Rcode :: nat
  msg_Question :: "Question list"
  msg_Answer :: "RR list"
  msg_Ns :: "RR list"
  msg_Extra :: "RR list"

definition RcodeSuccess :: nat where "RcodeSuccess = 0"
definition TypeHTTPS :: "16 word" where "TypeHTTPS = 65"
definition ClassINET :: "16 word" where "ClassINET = 1"

definition emptyMsg :: Msg where
  "emptyMsg = \<lparr>msg_Rcode = 0, msg_Question = [], msg_Answer = [], msg_Ns = [], msg_Extra = []\<rparr>"

definition SetQuestion :: "string \<Rightarrow> 16 word \<Rightarrow> Msg" where
  "SetQuestion z t = emptyMsg\<lparr>msg_Question := [\<lparr>q_Name = z, q_Qtype = t, q_Qclass = ClassINET\<rparr>]\<rparr>"

section \<open>State\<close>

text \<open>
  A cache with lifetimes: its entries with the most recently used first, each with its value and the
  millisecond it expires in, 0 for never.
\<close>

type_synonym 'v cache = "(string \<times> 'v \<times> int) list"

definition millis :: "int \<Rightarrow> int" where "millis t = t div 1000000"

definition cache_Add :: "(string \<Rightarrow> 'v cache \<Rightarrow> 'v cache) \<Rightarrow> instant \<Rightarrow> duration \<Rightarrow> string \<Rightarrow> 'v \<Rightarrow> 'v cache \<Rightarrow> 'v cache" where
  "cache_Add evict now life k v c =
     (k, v, if life = 0 then 0 else millis now + millis life) # AList.delete k (evict k c)"

definition cache_Get :: "instant \<Rightarrow> string \<Rightarrow> 'v cache \<Rightarrow> 'v cache \<times> 'v option" where
  "cache_Get now k c =
     (case map_of c k of
        None \<Rightarrow> (c, None)
      | Some (v, e) \<Rightarrow>
          if e \<noteq> 0 \<and> e \<le> millis now then (AList.delete k c, None)
          else ((k, v, e) # AList.delete k c, Some v))"

record recordedDNSResult =
  rec_ipv4 :: string
  rec_ipv4Expire :: instant
  rec_ipv6 :: string
  rec_ipv6Expire :: instant

record dns_state =
  ds_dnsCache :: "string cache option"
  ds_ipDomainCache :: "string cache option"
  ds_recordedDNSIPs :: "(string, recordedDNSResult) gomap"
  ds_fakes :: fakeStores
  ds_exchanges :: nat

text \<open>
  What the code has around it: the upstream server, which answers the \<open>n\<close>-th exchange, the eviction of
  the caches when a key is added, and the configuration.
\<close>

record dns_env =
  env_exchange :: "nat \<Rightarrow> Msg \<Rightarrow> Msg go"
  env_evict :: "string \<Rightarrow> string cache \<Rightarrow> string cache"
  env_rcodeName :: "nat \<Rightarrow> string"
  env_dnsCacheTTL :: duration
  env_domainMatcher :: "Policy labelNode option"
  env_gfw :: gfwMatchers

type_synonym 'a dns = "(dns_state, 'a) comp"

definition dnsExchange :: "dns_env \<Rightarrow> Msg \<Rightarrow> Msg dns" where
  "dnsExchange env req = (\<lambda>s. Some (s\<lparr>ds_exchanges := Suc (ds_exchanges s)\<rparr>, env_exchange env (ds_exchanges s) req))"

section \<open>Routing of domains\<close>

datatype domainRouteClass = domainRoutePlain | domainRouteRule | domainRouteGFW

definition classifyDomainRoute :: "dns_env \<Rightarrow> string \<Rightarrow> domainRouteClass" where
  "classifyDomainRoute env domain0 =
     (let domain = ToLower domain0 in
      if domain = [] then domainRoutePlain
      else if (case env_domainMatcher env of Some m \<Rightarrow> DomainMatcher_Find m domain \<noteq> None | None \<Rightarrow> False) then domainRouteRule
      else if isGFWDomain (env_gfw env) domain then domainRouteGFW
      else domainRoutePlain)"

definition shouldUseFakeIP :: "dns_env \<Rightarrow> string \<Rightarrow> bool" where
  "shouldUseFakeIP env domain =
     (case classifyDomainRoute env domain of
        domainRouteRule \<Rightarrow> True
      | domainRouteGFW \<Rightarrow> True
      | domainRoutePlain \<Rightarrow> False)"

section \<open>Resolving\<close>

fun pickFirstARecord :: "RR list \<Rightarrow> 32 word option" where
  "pickFirstARecord [] = None"
| "pickFirstARecord (A h ip # rs) = Some ip"
| "pickFirstARecord (_ # rs) = pickFirstARecord rs"

fun pickFirstAAAARecord :: "RR list \<Rightarrow> 128 word option" where
  "pickFirstAAAARecord [] = None"
| "pickFirstAAAARecord (AAAA h ip # rs) = Some ip"
| "pickFirstAAAARecord (_ # rs) = pickFirstAAAARecord rs"

definition rememberDomainIPMapping :: "dns_env \<Rightarrow> instant \<Rightarrow> string \<Rightarrow> string \<Rightarrow> dns_state \<Rightarrow> dns_state" where
  "rememberDomainIPMapping env now domain ip s =
     (case ds_ipDomainCache s of
        None \<Rightarrow> s
      | Some c \<Rightarrow>
          if domain = [] \<or> ip = [] then s
          else s\<lparr>ds_ipDomainCache := Some (cache_Add (env_evict env) now (env_dnsCacheTTL env) ip domain c)\<rparr>)"

definition ip4_text :: "32 word option \<Rightarrow> string option" where
  "ip4_text = map_option (\<lambda>w. IP_String (IP4 w))"

definition ip6_text :: "128 word option \<Rightarrow> string option" where
  "ip6_text = map_option (\<lambda>w. IP_String (IP6 w []))"

definition checkRcode :: "dns_env \<Rightarrow> Msg \<Rightarrow> unit dns" where
  "checkRcode env resp =
     (if msg_Rcode resp \<noteq> RcodeSuccess then c_fail (''bad rcode: '' @ env_rcodeName env (msg_Rcode resp)) else c_return ())"

text \<open>The second question of the two modes that fall back to the other family.\<close>

definition resolveOther :: "dns_env \<Rightarrow> string \<Rightarrow> 16 word \<Rightarrow> (RR list \<Rightarrow> string option) \<Rightarrow> string dns" where
  "resolveOther env domain t pick =
     c_bind (c_map_error (\<lambda>e. ''dns exchange: %!w(<nil>); '' @ e) (dnsExchange env (SetQuestion (domain @ ''.'') t))) (\<lambda>resp.
     c_bind (checkRcode env resp) (\<lambda>_.
       case pick (msg_Answer resp) of None \<Rightarrow> c_fail ''record not found'' | Some ip \<Rightarrow> c_return ip))"

definition resolveAnswer :: "dns_env \<Rightarrow> string \<Rightarrow> DNSMode \<Rightarrow> RR list \<Rightarrow> string dns" where
  "resolveAnswer env domain mode answer =
     (let v4 = ip4_text (pickFirstARecord answer); v6 = ip6_text (pickFirstAAAARecord answer) in
      case mode of
        DNSModeIPv4Only \<Rightarrow> (case v4 of None \<Rightarrow> c_fail ''A record not found'' | Some ip \<Rightarrow> c_return ip)
      | DNSModeIPv6Only \<Rightarrow> (case v6 of None \<Rightarrow> c_fail ''AAAA record not found'' | Some ip \<Rightarrow> c_return ip)
      | DNSModePreferIPv4 \<Rightarrow>
          (case v4 of Some ip \<Rightarrow> c_return ip
           | None \<Rightarrow> resolveOther env domain TypeAAAA (\<lambda>a. ip6_text (pickFirstAAAARecord a)))
      | DNSModePreferIPv6 \<Rightarrow>
          (case v6 of Some ip \<Rightarrow> c_return ip
           | None \<Rightarrow> resolveOther env domain TypeA (\<lambda>a. ip4_text (pickFirstARecord a)))
      | DNSModeUnknown \<Rightarrow> c_return ''<nil>'')"

definition questionFor :: "string \<Rightarrow> DNSMode \<Rightarrow> Msg" where
  "questionFor domain mode =
     (case mode of
        DNSModePreferIPv4 \<Rightarrow> SetQuestion (domain @ ''.'') TypeA
      | DNSModeIPv4Only \<Rightarrow> SetQuestion (domain @ ''.'') TypeA
      | DNSModePreferIPv6 \<Rightarrow> SetQuestion (domain @ ''.'') TypeAAAA
      | DNSModeIPv6Only \<Rightarrow> SetQuestion (domain @ ''.'') TypeAAAA
      | DNSModeUnknown \<Rightarrow> emptyMsg)"

definition doDNSResolve :: "dns_env \<Rightarrow> instant \<Rightarrow> string \<Rightarrow> DNSMode \<Rightarrow> string dns" where
  "doDNSResolve env now domain mode =
     c_bind (c_wrap ''dns exchange'' (dnsExchange env (questionFor domain mode))) (\<lambda>resp.
     c_bind (checkRcode env resp) (\<lambda>_.
     c_bind (resolveAnswer env domain mode (msg_Answer resp)) (\<lambda>ipStr.
     c_bind (c_modify (\<lambda>s. s\<lparr>ds_dnsCache :=
       map_option (cache_Add (env_evict env) now (env_dnsCacheTTL env) domain ipStr) (ds_dnsCache s)\<rparr>)) (\<lambda>_.
     c_bind (c_modify (rememberDomainIPMapping env now domain ipStr)) (\<lambda>_.
     c_return ipStr)))))"

text \<open>A call that \<^verbatim>\<open>singleflight\<close> shares with another one is the call itself.\<close>

definition dnsResolve :: "dns_env \<Rightarrow> instant \<Rightarrow> string \<Rightarrow> DNSMode \<Rightarrow> (string \<times> bool) dns" where
  "dnsResolve env now domain mode = (\<lambda>s.
     case ds_dnsCache s of
       None \<Rightarrow> c_bind (doDNSResolve env now domain mode) (\<lambda>ip. c_return (ip, False)) s
     | Some c \<Rightarrow>
         (case cache_Get now domain c of
            (c1, Some ip) \<Rightarrow> Some (s\<lparr>ds_dnsCache := Some c1\<rparr>, Inr (ip, True))
          | (c1, None) \<Rightarrow>
              c_bind (doDNSResolve env now domain mode) (\<lambda>ip. c_return (ip, False)) (s\<lparr>ds_dnsCache := Some c1\<rparr>)))"

definition Resolver_Resolve :: "dns_env \<Rightarrow> instant \<Rightarrow> string \<Rightarrow> DNSMode \<Rightarrow> (string \<times> bool) dns" where
  "Resolver_Resolve env now domain mode =
     c_bind (dnsResolve env now domain mode) (\<lambda>(ip, cached).
     c_bind (c_modify (rememberDomainIPMapping env now domain ip)) (\<lambda>_. c_return (ip, cached)))"

section \<open>Recorded answers\<close>

definition ttlOrDefault :: "32 word \<Rightarrow> 32 word" where
  "ttlOrDefault ttl = (if ttl = 0 then 300 else ttl)"

definition zeroTime :: instant where "zeroTime = 0"

definition zeroRecorded :: recordedDNSResult where
  "zeroRecorded = \<lparr>rec_ipv4 = [], rec_ipv4Expire = zeroTime, rec_ipv6 = [], rec_ipv6Expire = zeroTime\<rparr>"

fun recordLoop :: "dns_env \<Rightarrow> instant \<Rightarrow> string \<Rightarrow> RR list \<Rightarrow> recordedDNSResult \<Rightarrow> dns_state \<Rightarrow> recordedDNSResult \<times> dns_state" where
  "recordLoop env now domain [] entry s = (entry, s)"
| "recordLoop env now domain (A h ip # rs) entry s =
     (let ttl = ttlOrDefault (hdr_Ttl h);
          entry1 = entry\<lparr>rec_ipv4 := IP_String (IP4 ip), rec_ipv4Expire := now + uint ttl * second\<rparr>
      in recordLoop env now domain rs entry1 (rememberDomainIPMapping env now domain (rec_ipv4 entry1) s))"
| "recordLoop env now domain (AAAA h ip # rs) entry s =
     (let ttl = ttlOrDefault (hdr_Ttl h);
          entry1 = entry\<lparr>rec_ipv6 := IP_String (IP6 ip []), rec_ipv6Expire := now + uint ttl * second\<rparr>
      in recordLoop env now domain rs entry1 (rememberDomainIPMapping env now domain (rec_ipv6 entry1) s))"
| "recordLoop env now domain (_ # rs) entry s = recordLoop env now domain rs entry s"

definition rememberRecordedDNSAnswers :: "dns_env \<Rightarrow> instant \<Rightarrow> string \<Rightarrow> RR list \<Rightarrow> dns_state \<Rightarrow> dns_state" where
  "rememberRecordedDNSAnswers env now domain0 answers s =
     (if domain0 = [] \<or> answers = [] then s
      else
        let domain = ToLower domain0;
            entry0 = (case map_of (ds_recordedDNSIPs s) domain of None \<Rightarrow> zeroRecorded | Some e \<Rightarrow> e);
            (entry, s1) = recordLoop env now domain answers entry0 s
        in if rec_ipv4 entry = [] \<and> rec_ipv6 entry = [] then s1
           else s1\<lparr>ds_recordedDNSIPs := AList.update domain entry (ds_recordedDNSIPs s1)\<rparr>)"

definition lookupRecordedDNSIP :: "instant \<Rightarrow> string \<Rightarrow> DNSMode \<Rightarrow> dns_state \<Rightarrow> dns_state \<times> string option" where
  "lookupRecordedDNSIP now domain0 mode s =
     (if domain0 = [] then (s, None)
      else
        let domain = ToLower domain0 in
        case map_of (ds_recordedDNSIPs s) domain of
          None \<Rightarrow> (s, None)
        | Some entry0 \<Rightarrow>
            let ipv4Valid = (rec_ipv4 entry0 \<noteq> [] \<and> now < rec_ipv4Expire entry0);
                ipv6Valid = (rec_ipv6 entry0 \<noteq> [] \<and> now < rec_ipv6Expire entry0);
                entry1 = (if \<not> ipv4Valid then entry0\<lparr>rec_ipv4 := [], rec_ipv4Expire := zeroTime\<rparr> else entry0);
                entry = (if \<not> ipv6Valid then entry1\<lparr>rec_ipv6 := [], rec_ipv6Expire := zeroTime\<rparr> else entry1)
            in if rec_ipv4 entry = [] \<and> rec_ipv6 entry = [] then
                 (s\<lparr>ds_recordedDNSIPs := AList.delete domain (ds_recordedDNSIPs s)\<rparr>, None)
               else
                 (s\<lparr>ds_recordedDNSIPs := AList.update domain entry (ds_recordedDNSIPs s)\<rparr>,
                  case mode of
                    DNSModeIPv4Only \<Rightarrow> (if ipv4Valid then Some (rec_ipv4 entry) else None)
                  | DNSModeIPv6Only \<Rightarrow> (if ipv6Valid then Some (rec_ipv6 entry) else None)
                  | DNSModePreferIPv6 \<Rightarrow>
                      (if ipv6Valid then Some (rec_ipv6 entry) else if ipv4Valid then Some (rec_ipv4 entry) else None)
                  | _ \<Rightarrow>
                      (if ipv4Valid then Some (rec_ipv4 entry) else if ipv6Valid then Some (rec_ipv6 entry) else None)))"

definition lookupDomainByIP :: "instant \<Rightarrow> string \<Rightarrow> dns_state \<Rightarrow> dns_state \<times> string option" where
  "lookupDomainByIP now ip s =
     (case lookupFakeDomainByIP now now (ds_fakes s) ip of
        (f, Some domain) \<Rightarrow> (s\<lparr>ds_fakes := f\<rparr>, Some domain)
      | (f, None) \<Rightarrow>
          let s1 = s\<lparr>ds_fakes := f\<rparr> in
          (case ds_ipDomainCache s1 of
             None \<Rightarrow> (s1, None)
           | Some c \<Rightarrow>
               if ip = [] then (s1, None)
               else let (c1, r) = cache_Get now ip c in (s1\<lparr>ds_ipDomainCache := Some c1\<rparr>, r)))"

section \<open>Answering queries\<close>

definition buildFakeAnswerRR :: "RR_Header \<Rightarrow> string \<Rightarrow> RR go" where
  "buildFakeAnswerRR header fakeIP =
     (let ttl = (if hdr_Ttl header = 0 then of_nat defaultFakeTTL else hdr_Ttl header) in
      if hdr_Rrtype header = TypeA then
        (case Option.bind (ParseIP fakeIP) To4 of
           None \<Rightarrow> Inl (Error ''invalid fake ipv4 address'')
         | Some ip \<Rightarrow> Inr (A \<lparr>hdr_Name = hdr_Name header, hdr_Rrtype = TypeA, hdr_Class = hdr_Class header, hdr_Ttl = ttl\<rparr> ip))
      else if hdr_Rrtype header = TypeAAAA then
        (case ParseIP fakeIP of
           None \<Rightarrow> Inl (Error ''invalid fake ipv6 address'')
         | Some a \<Rightarrow>
             if To4 a \<noteq> None then Inl (Error ''invalid fake ipv6 address'')
             else (case a of
                     IP6 ip _ \<Rightarrow> Inr (AAAA \<lparr>hdr_Name = hdr_Name header, hdr_Rrtype = TypeAAAA, hdr_Class = hdr_Class header, hdr_Ttl = ttl\<rparr> ip)
                   | IP4 _ \<Rightarrow> Inl (Error ''invalid fake ipv6 address'')))
      else Inl (Error ''unsupported fake answer type''))"

definition buildQuestionFakeAnswerRR :: "Question \<Rightarrow> string \<Rightarrow> 32 word \<Rightarrow> RR go" where
  "buildQuestionFakeAnswerRR question fakeIP ttl =
     buildFakeAnswerRR \<lparr>hdr_Name = q_Name question, hdr_Rrtype = q_Qtype question, hdr_Class = q_Qclass question, hdr_Ttl = ttl\<rparr> fakeIP"

definition considerTTL :: "RR \<Rightarrow> 32 word \<Rightarrow> 32 word" where
  "considerTTL rr minTTL =
     (let t = hdr_Ttl (rr_Header rr) in
      if t = 0 then minTTL else if minTTL = 0 \<or> t < minTTL then t else minTTL)"

definition fallbackFakeTTL :: "Msg \<Rightarrow> 32 word" where
  "fallbackFakeTTL resp =
     (let minTTL = fold considerTTL (msg_Extra resp) (fold considerTTL (msg_Ns resp) (fold considerTTL (msg_Answer resp) 0)) in
      if minTTL = 0 then of_nat defaultFakeTTL else minTTL)"

text \<open>The allocation for a query, on the stores of the state.\<close>

definition d_allocate :: "dns_env \<Rightarrow> instant \<Rightarrow> string \<Rightarrow> 16 word \<Rightarrow> 32 word \<Rightarrow> string dns" where
  "d_allocate env now domain qtype ttl = (\<lambda>s.
     map_option (\<lambda>(f, r). (s\<lparr>ds_fakes := f\<rparr>, r)) (allocateFakeIP (env_dnsCacheTTL env) now (ds_fakes s) domain qtype ttl))"

text \<open>
  The loop over the answers of the upstream server: the answers of the reply so far, the names that
  have got their fake record, the fake address (empty before it is allocated), and whether
  something was replaced.
\<close>

fun replaceLoop :: "dns_env \<Rightarrow> instant \<Rightarrow> string \<Rightarrow> 16 word \<Rightarrow> RR list \<Rightarrow> RR list \<Rightarrow> string list \<Rightarrow> string \<Rightarrow> bool
    \<Rightarrow> (RR list \<times> bool) dns" where
  "replaceLoop env now domain qtype [] acc names fakeIP replaced = c_return (acc, replaced)"
| "replaceLoop env now domain qtype (rr # rrs) acc names fakeIP replaced =
     (let header = rr_Header rr in
      if hdr_Rrtype header \<noteq> qtype then replaceLoop env now domain qtype rrs (acc @ [rr]) names fakeIP replaced
      else
        c_bind (if fakeIP = [] then c_wrap ''allocate fake ip'' (d_allocate env now domain qtype (hdr_Ttl header))
                else c_return fakeIP) (\<lambda>fakeIP1.
          if hdr_Name header \<in> set names then replaceLoop env now domain qtype rrs acc names fakeIP1 True
          else c_bind (c_lift (buildFakeAnswerRR header fakeIP1)) (\<lambda>fakeRR.
            replaceLoop env now domain qtype rrs (acc @ [fakeRR]) (hdr_Name header # names) fakeIP1 True)))"

definition buildFakeAddressResponse :: "dns_env \<Rightarrow> instant \<Rightarrow> Msg \<Rightarrow> string \<Rightarrow> 16 word \<Rightarrow> Msg dns" where
  "buildFakeAddressResponse env now req domain qtype =
     c_bind (c_wrap ''upstream dns exchange'' (dnsExchange env req)) (\<lambda>upstreamResp.
       if msg_Rcode upstreamResp \<noteq> RcodeSuccess then c_return upstreamResp
       else
         c_bind (c_modify (rememberRecordedDNSAnswers env now domain (msg_Answer upstreamResp))) (\<lambda>_.
           if \<not> shouldUseFakeIP env domain then c_return upstreamResp
           else
             c_bind (replaceLoop env now domain qtype (msg_Answer upstreamResp) [] [] [] False) (\<lambda>(answers, replaced).
               if replaced then c_return (upstreamResp\<lparr>msg_Answer := answers\<rparr>)
               else
                 case msg_Question req of
                   [] \<Rightarrow> c_return upstreamResp
                 | question # _ \<Rightarrow>
                     c_bind (c_wrap ''allocate fallback fake ip'' (d_allocate env now domain qtype (fallbackFakeTTL upstreamResp))) (\<lambda>fakeIP.
                     c_bind (c_lift (buildQuestionFakeAnswerRR question fakeIP (fallbackFakeTTL upstreamResp))) (\<lambda>fakeRR.
                       c_return (upstreamResp\<lparr>msg_Answer := [fakeRR]\<rparr>))))))"

definition TrimSuffix :: "string \<Rightarrow> string \<Rightarrow> string" where
  "TrimSuffix s t = (if HasSuffix s t then take (length s - length t) s else s)"

definition handleDNSQuery :: "dns_env \<Rightarrow> instant \<Rightarrow> Msg \<Rightarrow> Msg dns" where
  "handleDNSQuery env now req =
     (case msg_Question req of
        [question] \<Rightarrow>
          if q_Qclass question \<noteq> ClassINET then dnsExchange env req
          else
            let domain = ToLower (TrimSuffix (q_Name question) ''.'') in
            if q_Qtype question = TypeHTTPS then dnsExchange env req
            else if q_Qtype question = TypeA then buildFakeAddressResponse env now req domain TypeA
            else if q_Qtype question = TypeAAAA then buildFakeAddressResponse env now req domain TypeAAAA
            else dnsExchange env req
      | _ \<Rightarrow> dnsExchange env req)"

text \<open>The packet handler; \<open>unpack\<close> and \<open>pack\<close> are the wire format of the DNS library.\<close>

definition HandleDNSQueryPacket :: "(bytes \<Rightarrow> Msg go) \<Rightarrow> (Msg \<Rightarrow> bytes go) \<Rightarrow> dns_env \<Rightarrow> instant \<Rightarrow> bytes \<Rightarrow> bytes dns" where
  "HandleDNSQueryPacket unpack pack env now payload =
     c_bind (c_wrap ''unpack hijacked dns request'' (c_lift (unpack payload))) (\<lambda>req.
     c_bind (handleDNSQuery env now req) (\<lambda>resp.
     c_wrap ''pack hijacked dns response'' (c_lift (pack resp))))"

section \<open>Log texts\<close>

definition formatInt :: "int \<Rightarrow> string" where "formatInt v = Itoa v"

definition summarizeRR :: "(16 word \<Rightarrow> string) \<Rightarrow> RR \<Rightarrow> string" where
  "summarizeRR typeName rr =
     (case rr of
        A _ ip \<Rightarrow> ''A='' @ IP_String (IP4 ip)
      | AAAA _ ip \<Rightarrow> ''AAAA='' @ IP_String (IP6 ip [])
      | CNAME _ target \<Rightarrow> ''CNAME='' @ target
      | HTTPS _ \<Rightarrow> ''HTTPS''
      | SVCB _ \<Rightarrow> ''SVCB''
      | OtherRR h \<Rightarrow>
          (if typeName (hdr_Rrtype h) = [] then ''TYPE'' @ string_of_nat (unat (hdr_Rrtype h)) else typeName (hdr_Rrtype h)))"

definition summarizeDNSAnswerSet :: "(16 word \<Rightarrow> string) \<Rightarrow> RR list \<Rightarrow> string" where
  "summarizeDNSAnswerSet typeName answer =
     (if answer = [] then ''none''
      else
        let limit = min (length answer) 4;
            result = join '','' (map (summarizeRR typeName) (take limit answer))
        in if length answer > limit then result @ '',+'' @ formatInt (int (length answer - limit)) else result)"

definition stringOrDefault :: "string option \<Rightarrow> string" where
  "stringOrDefault v = (case v of None \<Rightarrow> ''-'' | Some x \<Rightarrow> if x = [] then ''-'' else x)"

definition boolToText :: "bool \<Rightarrow> string" where
  "boolToText v = (if v then ''true'' else ''false'')"

section \<open>Computations\<close>

lemma dnsExchange_Inr [comp_simps]:
  "dnsExchange env req s = Some (s', x) \<longleftrightarrow> s' = s\<lparr>ds_exchanges := Suc (ds_exchanges s)\<rparr> \<and> env_exchange env (ds_exchanges s) req = x"
  by (auto simp: dnsExchange_def)

lemma remember_fakes [simp]: "ds_fakes (rememberDomainIPMapping env now d ip s) = ds_fakes s"
  by (simp add: rememberDomainIPMapping_def split: option.split)

lemma recordLoop_fakes: "ds_fakes (snd (recordLoop env now d rs e s)) = ds_fakes s"
  by (induction env now d rs e s rule: recordLoop.induct) (simp_all add: Let_def)

lemma recorded_fakes [simp]: "ds_fakes (rememberRecordedDNSAnswers env now d rs s) = ds_fakes s"
  using recordLoop_fakes [of env now "ToLower d" rs]
  by (auto simp: rememberRecordedDNSAnswers_def Let_def split: prod.splits) (metis snd_conv)+

section \<open>Fake answers\<close>

definition rr_ip :: "RR \<Rightarrow> string option" where
  "rr_ip rr = (case rr of A _ w \<Rightarrow> Some (IP_String (IP4 w)) | AAAA _ w \<Rightarrow> Some (IP_String (IP6 w [])) | _ \<Rightarrow> None)"

lemma family_ip_A:
  assumes "ip \<in> family_ips TypeA"
  obtains w where "ip = string4 w"
  using assms fakeIPv4_string by (auto simp: family_ips_def)

lemma family_ip_AAAA:
  assumes "ip \<in> family_ips TypeAAAA"
  obtains w where "ip = string6 w" "\<not> Is4In6 (IP6 w [])"
proof -
  obtain k where k: "k < fakeIPv6_count" "ip = addr_String_opt (fakeIPv6_at k)"
    using assms by (auto simp: family_ips_def TypeA_def TypeAAAA_def)
  show thesis by (rule that [OF _ fakeIPv6_plain [OF k(1)]]) (simp only: k(2) fakeIPv6_string [OF k(1)])
qed

lemma buildFakeAnswer_ip:
  assumes "hdr_Rrtype h = q" "q = TypeA \<or> q = TypeAAAA" "ip \<in> family_ips q"
  shows "\<exists>rr. buildFakeAnswerRR h ip = Inr rr \<and> rr_ip rr = Some ip \<and> hdr_Rrtype (rr_Header rr) = q
    \<and> hdr_Name (rr_Header rr) = hdr_Name h"
proof (cases "q = TypeA")
  case True
  then obtain w where "ip = string4 w" using assms(3) family_ip_A by blast
  then show ?thesis using True assms(1)
    by (simp add: buildFakeAnswerRR_def ParseIP_def To4_def rr_ip_def IP_String_def Let_def)
next
  case False
  then have q: "q = TypeAAAA" using assms(2) by simp
  then obtain w where "ip = string6 w" "\<not> Is4In6 (IP6 w [])" using assms(3) family_ip_AAAA by blast
  then show ?thesis using q assms(1)
    by (simp add: buildFakeAnswerRR_def ParseIP_def ParseAddr_string6 To4_def rr_ip_def IP_String_def Let_def
        TypeA_def TypeAAAA_def)
qed

lemma d_allocate_ok:
  assumes "stores_inv (ds_fakes s)" "q = TypeA \<or> q = TypeAAAA" "d_allocate env now d q ttl s = Some (s', Inr ip)"
  shows "stores_inv (ds_fakes s')" "ip \<in> family_ips q" "ip \<noteq> []"
    "t < now + second \<Longrightarrow> snd (lookupFakeDomainByIP t t (ds_fakes s') ip) = Some (ToLower d)"
proof -
  from assms(3) obtain f where f: "allocateFakeIP (env_dnsCacheTTL env) now (ds_fakes s) d q ttl = Some (f, Inr ip)"
    and s': "s' = s\<lparr>ds_fakes := f\<rparr>"
    by (auto simp: d_allocate_def)
  show "stores_inv (ds_fakes s')" using stores_inv_allocate [OF assms(1) f] by (simp add: s')
  have d: "d \<noteq> []" using f by (auto simp: allocateFakeIP_def Allocate_def Let_def split: if_splits)
  show "ip \<in> family_ips q"
    by (rule allocateFakeIP_contract [OF assms(1) d assms(2), of "env_dnsCacheTTL env" now ttl]) (use f in auto)
  then show "ip \<noteq> []"
    using assms(2) family_ip_A [of ip] family_ip_AAAA [of ip] by (metis string4_nonempty string6_nonempty)
  show "snd (lookupFakeDomainByIP t t (ds_fakes s') ip) = Some (ToLower d)" if "t < now + second"
    using allocateFakeIP_lookup [OF assms(1) f] that fakeIPLifetime_bounds(1) [of "env_dnsCacheTTL env" ttl] by (simp add: s')
qed

text \<open>An address that stands for a domain, and answers that give no other address of the type asked for.\<close>

definition stands_for :: "instant \<Rightarrow> string \<Rightarrow> 16 word \<Rightarrow> string \<Rightarrow> dns_state \<Rightarrow> bool" where
  "stands_for now d q ip s \<longleftrightarrow> stores_inv (ds_fakes s) \<and> ip \<in> family_ips q \<and>
     (\<forall>t < now + second. snd (lookupFakeDomainByIP t t (ds_fakes s) ip) = Some (ToLower d))"

definition answers_only :: "16 word \<Rightarrow> string \<Rightarrow> RR list \<Rightarrow> bool" where
  "answers_only q ip answers \<longleftrightarrow>
     (\<forall>rr \<in> set answers. hdr_Rrtype (rr_Header rr) = q \<longrightarrow> rr_ip rr = Some ip) \<and> (\<exists>rr \<in> set answers. hdr_Rrtype (rr_Header rr) = q)"

definition exhausted :: "string \<Rightarrow> gerr" where
  "exhausted what = Error (what @ '': fake ip pool exhausted'')"

lemma d_allocate_total:
  assumes "stores_inv (ds_fakes s)" "d \<noteq> []" "q = TypeA \<or> q = TypeAAAA"
  obtains (exhausted) s' where "c_wrap what (d_allocate env now d q ttl) s = Some (s', Inl (exhausted what))"
    | (ok) s' ip where "c_wrap what (d_allocate env now d q ttl) s = Some (s', Inr ip)" "ip \<noteq> []" "stands_for now d q ip s'"
proof (rule allocateFakeIP_contract [OF assms, of "env_dnsCacheTTL env" now ttl])
  fix st' assume "allocateFakeIP (env_dnsCacheTTL env) now (ds_fakes s) d q ttl = Some (st', Inl (Error ''fake ip pool exhausted''))"
  then show thesis by (intro exhausted) (simp add: c_map_error_def c_wrap_def d_allocate_def exhausted_def)
next
  fix st' ip assume "allocateFakeIP (env_dnsCacheTTL env) now (ds_fakes s) d q ttl = Some (st', Inr ip)"
  then have a: "d_allocate env now d q ttl s = Some (s\<lparr>ds_fakes := st'\<rparr>, Inr ip)" by (simp add: d_allocate_def)
  note ok = d_allocate_ok [OF assms(1,3) a]
  show thesis using a ok by (intro that(2) [of "s\<lparr>ds_fakes := st'\<rparr>" ip]) (auto simp: c_map_error_def c_wrap_def stands_for_def)
qed

lemma replaceLoop_rest:
  assumes "q = TypeA \<or> q = TypeAAAA" "ip \<noteq> []" "ip \<in> family_ips q" "answers_only q ip acc"
  shows "\<exists>answers. replaceLoop env now d q rrs acc names ip True s = Some (s, Inr (answers, True)) \<and> answers_only q ip answers"
  using assms(4)
proof (induction rrs arbitrary: acc names)
  case (Cons rr rrs)
  show ?case
  proof (cases "hdr_Rrtype (rr_Header rr) = q")
    case False
    then show ?thesis using Cons.IH [of "acc @ [rr]"] Cons.prems by (auto simp: answers_only_def)
  next
    case True
    obtain fr where fr: "buildFakeAnswerRR (rr_Header rr) ip = Inr fr" "rr_ip fr = Some ip" "hdr_Rrtype (rr_Header fr) = q"
      using buildFakeAnswer_ip [OF True assms(1,3)] by blast
    then have "answers_only q ip (acc @ [fr])" using Cons.prems by (auto simp: answers_only_def)
    then show ?thesis using Cons.IH Cons.prems True fr assms(2) by (simp add: Let_def)
  qed
qed simp

lemma replaceLoop_start:
  assumes "q = TypeA \<or> q = TypeAAAA" "stores_inv (ds_fakes s)" "d \<noteq> []" "\<forall>rr \<in> set acc. hdr_Rrtype (rr_Header rr) \<noteq> q"
  shows "\<exists>s' x. replaceLoop env now d q rrs acc [] [] False s = Some (s', x) \<and>
    (case x of Inl e \<Rightarrow> e = exhausted ''allocate fake ip''
     | Inr (answers, r) \<Rightarrow> if r then \<exists>ip. stands_for now d q ip s' \<and> answers_only q ip answers else s' = s)"
  using assms(4)
proof (induction rrs arbitrary: acc)
  case (Cons rr rrs)
  show ?case
  proof (cases "hdr_Rrtype (rr_Header rr) = q")
    case False
    then show ?thesis using Cons.IH [of "acc @ [rr]"] Cons.prems by auto
  next
    case True
    show ?thesis
    proof (rule d_allocate_total [OF assms(2,3,1), of "''allocate fake ip''" env now "hdr_Ttl (rr_Header rr)"])
      fix s' assume "c_wrap ''allocate fake ip'' (d_allocate env now d q (hdr_Ttl (rr_Header rr))) s = Some (s', Inl (exhausted ''allocate fake ip''))"
      then show ?thesis using True by (simp add: Let_def c_bind_eval)
    next
      fix s1 ip assume a: "c_wrap ''allocate fake ip'' (d_allocate env now d q (hdr_Ttl (rr_Header rr))) s = Some (s1, Inr ip)"
        and ip: "ip \<noteq> []" "stands_for now d q ip s1"
      obtain fr where fr: "buildFakeAnswerRR (rr_Header rr) ip = Inr fr" "rr_ip fr = Some ip" "hdr_Rrtype (rr_Header fr) = q"
        using buildFakeAnswer_ip [OF True assms(1)] ip(2) unfolding stands_for_def by blast
      have "answers_only q ip (acc @ [fr])" using fr Cons.prems by (auto simp: answers_only_def)
      then obtain answers where "replaceLoop env now d q rrs (acc @ [fr]) [hdr_Name (rr_Header rr)] ip True s1 = Some (s1, Inr (answers, True))"
        "answers_only q ip answers"
        using replaceLoop_rest [OF assms(1) ip(1)] ip(2) unfolding stands_for_def by blast
      then show ?thesis using True a fr(1) ip(2) by (auto simp: Let_def c_bind_eval)
    qed
  qed
qed simp

lemma fake_response:
  assumes "shouldUseFakeIP env d" "d \<noteq> []" "q = TypeA \<or> q = TypeAAAA" "stores_inv (ds_fakes s)"
    and "msg_Question req = [question]" "q_Qtype question = q"
    and "env_exchange env (ds_exchanges s) req = Inr up" "msg_Rcode up = RcodeSuccess"
  shows "\<exists>s' r. buildFakeAddressResponse env now req d q s = Some (s', r) \<and>
    (case r of Inl e \<Rightarrow> e \<in> {exhausted ''allocate fake ip'', exhausted ''allocate fallback fake ip''}
     | Inr reply \<Rightarrow> \<exists>ip. stands_for now d q ip s' \<and> answers_only q ip (msg_Answer reply))"
proof -
  let ?s = "rememberRecordedDNSAnswers env now d (msg_Answer up) (s\<lparr>ds_exchanges := Suc (ds_exchanges s)\<rparr>)"
  have ex: "c_wrap ''upstream dns exchange'' (dnsExchange env req) s = Some (s\<lparr>ds_exchanges := Suc (ds_exchanges s)\<rparr>, Inr up)"
    by (simp add: c_map_error_def c_wrap_def dnsExchange_def assms(7))
  have md: "c_modify (rememberRecordedDNSAnswers env now d (msg_Answer up)) (s\<lparr>ds_exchanges := Suc (ds_exchanges s)\<rparr>) = Some (?s, Inr ())"
    by (simp add: c_modify_def)
  note eval = buildFakeAddressResponse_def c_bind_eval(1) [where m = "c_wrap ''upstream dns exchange'' (dnsExchange env req)" and s = s, OF ex]
    assms(8) c_bind_eval(1) [where m = "c_modify (rememberRecordedDNSAnswers env now d (msg_Answer up))", OF md] assms(1)
  have inv: "stores_inv (ds_fakes ?s)" using assms(4) by simp
  obtain s1 x where loop: "replaceLoop env now d q (msg_Answer up) [] [] [] False ?s = Some (s1, x)"
    and x: "case x of Inl e \<Rightarrow> e = exhausted ''allocate fake ip''
      | Inr (answers, r) \<Rightarrow> if r then \<exists>ip. stands_for now d q ip s1 \<and> answers_only q ip answers else s1 = ?s"
    using replaceLoop_start [OF assms(3) inv assms(2), of "[]" env now "msg_Answer up"] by auto
  show ?thesis
  proof (cases x)
    case (Inl e)
    then show ?thesis using x loop by (simp add: eval c_bind_eval)
  next
    case (Inr ar)
    obtain answers r where ar: "ar = (answers, r)" by (cases ar)
    show ?thesis
    proof (cases r)
      case True
      then show ?thesis using x loop by (auto simp: eval c_bind_eval Inr ar)
    next
      case False
      then have s1: "s1 = ?s" using x by (simp add: Inr ar)
      show ?thesis
      proof (rule d_allocate_total [OF inv assms(2,3), of "''allocate fallback fake ip''" env now "fallbackFakeTTL up"])
        fix s' assume "c_wrap ''allocate fallback fake ip'' (d_allocate env now d q (fallbackFakeTTL up)) ?s =
          Some (s', Inl (exhausted ''allocate fallback fake ip''))"
        then show ?thesis using loop False by (simp add: eval c_bind_eval Inr ar s1 assms(5))
      next
        fix s' ip assume a: "c_wrap ''allocate fallback fake ip'' (d_allocate env now d q (fallbackFakeTTL up)) ?s = Some (s', Inr ip)"
          and ip: "stands_for now d q ip s'"
        obtain fr where "buildQuestionFakeAnswerRR question ip (fallbackFakeTTL up) = Inr fr" "rr_ip fr = Some ip" "hdr_Rrtype (rr_Header fr) = q"
          using buildFakeAnswer_ip [of "\<lparr>hdr_Name = q_Name question, hdr_Rrtype = q_Qtype question, hdr_Class = q_Qclass question,
              hdr_Ttl = fallbackFakeTTL up\<rparr>" q ip] assms(3,6) ip unfolding buildQuestionFakeAnswerRR_def stands_for_def by auto
        then show ?thesis using loop False a ip by (auto simp: eval c_bind_eval Inr ar s1 assms(5) answers_only_def)
      qed
    qed
  qed
qed

lemma handleDNSQuery_answer:
  assumes "stores_inv (ds_fakes s)"
    and "msg_Question req = [question]" "q_Qclass question = ClassINET"
    and "q_Qtype question = TypeA \<or> q_Qtype question = TypeAAAA"
    and "shouldUseFakeIP env (ToLower (TrimSuffix (q_Name question) ''.''))"
    and "env_exchange env (ds_exchanges s) req = Inr up" "msg_Rcode up = RcodeSuccess"
  shows "\<exists>s' r. handleDNSQuery env now req s = Some (s', r) \<and>
    (case r of Inl e \<Rightarrow> e \<in> {exhausted ''allocate fake ip'', exhausted ''allocate fallback fake ip''}
     | Inr reply \<Rightarrow> \<exists>ip. stands_for now (ToLower (TrimSuffix (q_Name question) ''.'')) (q_Qtype question) ip s'
         \<and> answers_only (q_Qtype question) ip (msg_Answer reply))"
proof -
  let ?d = "ToLower (TrimSuffix (q_Name question) ''.'')" and ?q = "q_Qtype question"
  have "?d \<noteq> []" using assms(5) by (auto simp: shouldUseFakeIP_def classifyDomainRoute_def)
  from fake_response [OF assms(5) this assms(4,1,2) refl assms(6,7), of now]
  obtain s' r where r: "buildFakeAddressResponse env now req ?d ?q s = Some (s', r)"
    and c: "case r of Inl e \<Rightarrow> e \<in> {exhausted ''allocate fake ip'', exhausted ''allocate fallback fake ip''}
     | Inr reply \<Rightarrow> \<exists>ip. stands_for now ?d ?q ip s' \<and> answers_only ?q ip (msg_Answer reply)"
    by blast
  have h: "handleDNSQuery env now req s = Some (s', r)"
    using r assms(2-4) by (auto simp: handleDNSQuery_def Let_def TypeA_def TypeAAAA_def TypeHTTPS_def)
  with c show ?thesis by blast
qed

lemma stands_for_lookup:
  assumes "stands_for now d q ip s" "t < now + second"
  shows "snd (lookupDomainByIP t ip s) = Some (ToLower d)"
  using assms by (cases "lookupFakeDomainByIP t t (ds_fakes s) ip") (auto simp: stands_for_def lookupDomainByIP_def)

lemma stands_for_fake:
  assumes "stands_for now d q ip s" "q = TypeA \<or> q = TypeAAAA"
  shows "isFakeIPAddress (ds_fakes s) ip"
proof -
  have "v4.pool_ip ip \<or> v6.pool_ip ip" using assms by (auto simp: stands_for_def family_ips_pool)
  then show ?thesis using assms(1) pool_ip_fake by (simp add: stands_for_def)
qed

section \<open>Properties\<close>

text \<open>
  C21: A query for the addresses of a domain with a rule or on the blocklist, answered by the upstream
  server without an error, is always answered: with exactly one address of the type asked for, a
  fake one, which the program translates back to the domain asked for during the next second
  at least; no real address of that type gets through.  The only error is an exhausted pool.
\<close>

theorem handleDNSQuery_fake:
  assumes "fake_reach (ds_fakes s)"
    and "msg_Question req = [question]" "q_Qclass question = ClassINET"
    and "q_Qtype question = TypeA \<or> q_Qtype question = TypeAAAA"
    and "shouldUseFakeIP env (ToLower (TrimSuffix (q_Name question) ''.''))"
    and "env_exchange env (ds_exchanges s) req = Inr up" "msg_Rcode up = RcodeSuccess"
  shows "\<exists>s' r. handleDNSQuery env now req s = Some (s', r) \<and>
    (case r of
       Inl e \<Rightarrow> e \<in> {exhausted ''allocate fake ip'', exhausted ''allocate fallback fake ip''}
     | Inr reply \<Rightarrow> \<exists>ip. answers_only (q_Qtype question) ip (msg_Answer reply) \<and> isFakeIPAddress (ds_fakes s') ip \<and>
         (\<forall>t < now + second. snd (lookupDomainByIP t ip s') = Some (ToLower (TrimSuffix (q_Name question) ''.''))))"
proof -
  let ?d = "ToLower (TrimSuffix (q_Name question) ''.'')"
  have l: "ToLower ?d = ?d" by simp
  obtain s' r where h: "handleDNSQuery env now req s = Some (s', r)"
    and c: "case r of Inl e \<Rightarrow> e \<in> {exhausted ''allocate fake ip'', exhausted ''allocate fallback fake ip''}
     | Inr reply \<Rightarrow> \<exists>ip. stands_for now ?d (q_Qtype question) ip s' \<and> answers_only (q_Qtype question) ip (msg_Answer reply)"
    using handleDNSQuery_answer [OF fake_reach_inv [OF assms(1)] assms(2-7), of now] by blast
  have "isFakeIPAddress (ds_fakes s') ip \<and> (\<forall>t < now + second. snd (lookupDomainByIP t ip s') = Some ?d)"
    if "stands_for now ?d (q_Qtype question) ip s'" for ip
    using stands_for_fake [OF that assms(4)] stands_for_lookup [OF that] unfolding l by blast
  with h c show ?thesis by (intro exI [of _ s'] exI [of _ r]) (auto split: sum.splits)
qed

text \<open>
  C22: Every other query is answered with what the upstream server answers: one that does not ask
  exactly one question of the Internet class, one for another type, one for a domain
  without a rule that is not on the blocklist, and one the server answers with an error code.
\<close>

theorem handleDNSQuery_passthrough:
  assumes "env_exchange env (ds_exchanges s) req = Inr up"
    and "\<forall>question. msg_Question req = [question] \<longrightarrow> q_Qclass question \<noteq> ClassINET \<or> q_Qtype question \<notin> {TypeA, TypeAAAA}
      \<or> \<not> shouldUseFakeIP env (ToLower (TrimSuffix (q_Name question) ''.'')) \<or> msg_Rcode up \<noteq> RcodeSuccess"
  shows "\<exists>s'. handleDNSQuery env now req s = Some (s', Inr up)"
proof -
  have ex: "dnsExchange env req s = Some (s\<lparr>ds_exchanges := Suc (ds_exchanges s)\<rparr>, Inr up)"
    by (simp add: dnsExchange_def assms(1))
  have b: "\<exists>s'. buildFakeAddressResponse env now req d q s = Some (s', Inr up)"
    if "\<not> shouldUseFakeIP env d \<or> msg_Rcode up \<noteq> RcodeSuccess" for d q
    using that by (auto simp: buildFakeAddressResponse_def c_bind_def c_wrap_def c_map_error_def ex c_modify_def)
  show ?thesis
  proof (cases "\<exists>question. msg_Question req = [question]")
    case True
    then obtain question where "msg_Question req = [question]" by blast
    then show ?thesis using assms(2) ex b by (auto simp: handleDNSQuery_def Let_def)
  next
    case False
    then have "handleDNSQuery env now req = dnsExchange env req" by (auto simp: handleDNSQuery_def split: list.split)
    then show ?thesis using ex by simp
  qed
qed

lemma recordLoop_no_A:
  "\<forall>h ip. A h ip \<notin> set rs \<Longrightarrow> rec_ipv4 (fst (recordLoop env now d rs e s)) = rec_ipv4 e
    \<and> rec_ipv4Expire (fst (recordLoop env now d rs e s)) = rec_ipv4Expire e"
  by (induction env now d rs e s rule: recordLoop.induct) (auto simp: Let_def)

lemma recordLoop_A:
  "\<forall>h ip. A h ip \<notin> set post \<Longrightarrow>
   rec_ipv4 (fst (recordLoop env now d (pre @ A h ip # post) e s)) = string4 ip
    \<and> rec_ipv4Expire (fst (recordLoop env now d (pre @ A h ip # post) e s)) = now + uint (ttlOrDefault (hdr_Ttl h)) * second"
proof (induction pre arbitrary: e s)
  case Nil
  then show ?case using recordLoop_no_A [OF Nil] by (simp add: Let_def IP_String_def)
next
  case (Cons r pre)
  then show ?case by (cases r) (simp_all add: Let_def)
qed

text \<open>
  After the answers to a query have been recorded, the last IPv4 address among them is what a lookup
  of the domain in any letter case gives in the modes that ask for or prefer IPv4, until its TTL, five minutes
  if that is 0, runs out.
\<close>

lemma recorded_answer_found:
  assumes "answers = pre @ A h ip # post" and "\<forall>h ip. A h ip \<notin> set post" and "d \<noteq> []"
    and "ToLower d' = ToLower d" and "t < now + uint (ttlOrDefault (hdr_Ttl h)) * second"
    and "mode \<in> {DNSModeIPv4Only, DNSModePreferIPv4}"
  shows "snd (lookupRecordedDNSIP t d' mode (rememberRecordedDNSAnswers env now d answers s)) = Some (string4 ip)"
proof -
  let ?e0 = "case map_of (ds_recordedDNSIPs s) (ToLower d) of None \<Rightarrow> zeroRecorded | Some e \<Rightarrow> e"
  obtain e s1 where l: "recordLoop env now (ToLower d) answers ?e0 s = (e, s1)" by (cases "recordLoop env now (ToLower d) answers ?e0 s")
  have e: "rec_ipv4 e = string4 ip" "rec_ipv4Expire e = now + uint (ttlOrDefault (hdr_Ttl h)) * second"
    using recordLoop_A [OF assms(2), of env now "ToLower d" pre h ip ?e0 s] unfolding assms(1) [symmetric] l by simp_all
  have "d' \<noteq> []" using assms(3,4) by (metis ToLower_empty)
  moreover have "answers \<noteq> []" using assms(1) by simp
  ultimately show ?thesis
    using assms(3-6) e l by (auto simp: rememberRecordedDNSAnswers_def lookupRecordedDNSIP_def map_of_update Let_def)
qed

lemma checkRcode_state: "checkRcode env resp s = Some (s', x) \<Longrightarrow> s' = s"
  by (auto simp: checkRcode_def comp_simps split: if_splits)

lemma resolveAnswer_cache: "resolveAnswer env d mode ans s = Some (s', Inr ip) \<Longrightarrow> ds_dnsCache s' = ds_dnsCache s"
  by (auto simp: resolveAnswer_def resolveOther_def Let_def comp_simps dest!: checkRcode_state
      split: DNSMode.splits option.splits)

lemma remember_cache [simp]: "ds_dnsCache (rememberDomainIPMapping env now d ip s) = ds_dnsCache s"
  by (simp add: rememberDomainIPMapping_def split: option.split)

lemma doDNSResolve_cache:
  assumes "doDNSResolve env now d mode s = Some (s', Inr ip)"
  shows "ds_dnsCache s' = map_option (cache_Add (env_evict env) now (env_dnsCacheTTL env) d ip) (ds_dnsCache s)"
  using assms by (auto simp: doDNSResolve_def comp_simps dest!: checkRcode_state resolveAnswer_cache)

lemma cache_Get_Add:
  assumes "0 < millis now + millis life" "millis t < millis now + millis life \<or> life = 0"
  shows "\<exists>c'. cache_Get t k (cache_Add evict now life k v c) = (c', Some v)"
  using assms by (auto simp: cache_Get_def cache_Add_def)

text \<open>
  C23: The cache of resolved domains does not know the DNS mode: once a domain has been resolved in one
  mode, every lookup of it in any mode is answered from the cache with that address while the
  entry lives, so a lookup for IPv6 only can return an IPv4 address.
\<close>

theorem dnsCache_ignores_mode:
  assumes "dnsResolve env now d mode s = Some (s1, Inr (ip, False))" and "ds_dnsCache s \<noteq> None"
    and "now \<le> t" "millis t < millis now + millis (env_dnsCacheTTL env)" "0 \<le> now"
  shows "\<exists>s2. dnsResolve env t d mode' s1 = Some (s2, Inr (ip, True))"
proof -
  from assms(1,2) obtain s0 where "doDNSResolve env now d mode s0 = Some (s1, Inr ip)" "ds_dnsCache s0 \<noteq> None"
    by (auto simp: dnsResolve_def comp_simps split: option.splits prod.splits)
  then obtain c where c: "ds_dnsCache s1 = Some (cache_Add (env_evict env) now (env_dnsCacheTTL env) d ip c)"
    by (auto dest: doDNSResolve_cache)
  have "0 \<le> millis now" "millis now \<le> millis t" using assms(3,5) by (auto simp: millis_def zdiv_mono1)
  then have "\<exists>c'. cache_Get t d (cache_Add (env_evict env) now (env_dnsCacheTTL env) d ip c) = (c', Some ip)"
    using assms(4) by (intro cache_Get_Add) auto
  then show ?thesis using c by (auto simp: dnsResolve_def)
qed

section \<open>An upstream server with one address\<close>

definition sampleHeader :: RR_Header where
  "sampleHeader = \<lparr>hdr_Name = ''x.a.b.'', hdr_Rrtype = TypeA, hdr_Class = ClassINET, hdr_Ttl = 60\<rparr>"

definition sampleUp :: Msg where
  "sampleUp = emptyMsg\<lparr>msg_Answer := [A sampleHeader 0x01020304]\<rparr>"

definition sampleEnv :: "Policy labelNode option \<Rightarrow> dns_env" where
  "sampleEnv m = \<lparr>env_exchange = (\<lambda>n req. Inr sampleUp), env_evict = (\<lambda>k c. c), env_rcodeName = (\<lambda>n. ''?''),
     env_dnsCacheTTL = 60 * second, env_domainMatcher = m, env_gfw = \<lparr>gfwDomainMatcher = None, gfwBypassMatcher = None\<rparr>\<rparr>"

definition sampleState :: dns_state where
  "sampleState = \<lparr>ds_dnsCache = Some [], ds_ipDomainCache = None, ds_recordedDNSIPs = [], ds_fakes = exampleStores, ds_exchanges = 0\<rparr>"

definition sampleReq :: Msg where
  "sampleReq = SetQuestion ''X.a.b.'' TypeA"

lemma sample_domain: "ToLower (TrimSuffix ''X.a.b.'' ''.'') = ''x.a.b''"
  by (simp add: TrimSuffix_def HasSuffix_def ToLower_def lower_eval)

theorem handleDNSQuery_fake_witness:
  "\<exists>s' r. handleDNSQuery (sampleEnv (Some (LabelNode [] None (Some zeroPolicy)))) 0 sampleReq sampleState = Some (s', r) \<and>
    (case r of
       Inl e \<Rightarrow> e \<in> {exhausted ''allocate fake ip'', exhausted ''allocate fallback fake ip''}
     | Inr reply \<Rightarrow> \<exists>ip. answers_only TypeA ip (msg_Answer reply) \<and> isFakeIPAddress (ds_fakes s') ip \<and>
         (\<forall>t < 0 + second. snd (lookupDomainByIP t ip s') = Some ''x.a.b''))"
proof -
  let ?q = "\<lparr>q_Name = ''X.a.b.'', q_Qtype = TypeA, q_Qclass = ClassINET\<rparr>"
  let ?e = "sampleEnv (Some (LabelNode [] None (Some zeroPolicy)))"
  have "shouldUseFakeIP ?e ''x.a.b''"
    by (simp add: shouldUseFakeIP_def classifyDomainRoute_def sampleEnv_def DomainMatcher_Find_def label_steps.simps lower_eval)
  moreover have "ds_fakes sampleState = exampleStores" "msg_Question sampleReq = [?q]"
    "env_exchange ?e (ds_exchanges sampleState) sampleReq = Inr sampleUp" "msg_Rcode sampleUp = RcodeSuccess"
    by (simp_all add: sampleState_def sampleReq_def SetQuestion_def sampleEnv_def sampleUp_def emptyMsg_def RcodeSuccess_def)
  ultimately show ?thesis
    using handleDNSQuery_fake [of sampleState sampleReq ?q ?e sampleUp 0] exampleStores_reach
    unfolding Question.simps sample_domain by simp
qed

theorem handleDNSQuery_passthrough_witness:
  "\<exists>s'. handleDNSQuery (sampleEnv None) 0 sampleReq sampleState = Some (s', Inr sampleUp)"
proof (rule handleDNSQuery_passthrough)
  show "env_exchange (sampleEnv None) (ds_exchanges sampleState) sampleReq = Inr sampleUp" by (simp add: sampleEnv_def)
  have "\<not> shouldUseFakeIP (sampleEnv None) d" for d
    by (simp add: shouldUseFakeIP_def classifyDomainRoute_def sampleEnv_def isGFWDomain_def Let_def)
  then show "\<forall>question. msg_Question sampleReq = [question] \<longrightarrow> q_Qclass question \<noteq> ClassINET \<or> q_Qtype question \<notin> {TypeA, TypeAAAA}
      \<or> \<not> shouldUseFakeIP (sampleEnv None) (ToLower (TrimSuffix (q_Name question) ''.'')) \<or> msg_Rcode sampleUp \<noteq> RcodeSuccess"
    by simp
qed

lemma sample_resolve:
  "\<exists>s1. dnsResolve (sampleEnv None) 0 ''x.a.b'' DNSModePreferIPv4 sampleState = Some (s1, Inr (string4 0x01020304, False))"
  by (simp add: dnsResolve_def sampleState_def cache_Get_def doDNSResolve_def c_bind_def c_wrap_def c_map_error_def dnsExchange_def
      sampleEnv_def sampleUp_def emptyMsg_def checkRcode_def RcodeSuccess_def resolveAnswer_def ip4_text_def IP_String_def c_modify_def)

theorem dnsCache_ignores_mode_witness:
  "\<exists>s1 s2. dnsResolve (sampleEnv None) 0 ''x.a.b'' DNSModePreferIPv4 sampleState = Some (s1, Inr (string4 0x01020304, False)) \<and>
    dnsResolve (sampleEnv None) 5 ''x.a.b'' DNSModeIPv6Only s1 = Some (s2, Inr (string4 0x01020304, True))"
proof -
  obtain s1 where s1: "dnsResolve (sampleEnv None) 0 ''x.a.b'' DNSModePreferIPv4 sampleState = Some (s1, Inr (string4 0x01020304, False))"
    using sample_resolve by blast
  have "\<exists>s2. dnsResolve (sampleEnv None) 5 ''x.a.b'' DNSModeIPv6Only s1 = Some (s2, Inr (string4 0x01020304, True))"
    by (rule dnsCache_ignores_mode [OF s1]) (simp_all add: sampleState_def sampleEnv_def millis_def second_def)
  with s1 show ?thesis by blast
qed

end
