(* ===== verification/IP_Pool.thy ===== *)
theory IP_Pool
  imports Complex_Main Rule_Match "HOL-Library.Product_Lexorder" "HOL-Library.Multiset"
begin

text \<open>
  Pools of addresses, \<^verbatim>\<open>src/internal/ip_pool.go\<close>: reading a pool from the configuration, scanning it,
  keeping the best addresses, and taking one of them by weighted round robin.

  The system resolver is the parameter \<open>lookupIP\<close>.  The outcomes of the dials of a scan are an
  argument, in the order in which the goroutines deliver them.  Losses and weights are rational
  numbers where the code computes in floating point.  \<open>pool_ok\<close> is the invariant of a pool and
  \<open>pool_reach\<close> the pools the operations reach.
\<close>

section \<open>Definitions\<close>

definition tagPrefix :: string where "tagPrefix = ''$''"
definition defaultTimeout :: duration where "defaultTimeout = second"
definition defaultUpdateInterval :: duration where "defaultUpdateInterval = 30 * 60 * second"
definition defaultMaxConcurrency :: int where "defaultMaxConcurrency = 100"
definition defaultTopIPCount :: int where "defaultTopIPCount = 3"
definition defaultAttempts :: int where "defaultAttempts = 4"
definition maxIPPoolSize :: nat where "maxIPPoolSize = 1000"
definition weightScaleFactor :: rat where "weightScaleFactor = 10000"
definition minWeight :: rat where "minWeight = 1"
definition maxWeight :: rat where "maxWeight = 10000"

record IPPool =
  pool_ips :: "string list"
  pool_port :: "16 word"
  pool_topIPCount :: "8 word"
  pool_attempts :: "8 word"
  pool_timeout :: duration
  pool_updateInterval :: duration
  pool_bestIndexes :: "nat list"
  pool_bestWeights :: "int list"
  pool_totalWeight :: int
  pool_curValidIPs :: "32 word"
  pool_cancelled :: bool
  pool_concurrency :: int
  pool_counter :: "32 word"

definition zeroPool :: IPPool where
  "zeroPool = \<lparr>pool_ips = [], pool_port = 0, pool_topIPCount = 0, pool_attempts = 0, pool_timeout = 0, pool_updateInterval = 0, pool_bestIndexes = [],
     pool_bestWeights = [], pool_totalWeight = 0, pool_curValidIPs = 0, pool_cancelled = False, pool_concurrency = 0, pool_counter = 0\<rparr>"

subsection \<open>Reading a pool\<close>

text \<open>The addresses of a prefix from its address on, as long as the pool has room.\<close>

function cidrLoop :: "string \<Rightarrow> prefix \<Rightarrow> addr \<Rightarrow> string list \<Rightarrow> string list go" where
  "cidrLoop s prefix a acc =
     (if \<not> Contains prefix a then Inr acc
      else if maxIPPoolSize \<le> length acc then
        Inl (Error (''CIDR '' @ s @ '' exceeds max pool size ('' @ string_of_nat maxIPPoolSize @ '')''))
      else let acc1 = acc @ [addr_String a] in
        (case addr_Next a of
           None \<Rightarrow> Inr acc1
         | Some n \<Rightarrow> if \<not> Contains prefix n then Inr acc1 else cidrLoop s prefix n acc1))"
  by pat_completeness auto
termination
  by (relation "measure (\<lambda>(s, p, a, acc). maxIPPoolSize - length acc)") (auto simp: maxIPPoolSize_def)

declare cidrLoop.simps [simp del]

fun resolvedLoop :: "string \<Rightarrow> addr list \<Rightarrow> string list \<Rightarrow> string list go" where
  "resolvedLoop s [] acc = Inr acc"
| "resolvedLoop s (a # as) acc =
     (if maxIPPoolSize \<le> length acc then Inl (Error (''DNS resolution for '' @ s @ '' exceeds max pool size''))
      else resolvedLoop s as (acc @ [addr_String a]))"

text \<open>One expanded source; \<open>lookupIP\<close> is the system resolver.\<close>

definition parseSource :: "(string \<Rightarrow> addr list go) \<Rightarrow> string \<Rightarrow> string list \<Rightarrow> string list go" where
  "parseSource lookupIP s acc =
     (if maxIPPoolSize \<le> length acc then
        Inl (Error (''IP pool exceeds maximum size ('' @ string_of_nat maxIPPoolSize @ '') during parsing''))
      else case ParseAddr s of
        Some a \<Rightarrow> Inr (acc @ [s])
      | None \<Rightarrow>
          (case ParsePrefix s of
             Some p \<Rightarrow> cidrLoop s p (prefix_Addr p) acc
           | None \<Rightarrow>
               (case lookupIP s of
                  Inl (Error e) \<Rightarrow> Inl (Error (''DNS lookup failed for '' @ s @ '': '' @ e))
                | Inl e \<Rightarrow> Inl e
                | Inr addrs \<Rightarrow> resolvedLoop s addrs acc)))"

fun parseSources :: "(string \<Rightarrow> addr list go) \<Rightarrow> string list \<Rightarrow> string list \<Rightarrow> string list go" where
  "parseSources lookupIP [] acc = Inr acc"
| "parseSources lookupIP (s # ss) acc = go_bind (parseSource lookupIP s acc) (parseSources lookupIP ss)"

definition parseIPList :: "(string \<Rightarrow> addr list go) \<Rightarrow> string list \<Rightarrow> string list go" where
  "parseIPList lookupIP sources = parseSources lookupIP (concat (map expandPattern sources)) []"

definition poolDuration :: "string \<Rightarrow> duration \<Rightarrow> string \<Rightarrow> duration go" where
  "poolDuration name dflt s =
     (if s = [] then Inr dflt
      else case ParseDuration s of
        Inl (Panic e) \<Rightarrow> Inl (Panic e)
      | Inl (Error e) \<Rightarrow> Inl (Error (''invalid '' @ name @ '': '' @ s))
      | Inr d \<Rightarrow> if d \<le> 0 then Inl (Error (''invalid '' @ name @ '': '' @ s)) else Inr d)"

definition pool_check :: "bool \<Rightarrow> string \<Rightarrow> unit go" where
  "pool_check bad msg = (if bad then Inl (Error msg) else Inr ())"

definition IPPool_UnmarshalJSON :: "(string \<Rightarrow> addr list go) \<Rightarrow> (string \<times> json) list \<Rightarrow> IPPool go" where
  "IPPool_UnmarshalJSON lookupIP b =
     go_bind (jfield jstrings [] (jmembers b ''ips'')) (\<lambda>tIPs.
     go_bind (jvalue jint 0 (jmembers b ''port'')) (\<lambda>tPort.
     go_bind (jvalue jint 0 (jmembers b ''top_ip_count'')) (\<lambda>tTopIPCount.
     go_bind (jvalue jint 0 (jmembers b ''max_concurrency'')) (\<lambda>tMaxConcurrency.
     go_bind (jvalue jstring [] (jmembers b ''timeout'')) (\<lambda>tTimeout.
     go_bind (jvalue jstring [] (jmembers b ''update_interval'')) (\<lambda>tUpdateInterval.
     go_bind (jvalue jint 0 (jmembers b ''attempts'')) (\<lambda>tAttempts.
     go_bind (parseIPList lookupIP tIPs) (\<lambda>ipList.
     go_bind (pool_check (ipList = []) ''no valid IPs after parsing'') (\<lambda>_.
     go_bind (pool_check (length ipList > maxIPPoolSize)
       (''IP pool exceeds maximum size ('' @ string_of_nat maxIPPoolSize @ ''): '' @ string_of_nat (length ipList))) (\<lambda>_.
     go_bind (pool_check (int (length ipList) < tTopIPCount)
       (''IP count ('' @ string_of_nat (length ipList) @ '') less than top_ip_count ('' @ Itoa tTopIPCount @ '')'')) (\<lambda>_.
     go_bind (pool_check (tPort \<le> 0 \<or> tPort > 65535) (''invalid port: '' @ Itoa tPort)) (\<lambda>_.
     go_bind (pool_check (tMaxConcurrency \<noteq> 0 \<and> tMaxConcurrency < 1) (''invalid max_concurrency: '' @ Itoa tMaxConcurrency)) (\<lambda>_.
     go_bind (pool_check (tTopIPCount \<noteq> 0 \<and> (tTopIPCount \<le> 0 \<or> tTopIPCount > 255 \<or> tTopIPCount > int (length ipList)))
       (''invalid top_ip_count: '' @ Itoa tTopIPCount)) (\<lambda>_.
     go_bind (pool_check (tAttempts \<noteq> 0 \<and> (tAttempts \<le> 0 \<or> tAttempts > 255)) (''invalid attempts: '' @ Itoa tAttempts)) (\<lambda>_.
     go_bind (poolDuration ''timeout'' defaultTimeout tTimeout) (\<lambda>vTimeout.
     go_bind (poolDuration ''update_interval'' defaultUpdateInterval tUpdateInterval) (\<lambda>vUpdateInterval.
     let topCount = (if tTopIPCount = 0 then defaultTopIPCount else tTopIPCount);
         vAttempts = (if tAttempts = 0 then defaultAttempts else tAttempts)
     in Inr (zeroPool\<lparr>pool_ips := ipList, pool_port := word_of_int tPort, pool_topIPCount := word_of_int topCount,
       pool_attempts := word_of_int vAttempts, pool_timeout := vTimeout, pool_updateInterval := vUpdateInterval,
       pool_concurrency := (if tMaxConcurrency = 0 then defaultMaxConcurrency else tMaxConcurrency),
       pool_bestIndexes := replicate (nat topCount) 0, pool_bestWeights := replicate (nat topCount) 0\<rparr>))))))))))))))))))"

subsection \<open>Scanning\<close>

record ipResult =
  res_ipIndex :: nat
  res_latency :: duration
  res_loss :: rat

text \<open>
  The outcome of the dials of one address, one per attempt: the time it took, or that it
  failed.  The logging of the result is left out.
\<close>

definition testIP :: "IPPool \<Rightarrow> duration option list \<Rightarrow> duration \<times> rat" where
  "testIP p dials =
     (let ok = map the (filter (\<lambda>d. d \<noteq> None) dials);
          successCount = int (length ok);
          totalLatency = int64 (sum_list ok);
          lossRate = 1 - of_int successCount / of_int (uint (pool_attempts p))
      in if successCount = 0 then (2 ^ 63 - 1, lossRate) else (go_div totalLatency successCount, lossRate))"

text \<open>The weight of a result, computed in rational numbers where the code has floating point.\<close>

definition resultWeight :: "ipResult \<Rightarrow> int" where
  "resultWeight res =
     (let latencyMs = of_int (res_latency res) / 1000000;
          weightVal = weightScaleFactor / (latencyMs * (1 + res_loss res) + 1 / 100000)
      in floor (if weightVal < minWeight then minWeight else if weightVal > maxWeight then maxWeight else weightVal))"

fun bestLoop :: "nat \<Rightarrow> ipResult list \<Rightarrow> nat \<Rightarrow> int \<Rightarrow> IPPool \<Rightarrow> (IPPool \<times> nat \<times> int) go" where
  "bestLoop topn [] i tot p = Inr (p, i, tot)"
| "bestLoop topn (res # results) i tot p =
     (if topn \<le> i then Inr (p, i, tot)
      else if length (pool_bestIndexes p) \<le> i \<or> length (pool_bestWeights p) \<le> i then Inl (Panic ''index out of range'')
      else let weight = resultWeight res in
        bestLoop topn results (Suc i) (tot + weight)
          (p\<lparr>pool_bestIndexes := (pool_bestIndexes p)[i := res_ipIndex res], pool_bestWeights := (pool_bestWeights p)[i := weight]\<rparr>))"

definition updateBest :: "IPPool \<Rightarrow> ipResult list \<Rightarrow> IPPool go" where
  "updateBest p results0 =
     (if results0 = [] then Inr p
      else
        let results = sort_key (\<lambda>r. (res_loss r, res_latency r)) results0;
            topn = unat (pool_topIPCount p)
        in go_bind (bestLoop topn results 0 0 p) (\<lambda>(p1, validCount, tot).
             if length (pool_bestWeights p1) < topn then Inl (Panic ''index out of range'')
             else
               let p2 = p1\<lparr>pool_bestWeights := take validCount (pool_bestWeights p1) @ replicate (topn - validCount) 0
                             @ drop (max validCount topn) (pool_bestWeights p1)\<rparr>
               in if list_all (\<lambda>i. i < length (pool_ips p2)) (take validCount (pool_bestIndexes p2))
                  then Inr (p2\<lparr>pool_curValidIPs := word_of_nat validCount, pool_totalWeight := tot\<rparr>)
                  else Inl (Panic ''index out of range'')))"

text \<open>
  The outcomes of the probes, one per address, in the order in which the goroutines deliver their
  results.
\<close>

definition scan :: "IPPool \<Rightarrow> (nat \<times> duration option list) list \<Rightarrow> IPPool go" where
  "scan p probes =
     (if pool_cancelled p then Inr p
      else updateBest p (filter (\<lambda>r. res_loss r < 1)
        (map (\<lambda>(i, dials). let (l, x) = testIP p dials in \<lparr>res_ipIndex = i, res_latency = l, res_loss = x\<rparr>) probes)))"

definition pool_Init :: "IPPool \<Rightarrow> (nat \<times> duration option list) list \<Rightarrow> IPPool go" where
  "pool_Init p probes =
     go_bind (scan (p\<lparr>pool_cancelled := False\<rparr>) probes) (\<lambda>p1.
       if pool_curValidIPs p1 > 0 then Inr p1 else Inl (Error ''no valid IP found after initial scan''))"

subsection \<open>Picking an address\<close>

fun pickLoop :: "int list \<Rightarrow> nat list \<Rightarrow> int \<Rightarrow> int \<Rightarrow> nat option" where
  "pickLoop (w # ws) (i # is) acc target = (if acc + w > target then Some i else pickLoop ws is (acc + w) target)"
| "pickLoop _ _ acc target = None"

definition pool_Get :: "IPPool \<Rightarrow> (IPPool \<times> string) go" where
  "pool_Get p =
     (let validCount = unat (pool_curValidIPs p) in
      if validCount = 0 then Inr (p, [])
      else go_bind (go_slice (pool_bestIndexes p) 0 (int validCount)) (\<lambda>indexes.
        go_bind (go_slice (pool_bestWeights p) 0 (int validCount)) (\<lambda>weights.
          let current = pool_counter p;
              p1 = p\<lparr>pool_counter := pool_counter p + 1\<rparr>;
              tot = (word_of_int (pool_totalWeight p) :: 32 word)
          in if tot = 0 then Inl (Panic ''integer divide by zero'')
             else
               let target = int (unat (current mod tot)) in
               (case pickLoop weights indexes 0 target of
                  Some i \<Rightarrow> go_bind (go_index (pool_ips p) (int i)) (\<lambda>ip. Inr (p1, ip))
                | None \<Rightarrow> go_bind (go_index indexes 0) (\<lambda>i. go_bind (go_index (pool_ips p) (int i)) (\<lambda>ip. Inr (p1, ip)))))))"

definition getFromIPPool :: "(string, IPPool) gomap \<Rightarrow> string \<Rightarrow> (string, IPPool) gomap \<times> string go" where
  "getFromIPPool pools tag =
     (if pools = [] then (pools, Inl (Error ''no ip pools''))
      else case map_of pools tag of
        None \<Rightarrow> (pools, Inl (Error (''ip pool '' @ tag @ '' does not exist'')))
      | Some pool \<Rightarrow>
          (case pool_Get pool of
             Inl e \<Rightarrow> (pools, Inl e)
           | Inr (pool1, ip) \<Rightarrow>
               (AList.update tag pool1 pools,
                if ip = [] then Inl (Error (''cannot get ip from '' @ tag)) else Inr ip)))"

section \<open>The addresses of a pool\<close>

definition address_text :: "string \<Rightarrow> bool" where
  "address_text s \<longleftrightarrow> ParseAddr s \<noteq> None \<or> (\<exists>a. s = addr_String a)"

lemma address_text_intros [simp]: "address_text (addr_String a)" "ParseAddr s = Some a \<Longrightarrow> address_text s"
  by (auto simp: address_text_def)

lemma address_text_nonempty: "address_text s \<Longrightarrow> s \<noteq> []"
proof -
  have "addr_String a \<noteq> []" for a by (cases a) (auto simp: string6_nonempty)
  then have "\<not> address_text []" unfolding address_text_def by (metis ParseAddr_Nil)
  then show "address_text s \<Longrightarrow> s \<noteq> []" by auto
qed

definition pool_list_ok :: "string list \<Rightarrow> bool" where
  "pool_list_ok xs \<longleftrightarrow> length xs \<le> maxIPPoolSize \<and> list_all address_text xs"

lemma pool_list_ok_snoc:
  "pool_list_ok xs \<Longrightarrow> length xs < maxIPPoolSize \<Longrightarrow> address_text x \<Longrightarrow> pool_list_ok (xs @ [x])"
  by (simp add: pool_list_ok_def)

lemma cidrLoop_ok: "pool_list_ok acc \<Longrightarrow> cidrLoop s p a acc = Inr r \<Longrightarrow> pool_list_ok r"
proof (induction s p a acc rule: cidrLoop.induct)
  case (1 s p a acc)
  show ?case
    using 1(2,3) 1(1) [OF _ _ refl] pool_list_ok_snoc [OF 1(2) _ address_text_intros(1)]
    by (subst (asm) cidrLoop.simps) (auto simp: Let_def not_le split: if_splits option.splits)
qed

lemma resolvedLoop_ok: "pool_list_ok acc \<Longrightarrow> resolvedLoop s as acc = Inr r \<Longrightarrow> pool_list_ok r"
  by (induction s as acc rule: resolvedLoop.induct)
    (auto simp: not_le dest: pool_list_ok_snoc [OF _ _ address_text_intros(1)] split: if_splits)

lemma parseSource_ok: "pool_list_ok acc \<Longrightarrow> parseSource lookupIP s acc = Inr r \<Longrightarrow> pool_list_ok r"
  by (auto simp: parseSource_def not_le intro: pool_list_ok_snoc cidrLoop_ok resolvedLoop_ok
      split: if_splits option.splits sum.splits gerr.splits)

lemma parseSources_ok: "pool_list_ok acc \<Longrightarrow> parseSources lookupIP ss acc = Inr r \<Longrightarrow> pool_list_ok r"
  by (induction lookupIP ss acc rule: parseSources.induct) (auto simp: go_bind_Inr_iff dest: parseSource_ok)

lemma parseIPList_ok: "parseIPList lookupIP sources = Inr r \<Longrightarrow> pool_list_ok r"
  using parseSources_ok [of "[]"] by (simp add: parseIPList_def pool_list_ok_def [of "[]"])

section \<open>The invariant of a pool\<close>

definition pool_best :: "IPPool \<Rightarrow> (nat \<times> int) list" where
  "pool_best p = take (unat (pool_curValidIPs p)) (zip (pool_bestIndexes p) (pool_bestWeights p))"

definition pool_ok :: "IPPool \<Rightarrow> bool" where
  "pool_ok p \<longleftrightarrow>
     list_all address_text (pool_ips p)
     \<and> length (pool_bestIndexes p) = unat (pool_topIPCount p) \<and> length (pool_bestWeights p) = unat (pool_topIPCount p)
     \<and> unat (pool_curValidIPs p) \<le> unat (pool_topIPCount p)
     \<and> list_all (\<lambda>(i, w). i < length (pool_ips p) \<and> 1 \<le> w \<and> w \<le> 10000) (pool_best p)
     \<and> pool_totalWeight p = sum_list (map snd (pool_best p))"

lemma resultWeight_bounds: "1 \<le> resultWeight r" "resultWeight r \<le> 10000"
  by (auto simp: resultWeight_def Let_def minWeight_def maxWeight_def le_floor_iff floor_le_iff)

lemma pool_check_Inr: "pool_check bad msg = Inr u \<longleftrightarrow> \<not> bad"
  by (auto simp: pool_check_def)

lemma UnmarshalJSON_ok:
  assumes "IPPool_UnmarshalJSON lookupIP b = Inr p"
  shows "pool_ok p \<and> pool_ips p \<noteq> [] \<and> length (pool_ips p) \<le> 1000 \<and> pool_topIPCount p > 0"
proof -
  obtain l tp where l: "pool_list_ok l" "l \<noteq> []" and tp: "0 < tp" "tp \<le> 255"
    and p: "pool_ips p = l" "pool_topIPCount p = word_of_int tp" "pool_bestIndexes p = replicate (nat tp) 0"
      "pool_bestWeights p = replicate (nat tp) 0" "pool_curValidIPs p = 0" "pool_totalWeight p = 0"
  proof -
    have "\<exists>tIPs t. parseIPList lookupIP tIPs = Inr (pool_ips p) \<and> pool_ips p \<noteq> []
      \<and> \<not> (t \<noteq> 0 \<and> (t \<le> 0 \<or> t > 255 \<or> t > int (length (pool_ips p))))
      \<and> pool_topIPCount p = word_of_int (if t = 0 then defaultTopIPCount else t)
      \<and> pool_bestIndexes p = replicate (nat (if t = 0 then defaultTopIPCount else t)) 0
      \<and> pool_bestWeights p = replicate (nat (if t = 0 then defaultTopIPCount else t)) 0
      \<and> pool_curValidIPs p = 0 \<and> pool_totalWeight p = 0"
      using assms [unfolded IPPool_UnmarshalJSON_def go_bind_Inr_iff pool_check_Inr Let_def sum.inject zeroPool_def]
      by (elim exE conjE, hypsubst, simp (no_asm) only: IPPool.simps) (intro exI conjI, (assumption | rule refl)+)
    then obtain tIPs t where t: "parseIPList lookupIP tIPs = Inr (pool_ips p)" "pool_ips p \<noteq> []"
      "\<not> (t \<noteq> 0 \<and> (t \<le> 0 \<or> t > 255 \<or> t > int (length (pool_ips p))))"
      "pool_topIPCount p = word_of_int (if t = 0 then defaultTopIPCount else t)"
      "pool_bestIndexes p = replicate (nat (if t = 0 then defaultTopIPCount else t)) 0"
      "pool_bestWeights p = replicate (nat (if t = 0 then defaultTopIPCount else t)) 0"
      "pool_curValidIPs p = 0" "pool_totalWeight p = 0"
      by blast
    have "0 < (if t = 0 then defaultTopIPCount else t)" "(if t = 0 then defaultTopIPCount else t) \<le> 255"
      using t(3) by (auto simp: defaultTopIPCount_def)
    then show ?thesis using that [OF parseIPList_ok [OF t(1)] t(2) _ _ refl t(4-8)] by blast
  qed
  have "uint (word_of_int tp :: 8 word) = tp" using tp by (simp add: uint_word_of_int_eq take_bit_int_eq_self)
  then have u: "unat (pool_topIPCount p) = nat tp" unfolding p by (metis unat_eq_nat_uint)
  then have "pool_topIPCount p > 0" using tp by (metis unat_gt_0 word_gt_0 zero_less_nat_eq nat_0_iff not_le)
  moreover have "pool_ok p" unfolding pool_ok_def pool_best_def u p(1,3-6) using l(1) by (simp add: pool_list_ok_def)
  ultimately show ?thesis using l p(1) by (simp add: pool_list_ok_def maxIPPoolSize_def)
qed

section \<open>Updating the best addresses\<close>

lemma take_Suc_update: "i < length xs \<Longrightarrow> take (Suc i) (xs[i := x]) = take i xs @ [x]"
  by (simp add: take_Suc_conv_app_nth)

lemma bestLoop_eq:
  fixes p :: IPPool
  assumes "length (pool_bestIndexes p) = topn" "length (pool_bestWeights p) = topn" "i \<le> topn"
  shows "bestLoop topn rs i tot p = Inr (
    p\<lparr>pool_bestIndexes := take i (pool_bestIndexes p) @ map res_ipIndex (take (topn - i) rs) @ drop (i + length (take (topn - i) rs)) (pool_bestIndexes p),
      pool_bestWeights := take i (pool_bestWeights p) @ map resultWeight (take (topn - i) rs) @ drop (i + length (take (topn - i) rs)) (pool_bestWeights p)\<rparr>,
    i + length (take (topn - i) rs), tot + sum_list (map resultWeight (take (topn - i) rs)))"
  using assms
proof (induction rs arbitrary: i tot p)
  case Nil
  then show ?case by simp
next
  case (Cons r rs)
  show ?case
  proof (cases "i < topn")
    case False
    then show ?thesis using Cons.prems by simp
  next
    case True
    let ?p = "p\<lparr>pool_bestIndexes := (pool_bestIndexes p)[i := res_ipIndex r], pool_bestWeights := (pool_bestWeights p)[i := resultWeight r]\<rparr>"
    have t: "take (topn - i) (r # rs) = r # take (topn - Suc i) rs"
      using True by (simp add: take_Cons')
    have "bestLoop topn rs (Suc i) (tot + resultWeight r) ?p = Inr (
      ?p\<lparr>pool_bestIndexes := take (Suc i) (pool_bestIndexes ?p) @ map res_ipIndex (take (topn - Suc i) rs) @ drop (Suc i + length (take (topn - Suc i) rs)) (pool_bestIndexes ?p),
        pool_bestWeights := take (Suc i) (pool_bestWeights ?p) @ map resultWeight (take (topn - Suc i) rs) @ drop (Suc i + length (take (topn - Suc i) rs)) (pool_bestWeights ?p)\<rparr>,
      Suc i + length (take (topn - Suc i) rs), tot + resultWeight r + sum_list (map resultWeight (take (topn - Suc i) rs)))"
      using Cons.prems True by (intro Cons.IH) auto
    then show ?thesis using True Cons.prems by (simp add: t Let_def take_Suc_update add.assoc)
  qed
qed

definition pool_key :: "ipResult \<Rightarrow> rat \<times> duration" where
  "pool_key r = (res_loss r, res_latency r)"

definition pool_chosen :: "IPPool \<Rightarrow> ipResult list \<Rightarrow> ipResult list" where
  "pool_chosen p results = take (unat (pool_topIPCount p)) (sort_key pool_key results)"

lemma chosen_length: "length (pool_chosen p results) \<le> unat (pool_topIPCount p)"
  by (simp add: pool_chosen_def)

lemma unat_chosen: "unat (word_of_nat (length (pool_chosen p results)) :: 32 word) = length (pool_chosen p results)"
proof -
  have "length (pool_chosen p results) < 256"
    using chosen_length [of p results] byte_less [of "pool_topIPCount p"] by simp
  then show ?thesis by (simp add: unsigned_of_nat take_bit_nat_eq_self)
qed

lemma updateBest_result:
  assumes "pool_ok p" "results \<noteq> []" "\<forall>r \<in> set results. res_ipIndex r < length (pool_ips p)"
  obtains bi bw where "updateBest p results = Inr (p\<lparr>pool_bestIndexes := map res_ipIndex (pool_chosen p results) @ bi,
      pool_bestWeights := map resultWeight (pool_chosen p results) @ bw,
      pool_curValidIPs := word_of_nat (length (pool_chosen p results)),
      pool_totalWeight := sum_list (map resultWeight (pool_chosen p results))\<rparr>)"
    and "length (map res_ipIndex (pool_chosen p results) @ bi) = unat (pool_topIPCount p)"
    and "length (map resultWeight (pool_chosen p results) @ bw) = unat (pool_topIPCount p)"
proof -
  let ?n = "length (pool_chosen p results)"
  let ?t = "unat (pool_topIPCount p)"
  have len: "length (pool_bestIndexes p) = ?t" "length (pool_bestWeights p) = ?t" using assms(1) by (auto simp: pool_ok_def)
  have s: "set (pool_chosen p results) \<subseteq> set results"
    unfolding pool_chosen_def by (metis set_sort set_take_subset)
  have cl: "min (length results) ?t = ?n" by (simp add: pool_chosen_def)
  have k: "sort_key (\<lambda>r. (res_loss r, res_latency r)) = sort_key pool_key" by (simp add: pool_key_def [abs_def])
  have "updateBest p results = Inr (p\<lparr>pool_bestIndexes := map res_ipIndex (pool_chosen p results) @ drop ?n (pool_bestIndexes p),
      pool_bestWeights := map resultWeight (pool_chosen p results) @ replicate (?t - ?n) 0,
      pool_curValidIPs := word_of_nat ?n, pool_totalWeight := sum_list (map resultWeight (pool_chosen p results))\<rparr>)"
    using assms(2,3) s chosen_length [of p results]
    by (auto simp: updateBest_def k bestLoop_eq [OF len] pool_chosen_def [symmetric] Let_def list_all_iff len cl)
  then show thesis using len chosen_length [of p results] by (intro that) auto
qed

lemma updateBest_ok:
  assumes "pool_ok p" "\<forall>r \<in> set results. res_ipIndex r < length (pool_ips p)"
  shows "\<exists>p'. updateBest p results = Inr p' \<and> pool_ok p' \<and> pool_ips p' = pool_ips p \<and> pool_topIPCount p' = pool_topIPCount p"
proof (cases "results = []")
  case True
  then show ?thesis using assms by (simp add: updateBest_def)
next
  case False
  obtain bi bw where u: "updateBest p results = Inr (p\<lparr>pool_bestIndexes := map res_ipIndex (pool_chosen p results) @ bi,
      pool_bestWeights := map resultWeight (pool_chosen p results) @ bw,
      pool_curValidIPs := word_of_nat (length (pool_chosen p results)),
      pool_totalWeight := sum_list (map resultWeight (pool_chosen p results))\<rparr>)" (is "_ = Inr ?p")
    and l: "length (map res_ipIndex (pool_chosen p results) @ bi) = unat (pool_topIPCount p)"
      "length (map resultWeight (pool_chosen p results) @ bw) = unat (pool_topIPCount p)"
    by (rule updateBest_result [OF assms(1) False assms(2)])
  have s: "set (pool_chosen p results) \<subseteq> set results"
    unfolding pool_chosen_def by (metis set_sort set_take_subset)
  have b: "pool_best ?p = map (\<lambda>r. (res_ipIndex r, resultWeight r)) (pool_chosen p results)"
    by (simp add: pool_best_def unat_chosen zip_append1 zip_map_map zip_same_conv_map take_map)
  have "pool_ok ?p"
    using assms s l chosen_length [of p results] unfolding pool_ok_def b
    by (auto simp: list_all_iff unat_chosen resultWeight_bounds comp_def)
  then show ?thesis using u by simp
qed

section \<open>Picking addresses\<close>

lemma pickLoop_Some:
  "acc \<le> t \<Longrightarrow> t < acc + sum_list (map snd b) \<Longrightarrow> \<exists>i \<in> fst ` set b. pickLoop (map snd b) (map fst b) acc t = Some i"
proof (induction b arbitrary: acc)
  case (Cons x b)
  then show ?case by (cases "acc + snd x > t") (auto simp: add.assoc)
qed simp

lemma go_slice_take: "k \<le> length xs \<Longrightarrow> go_slice xs 0 (int k) = Inr (take k xs)"
  by (simp add: go_slice_def)

definition pool_slot :: "IPPool \<Rightarrow> nat \<Rightarrow> string" where
  "pool_slot p t = pool_ips p ! the (pickLoop (map snd (pool_best p)) (map fst (pool_best p)) 0 (int t))"

definition pool_live :: "IPPool \<Rightarrow> bool" where
  "pool_live p \<longleftrightarrow> pool_ok p \<and> pool_curValidIPs p > 0"

lemma weights_bounds:
  "list_all (\<lambda>(i, w). P i w \<and> 1 \<le> w \<and> w \<le> (10000 :: int)) b \<Longrightarrow>
    int (length b) \<le> sum_list (map snd b) \<and> sum_list (map snd b) \<le> 10000 * int (length b)"
  by (induction b) auto

lemma live_total:
  assumes "pool_live p"
  shows "0 < pool_totalWeight p" "pool_totalWeight p < 2 ^ 32"
proof -
  have k: "0 < unat (pool_curValidIPs p)" "unat (pool_curValidIPs p) \<le> unat (pool_topIPCount p)"
    and l: "length (pool_bestIndexes p) = unat (pool_topIPCount p)" "length (pool_bestWeights p) = unat (pool_topIPCount p)"
    using assms by (auto simp: pool_live_def pool_ok_def unat_gt_0 word_gt_0)
  then have len: "length (pool_best p) = unat (pool_curValidIPs p)" by (simp add: pool_best_def)
  have "list_all (\<lambda>(i, w). i < length (pool_ips p) \<and> 1 \<le> w \<and> w \<le> 10000) (pool_best p)"
    and t: "pool_totalWeight p = sum_list (map snd (pool_best p))"
    using assms by (auto simp: pool_live_def pool_ok_def)
  note w = weights_bounds [OF this(1)]
  have "0 < length (pool_best p)" "length (pool_best p) < 256" using k len byte_less [of "pool_topIPCount p"] by linarith+
  with w show "0 < pool_totalWeight p" "pool_totalWeight p < 2 ^ 32" unfolding t by (linarith, simp)
qed

lemma pool_Get_live:
  assumes "pool_live p"
  shows "pool_Get p = Inr (p\<lparr>pool_counter := pool_counter p + 1\<rparr>, pool_slot p (unat (pool_counter p) mod nat (pool_totalWeight p)))"
    and "pool_slot p (n mod nat (pool_totalWeight p)) \<in> set (pool_ips p)"
proof -
  let ?k = "unat (pool_curValidIPs p)" and ?W = "pool_totalWeight p"
  have k: "0 < ?k" "?k \<le> unat (pool_topIPCount p)"
    and l: "length (pool_bestIndexes p) = unat (pool_topIPCount p)" "length (pool_bestWeights p) = unat (pool_topIPCount p)"
    and b: "\<And>i. i \<in> fst ` set (pool_best p) \<Longrightarrow> i < length (pool_ips p)"
    and t: "?W = sum_list (map snd (pool_best p))"
    using assms by (auto simp: pool_live_def pool_ok_def unat_gt_0 word_gt_0 list_all_iff)
  have m: "take ?k (pool_bestIndexes p) = map fst (pool_best p)" "take ?k (pool_bestWeights p) = map snd (pool_best p)"
    using l by (simp_all add: pool_best_def take_map [symmetric])
  have W: "uint (word_of_int ?W :: 32 word) = ?W"
    using live_total [OF assms] by (simp add: uint_word_of_int_eq take_bit_int_eq_self)
  then have uW: "unat (word_of_int ?W :: 32 word) = nat ?W" by (metis unat_eq_nat_uint)
  then have nz: "(word_of_int ?W :: 32 word) \<noteq> 0" using live_total(1) [OF assms] by (auto simp del: word_of_int_eq_0_iff)
  have pick: "\<exists>i < length (pool_ips p). pickLoop (map snd (pool_best p)) (map fst (pool_best p)) 0 (int (c mod nat ?W)) = Some i" for c
  proof -
    have "c mod nat ?W < nat ?W" using live_total(1) [OF assms] by simp
    then have "int (c mod nat ?W) < 0 + sum_list (map snd (pool_best p))" unfolding t [symmetric] by linarith
    from pickLoop_Some [OF of_nat_0_le_iff this] b show ?thesis by blast
  qed
  show "pool_slot p (n mod nat ?W) \<in> set (pool_ips p)" using pick [of n] by (auto simp: pool_slot_def)
  have s: "go_slice (pool_bestIndexes p) 0 (int ?k) = Inr (map fst (pool_best p))"
    "go_slice (pool_bestWeights p) 0 (int ?k) = Inr (map snd (pool_best p))"
    using k l by (simp_all add: go_slice_take m del: of_nat_unat)
  have um: "unat (pool_counter p mod word_of_int ?W) = unat (pool_counter p) mod nat ?W"
    by (simp add: unat_mod_distrib uW)
  obtain i where i: "i < length (pool_ips p)"
    "pickLoop (map snd (pool_best p)) (map fst (pool_best p)) 0 (int (unat (pool_counter p) mod nat ?W)) = Some i"
    using pick by blast
  show "pool_Get p = Inr (p\<lparr>pool_counter := pool_counter p + 1\<rparr>, pool_slot p (unat (pool_counter p) mod nat ?W))"
    using k(1) i by (simp add: pool_Get_def s Let_def nz um pool_slot_def go_index_def del: of_nat_unat)
qed

section \<open>Reachable pools\<close>

text \<open>The probes of a scan: one outcome per address of the pool, in any order.\<close>

definition probes_of :: "IPPool \<Rightarrow> (nat \<times> duration option list) list \<Rightarrow> bool" where
  "probes_of p probes \<longleftrightarrow> distinct (map fst probes) \<and> set (map fst probes) = {..<length (pool_ips p)}"

inductive pool_reach :: "(string \<Rightarrow> addr list go) \<Rightarrow> IPPool \<Rightarrow> bool" for lookupIP where
  parsed: "IPPool_UnmarshalJSON lookupIP b = Inr p \<Longrightarrow> pool_reach lookupIP p"
| initialised: "pool_reach lookupIP p \<Longrightarrow> probes_of p probes \<Longrightarrow> pool_Init p probes = Inr p' \<Longrightarrow> pool_reach lookupIP p'"
| scanned: "pool_reach lookupIP p \<Longrightarrow> probes_of p probes \<Longrightarrow> scan p probes = Inr p' \<Longrightarrow> pool_reach lookupIP p'"
| cancelled: "pool_reach lookupIP p \<Longrightarrow> pool_reach lookupIP (p\<lparr>pool_cancelled := True\<rparr>)"
| taken: "pool_reach lookupIP p \<Longrightarrow> pool_Get p = Inr (p', ip) \<Longrightarrow> pool_reach lookupIP p'"

definition scan_results :: "IPPool \<Rightarrow> (nat \<times> duration option list) list \<Rightarrow> ipResult list" where
  "scan_results p probes = filter (\<lambda>r. res_loss r < 1)
     (map (\<lambda>(i, dials). let (l, x) = testIP p dials in \<lparr>res_ipIndex = i, res_latency = l, res_loss = x\<rparr>) probes)"

lemma scan_results_index: "probes_of p probes \<Longrightarrow> \<forall>r \<in> set (scan_results p probes). res_ipIndex r < length (pool_ips p)"
  by (force simp: scan_results_def probes_of_def Let_def split: prod.splits)

lemma pool_ok_cong:
  "pool_ok (p\<lparr>pool_cancelled := c\<rparr>) = pool_ok p" "pool_ok (p\<lparr>pool_counter := n\<rparr>) = pool_ok p"
  by (simp_all add: pool_ok_def pool_best_def)

lemma scan_ok:
  assumes "pool_ok p" "probes_of p probes"
  shows "\<exists>p'. scan p probes = Inr p' \<and> pool_ok p' \<and> pool_ips p' = pool_ips p \<and> pool_topIPCount p' = pool_topIPCount p"
  using updateBest_ok [OF assms(1) scan_results_index [OF assms(2)]] assms(1)
  by (auto simp: scan_def scan_results_def)

lemma pool_Get_ok:
  assumes "pool_ok p"
  shows "\<exists>p' ip. pool_Get p = Inr (p', ip) \<and> pool_ok p' \<and>
    (if pool_curValidIPs p = 0 then ip = [] else ip \<in> set (pool_ips p))"
proof (cases "pool_curValidIPs p = 0")
  case True
  then show ?thesis using assms by (simp add: pool_Get_def)
next
  case False
  then have "pool_live p" using assms by (simp add: pool_live_def word_gt_0)
  then show ?thesis using pool_Get_live False assms by (auto simp: pool_ok_cong)
qed

lemma pool_reach_ok: "pool_reach lookupIP p \<Longrightarrow> pool_ok p"
proof (induction rule: pool_reach.induct)
  case (initialised p probes p')
  then have "probes_of (p\<lparr>pool_cancelled := False\<rparr>) probes" by (simp add: probes_of_def)
  then show ?case using initialised scan_ok [of "p\<lparr>pool_cancelled := False\<rparr>" probes]
    by (auto simp: pool_Init_def pool_ok_cong go_bind_Inr_iff split: if_splits)
next
  case (scanned p probes p')
  then show ?case using scan_ok [of p probes] by auto
next
  case (taken p p' ip)
  then show ?case using pool_Get_ok [of p] by auto
qed (simp_all add: UnmarshalJSON_ok pool_ok_cong)

section \<open>Properties\<close>

text \<open>
  C17: Taking an address from a pool never fails: on every pool reachable from a configuration by
  initialisation, rescans with any outcome of the probes, cancellation and earlier calls, \<^verbatim>\<open>Get\<close>
  does not panic (no index is out of range, the total weight is not 0) and returns the text of an
  address of the pool, or the empty string if no scan has found one.
\<close>

theorem pool_Get_safe:
  assumes "pool_reach lookupIP p"
  shows "\<exists>p' ip. pool_Get p = Inr (p', ip) \<and>
    (if pool_curValidIPs p = 0 then ip = [] else ip \<in> set (pool_ips p) \<and> address_text ip \<and> ip \<noteq> [])"
  using pool_Get_ok [OF pool_reach_ok [OF assms]] pool_reach_ok [OF assms] address_text_nonempty
  by (fastforce simp: pool_ok_def list_all_iff)

fun get_run :: "nat \<Rightarrow> IPPool \<Rightarrow> string list go" where
  "get_run 0 p = Inr []"
| "get_run (Suc n) p = go_bind (pool_Get p) (\<lambda>(p1, ip). go_bind (get_run n p1) (\<lambda>xs. Inr (ip # xs)))"

lemma slot_counter [simp]: "pool_slot (p\<lparr>pool_counter := n\<rparr>) = pool_slot p"
  by (simp add: pool_slot_def pool_best_def fun_eq_iff)

lemma get_run_live:
  assumes "pool_live p" "unat (pool_counter p) + n \<le> 2 ^ 32"
  shows "get_run n p = Inr (map (\<lambda>k. pool_slot p ((unat (pool_counter p) + k) mod nat (pool_totalWeight p))) [0..<n])"
  using assms
proof (induction n arbitrary: p)
  case (Suc n)
  let ?q = "p\<lparr>pool_counter := pool_counter p + 1\<rparr>"
  have q: "pool_live ?q" using Suc.prems(1) by (simp add: pool_live_def pool_ok_cong)
  show ?case
  proof (cases n)
    case 0
    then show ?thesis using pool_Get_live(1) [OF Suc.prems(1)] by simp
  next
    case (Suc m)
    then have "unat (pool_counter p) + 1 < 2 ^ 32" using Suc.prems(2) by simp
    then have u: "unat (pool_counter p + 1) = Suc (unat (pool_counter p))"
      by (simp add: unat_word_ariths(1))
    have "get_run n ?q = Inr (map (\<lambda>k. pool_slot p ((unat (pool_counter p) + Suc k) mod nat (pool_totalWeight p))) [0..<n])"
      using Suc.IH [OF q] Suc.prems(2) u by simp
    then show ?thesis using pool_Get_live(1) [OF Suc.prems(1)]
      by (simp add: upt_conv_Cons map_Suc_upt [symmetric] comp_def del: upt_Suc)
  qed
qed simp

lemma count_list_map_const: "(\<And>t. t \<in> set ts \<Longrightarrow> f t = y) \<Longrightarrow> count_list (map f ts) x = (if y = x then length ts else 0)"
  by (induction ts) auto

lemma count_pick:
  assumes "list_all (\<lambda>(i, w). 0 \<le> w) b"
  shows "count_list (map (\<lambda>t. f (the (pickLoop (map snd b) (map fst b) acc (acc + int t)))) [0..<nat (sum_list (map snd b))]) x =
    sum_list (map (\<lambda>(i, w). if f i = x then nat w else 0) b)"
  using assms
proof (induction b arbitrary: acc)
  case (Cons e b)
  obtain i w where e: "e = (i, w)" by (cases e)
  have w: "0 \<le> w" and b: "list_all (\<lambda>(i, w). 0 \<le> w) b" using Cons.prems by (auto simp: e)
  have s: "0 \<le> sum_list (map snd b)" using b by (intro sum_list_nonneg) (auto simp: list_all_iff)
  let ?n = "nat w" and ?m = "nat (sum_list (map snd b))"
  let ?g = "\<lambda>t. f (the (pickLoop (map snd (e # b)) (map fst (e # b)) acc (acc + int t)))"
  have "nat (sum_list (map snd (e # b))) = ?n + ?m" using w s by (simp add: e nat_add_distrib)
  moreover have "[0..<?n + ?m] = [0..<?n] @ map (\<lambda>u. u + ?n) [0..<?m]"
    unfolding map_add_upt upt_add_eq_append [OF le0] by (simp only: add.commute)
  ultimately have A: "map ?g [0..<nat (sum_list (map snd (e # b)))] = map ?g [0..<?n] @ map ?g (map (\<lambda>u. u + ?n) [0..<?m])"
    by (simp only: map_append)
  have B: "count_list (map ?g [0..<?n]) x = (if f i = x then ?n else 0)"
    using w by (subst count_list_map_const [where y = "f i"]) (auto simp: e)
  have C: "map ?g (map (\<lambda>u. u + ?n) [0..<?m]) =
      map (\<lambda>t. f (the (pickLoop (map snd b) (map fst b) (acc + w) (acc + w + int t)))) [0..<?m]"
    using w by (simp add: e ac_simps)
  show ?case unfolding A count_list_append B C Cons.IH [OF b] by (simp add: e)
qed simp

lemma rotate_upt: "map (\<lambda>k. (c + k) mod n) [0..<n] = rotate c [0..<n]"
  by (rule nth_equalityI) (simp_all add: nth_rotate add.commute)

lemma count_list_mset: "count_list xs x = count (mset xs) x"
  by (induction xs) auto

lemma mset_rotate': "mset (rotate n xs) = mset xs"
proof (induction n)
  case (Suc n)
  have "mset (rotate1 ys) = mset ys" for ys :: "'a list" by (cases ys) auto
  then show ?case using Suc by (simp add: rotate_def)
qed simp

text \<open>
  C18: The addresses of a pool are taken in proportion to their weights: of as many consecutive
  calls of \<^verbatim>\<open>Get\<close> as the total weight, each of the best addresses is returned as often as its weight
  says, so none is starved.  The 32-bit counter must not wrap in between.
\<close>

theorem pool_Get_fair:
  assumes "pool_reach lookupIP p" and "0 < pool_curValidIPs p"
    and "unat (pool_counter p) + nat (pool_totalWeight p) \<le> 2 ^ 32"
  shows "\<exists>xs. get_run (nat (pool_totalWeight p)) p = Inr xs \<and> (\<forall>x. count_list xs x =
    sum_list (map (\<lambda>(i, w). if pool_ips p ! i = x then nat w else 0) (pool_best p)))"
proof -
  let ?n = "nat (pool_totalWeight p)" and ?c = "unat (pool_counter p)"
  have pool_live: "pool_live p" using assms pool_reach_ok by (simp add: pool_live_def)
  then have w: "list_all (\<lambda>(i, w). 0 \<le> w) (pool_best p)" and t: "?n = nat (sum_list (map snd (pool_best p)))"
    by (auto simp: pool_live_def pool_ok_def list_all_iff)
  have "map (\<lambda>k. pool_slot p ((?c + k) mod ?n)) [0..<?n] = map (pool_slot p) (rotate ?c [0..<?n])"
    by (simp add: rotate_upt [symmetric])
  then have "get_run ?n p = Inr (map (pool_slot p) (rotate ?c [0..<?n]))"
    using get_run_live [OF pool_live assms(3)] by simp
  moreover have "count_list (map (pool_slot p) (rotate ?c [0..<?n])) x = count_list (map (pool_slot p) [0..<?n]) x" for x
    by (simp add: count_list_mset mset_rotate' del: mset_upt)
  moreover have "count_list (map (pool_slot p) [0..<?n]) x =
      sum_list (map (\<lambda>(i, w). if pool_ips p ! i = x then nat w else 0) (pool_best p))" for x
    using count_pick [OF w, of "(!) (pool_ips p)" 0 x] by (simp add: t pool_slot_def [abs_def])
  ultimately show ?thesis by auto
qed

text \<open>
  C19: A scan keeps the best addresses: the chosen results are as many as there are reachable addresses,
  at most the configured count, their order is that of the loss and then the latency, and no
  result left out is better than a chosen one.
\<close>

theorem scan_keeps_best:
  assumes "pool_reach lookupIP p" and "probes_of p probes" and "\<not> pool_cancelled p"
    and "scan_results p probes \<noteq> []"
  shows "\<exists>p' rs. scan p probes = Inr p' \<and> map fst (pool_best p') = map res_ipIndex rs
    \<and> length rs = min (length (scan_results p probes)) (unat (pool_topIPCount p))
    \<and> sorted (map pool_key rs) \<and> set rs \<subseteq> set (scan_results p probes)
    \<and> (\<forall>r \<in> set rs. \<forall>r' \<in> set (scan_results p probes) - set rs. pool_key r \<le> pool_key r')"
proof -
  let ?r = "scan_results p probes"
  have ok: "pool_ok p" by (rule pool_reach_ok [OF assms(1)])
  obtain bi bw where u: "updateBest p ?r = Inr (p\<lparr>pool_bestIndexes := map res_ipIndex (pool_chosen p ?r) @ bi,
      pool_bestWeights := map resultWeight (pool_chosen p ?r) @ bw,
      pool_curValidIPs := word_of_nat (length (pool_chosen p ?r)),
      pool_totalWeight := sum_list (map resultWeight (pool_chosen p ?r))\<rparr>)" (is "_ = Inr ?p")
    by (rule updateBest_result [OF ok assms(4) scan_results_index [OF assms(2)]])
  have b: "map fst (pool_best ?p) = map res_ipIndex (pool_chosen p ?r)"
    by (simp add: pool_best_def unat_chosen zip_append1 zip_map_map zip_same_conv_map take_map)
  have s: "sort_key pool_key ?r = pool_chosen p ?r @ drop (unat (pool_topIPCount p)) (sort_key pool_key ?r)"
    by (simp add: pool_chosen_def)
  have sorted: "sorted (map pool_key (sort_key pool_key ?r))" by simp
  have "sorted (map pool_key (pool_chosen p ?r))"
    using sorted unfolding pool_chosen_def take_map [symmetric] by (rule sorted_wrt_take)
  moreover have "\<forall>r \<in> set (pool_chosen p ?r). \<forall>r' \<in> set ?r - set (pool_chosen p ?r). pool_key r \<le> pool_key r'"
  proof (intro ballI)
    fix r r' assume r: "r \<in> set (pool_chosen p ?r)" "r' \<in> set ?r - set (pool_chosen p ?r)"
    have "set ?r = set (pool_chosen p ?r @ drop (unat (pool_topIPCount p)) (sort_key pool_key ?r))" by (metis s set_sort)
    with r have "r' \<in> set (drop (unat (pool_topIPCount p)) (sort_key pool_key ?r))" by auto
    with r(1) sorted s show "pool_key r \<le> pool_key r'" by (metis (no_types, lifting) map_append sorted_append imageI set_map)
  qed
  moreover have "set (pool_chosen p ?r) \<subseteq> set ?r" unfolding pool_chosen_def by (metis set_sort set_take_subset)
  moreover have "scan p probes = Inr ?p" using assms(3) u by (simp add: scan_def scan_results_def)
  ultimately show ?thesis using b by (intro exI [of _ ?p] exI [of _ "pool_chosen p ?r"]) (simp add: pool_chosen_def)
qed

text \<open>
  Reading the addresses of a pool gives at most 1000 of them, each the text of an address, however
  large the prefixes of the list are and whatever the resolver answers.
\<close>

lemma parseIPList_bounded:
  assumes "parseIPList lookupIP sources = Inr r"
  shows "length r \<le> 1000 \<and> (\<forall>s \<in> set r. address_text s)"
  using parseIPList_ok [OF assms] by (simp add: pool_list_ok_def maxIPPoolSize_def list_all_iff)

section \<open>A pool of two addresses\<close>

definition samplePool :: IPPool where
  "samplePool = zeroPool\<lparr>pool_ips := [''1.1.1.1'', ''8.8.8.8''], pool_port := 443, pool_topIPCount := 3, pool_attempts := 2,
     pool_timeout := second, pool_updateInterval := 1800 * second, pool_concurrency := 100,
     pool_bestIndexes := [0, 0, 0], pool_bestWeights := [0, 0, 0]\<rparr>"

definition sampleResolver :: "string \<Rightarrow> addr list go" where
  "sampleResolver s = (if s = ''one.example'' then Inr [IP4 0x01010101] else Inl (Error ''no such host''))"

lemma sample_list: "parseIPList sampleResolver [''1.1.1.1'', ''8.8.8.8''] = Inr [''1.1.1.1'', ''8.8.8.8'']"
proof -
  have "expandPattern ''1.1.1.1'' = [''1.1.1.1'']" "expandPattern ''8.8.8.8'' = [''8.8.8.8'']"
    by (simp_all add: expandPattern.simps splitByPipe_def)
  moreover have "ParseAddr ''1.1.1.1'' = Some (IP4 0x01010101)" "ParseAddr ''8.8.8.8'' = Some (IP4 0x08080808)"
    by (simp_all add: ParseAddr_def parseIPv4_def netip_eval)
  ultimately show ?thesis by (simp add: parseIPList_def parseSource_def maxIPPoolSize_def)
qed

lemma samplePool_parsed:
  "IPPool_UnmarshalJSON sampleResolver [(''ips'', JArr [JStr ''1.1.1.1'', JStr ''8.8.8.8'']), (''port'', JInt 443), (''attempts'', JInt 2)]
    = Inr samplePool"
  by (simp add: IPPool_UnmarshalJSON_def json_eval sample_list pool_check_def poolDuration_def samplePool_def Let_def
      maxIPPoolSize_def defaultTopIPCount_def defaultTimeout_def defaultUpdateInterval_def defaultMaxConcurrency_def
      replicate_numeral_Cons)

definition sampleProbes :: "(nat \<times> duration option list) list" where
  "sampleProbes = [(1, [Some (100000 * second), None]), (0, [Some 5, Some 4])]"

definition samplePool1 :: IPPool where
  "samplePool1 = samplePool\<lparr>pool_bestIndexes := [0, 1, 0], pool_bestWeights := [10000, 1, 0], pool_totalWeight := 10001,
     pool_curValidIPs := 2\<rparr>"

lemma sample_results: "scan_results samplePool sampleProbes =
  [\<lparr>res_ipIndex = 1, res_latency = 100000000000000, res_loss = 1 / 2\<rparr>, \<lparr>res_ipIndex = 0, res_latency = 4, res_loss = 0\<rparr>]"
  by (simp add: scan_results_def sampleProbes_def testIP_def samplePool_def second_def int64_def go_div_def Let_def)

lemma scan_updateBest: "\<not> pool_cancelled p \<Longrightarrow> scan p probes = updateBest p (scan_results p probes)"
  by (simp add: scan_def scan_results_def)

lemma sample_scan: "scan samplePool sampleProbes = Inr samplePool1"
proof -
  have w: "resultWeight \<lparr>res_ipIndex = i, res_latency = 100000000000000, res_loss = 1 / 2\<rparr> = 1"
    "resultWeight \<lparr>res_ipIndex = i, res_latency = 4, res_loss = 0\<rparr> = 10000" for i
    by (simp_all add: resultWeight_def Let_def weightScaleFactor_def minWeight_def maxWeight_def)
  have "scan samplePool sampleProbes = updateBest samplePool (scan_results samplePool sampleProbes)"
    by (rule scan_updateBest) (simp add: samplePool_def zeroPool_def)
  also have "\<dots> = Inr samplePool1"
    unfolding sample_results by (simp add: updateBest_def w Let_def samplePool_def samplePool1_def zeroPool_def less_prod_def)
  finally show ?thesis .
qed

lemma samplePool_reach: "pool_reach sampleResolver samplePool" "pool_reach sampleResolver samplePool1"
proof -
  show 1: "pool_reach sampleResolver samplePool" by (rule pool_reach.parsed [OF samplePool_parsed])
  have "probes_of samplePool sampleProbes" by (auto simp: probes_of_def sampleProbes_def samplePool_def)
  then show "pool_reach sampleResolver samplePool1" using pool_reach.scanned [OF 1 _ sample_scan] by simp
qed

lemma samplePool0_fields: "\<not> pool_cancelled samplePool" "pool_topIPCount samplePool = 3"
  by (simp_all add: samplePool_def zeroPool_def)

lemma samplePool1_fields:
  "pool_curValidIPs samplePool1 = 2" "pool_totalWeight samplePool1 = 10001" "pool_counter samplePool1 = 0"
  "pool_best samplePool1 = [(0, 10000), (1, 1)]" "pool_ips samplePool1 = [''1.1.1.1'', ''8.8.8.8'']"
  by (simp_all add: samplePool1_def samplePool_def zeroPool_def pool_best_def)

theorem pool_Get_safe_witness: "\<exists>p' ip. pool_Get samplePool1 = Inr (p', ip) \<and> ip \<in> {''1.1.1.1'', ''8.8.8.8''}"
  using pool_Get_safe [OF samplePool_reach(2)] by (auto simp: samplePool1_fields)

theorem pool_Get_fair_witness:
  "\<exists>xs. get_run 10001 samplePool1 = Inr xs \<and> count_list xs ''1.1.1.1'' = 10000 \<and> count_list xs ''8.8.8.8'' = 1"
  using pool_Get_fair [OF samplePool_reach(2)] by (auto simp: samplePool1_fields)

theorem scan_keeps_best_witness:
  "\<exists>p' (rs :: ipResult list). scan samplePool sampleProbes = Inr p' \<and> map fst (pool_best p') = map res_ipIndex rs \<and> length rs = 2"
proof -
  have "probes_of samplePool sampleProbes" by (auto simp: probes_of_def sampleProbes_def samplePool_def)
  moreover have "\<not> pool_cancelled samplePool" "scan_results samplePool sampleProbes \<noteq> []"
    by (simp_all add: samplePool0_fields sample_results)
  ultimately obtain p' and rs :: "ipResult list" where "scan samplePool sampleProbes = Inr p'" "map fst (pool_best p') = map res_ipIndex rs"
    "length rs = min (length (scan_results samplePool sampleProbes)) (unat (pool_topIPCount samplePool))"
    using scan_keeps_best [OF samplePool_reach(1)] by blast
  then show ?thesis by (intro exI [of _ p'] exI [of _ rs]) (simp add: sample_results samplePool0_fields)
qed

end
