(* ===== verification/Dial_Plan.thy ===== *)
theory Dial_Plan
  imports Dns_Core IP_Pool
begin

text \<open>
  The planner, \<^verbatim>\<open>src/internal/dial_plan.go\<close>, with \<^verbatim>\<open>genPolicy\<close> and \<^verbatim>\<open>genPolicyWithOptions\<close> of
  \<^verbatim>\<open>src/internal/policy.go\<close>, \<^verbatim>\<open>transformIP\<close> and \<^verbatim>\<open>ipRedirect\<close> of \<^verbatim>\<open>src/internal/utils.go\<close> and the
  bootstrap resolution of \<^verbatim>\<open>src/internal/config.go\<close>: from the host and port a client asks for to the
  address to dial and the policy to dial it with.

  The state \<open>core_state\<close> has the state of the DNS core and the address pools; \<open>dial_env\<close> has the
  configuration and the system resolver.  A planner without a logger panics where the code calls a
  method of the logger unconditionally.  \<open>PlanRequest_safe\<close> collects, by the rules for \<open>c_safe\<close>, that
  every step returns, keeps the invariant and yields well-formed results; \<open>PlanRequest_recovered\<close> relates
  the plan for a fake address to the plan for its domain.
\<close>

unbundle bit_operations_syntax

section \<open>Moving an address to another network\<close>

text \<open>\<^verbatim>\<open>As4\<close>, \<^verbatim>\<open>As16\<close>, \<^verbatim>\<open>AddrFrom4\<close> and \<^verbatim>\<open>AddrFrom16\<close>: the bytes of an address, most significant first.\<close>

definition to_bytes :: "nat \<Rightarrow> ('a :: len) word \<Rightarrow> bytes" where
  "to_bytes n w = map (\<lambda>i. ucast (drop_bit (8 * (n - 1 - i)) w)) [0..<n]"

definition of_bytes :: "bytes \<Rightarrow> ('a :: len) word" where
  "of_bytes bs = foldl (\<lambda>a b. push_bit 8 a OR ucast b) 0 bs"

definition transformByte :: "nat \<Rightarrow> nat \<Rightarrow> byte \<Rightarrow> byte \<Rightarrow> byte" where
  "transformByte bits i netByte ipByte =
     (let bitPos = (of_nat (i * 8) :: byte) in
      if unat (bitPos + 8) \<le> bits then netByte
      else if bits \<le> unat bitPos then ipByte
      else
        let maskBits = of_nat bits - bitPos;
            mask = push_bit (unat (8 - maskBits)) 0xFF
        in (netByte AND mask) OR (ipByte AND NOT mask))"

definition transformBytes :: "nat \<Rightarrow> bytes \<Rightarrow> bytes \<Rightarrow> bytes" where
  "transformBytes bits netBytes ipBytes =
     map (\<lambda>i. transformByte bits i (netBytes ! i) (ipBytes ! i)) [0..<length ipBytes]"

text \<open>\<open>prefixError\<close> is the text of the error with which \<^verbatim>\<open>netip.ParsePrefix\<close> refuses its argument.\<close>

definition transformIP :: "(string \<Rightarrow> string) \<Rightarrow> string \<Rightarrow> string \<Rightarrow> string go" where
  "transformIP prefixError ipStr targetNetStr =
     (case ParseAddr ipStr of
        None \<Rightarrow> Inl (Error ''invalid IP'')
      | Some ip \<Rightarrow>
          (case ParsePrefix targetNetStr of
             None \<Rightarrow> Inl (Error (''invalid target network: '' @ prefixError targetNetStr))
           | Some prefix \<Rightarrow>
               if Is4 ip \<noteq> Is4 (prefix_Addr prefix) then
                 Inl (Error ''IP version mismatch between source IP and target network'')
               else
                 let bits = prefix_Bits prefix in
                 (case (ip, prefix_Addr (Masked prefix)) of
                    (IP4 w, IP4 n) \<Rightarrow> Inr (addr_String (IP4 (of_bytes (transformBytes bits (to_bytes 4 n) (to_bytes 4 w)))))
                  | (IP6 w z, IP6 n y) \<Rightarrow>
                      Inr (addr_String (IP6 (of_bytes (transformBytes bits (to_bytes 16 n) (to_bytes 16 w))) []))
                  | _ \<Rightarrow> Inl (Panic ''As4 called on IPv6 address''))))"

section \<open>State and surroundings of the planner\<close>

text \<open>
  The system resolver answers the \<open>n\<close>-th bootstrap lookup with addresses, some of which may be
  \<^verbatim>\<open>nil\<close>.
\<close>

record dial_env =
  de_dns :: dns_env
  de_defaultPolicy :: Policy
  de_ipMatchers :: "Policy bitNode \<times> Policy bitNode"
  de_lookupIP :: "nat \<Rightarrow> string \<Rightarrow> addr option list go"
  de_prefixError :: "string \<Rightarrow> string"

record core_state =
  cs_dns :: dns_state
  cs_pools :: "(string, IPPool) gomap"
  cs_lookups :: nat

type_synonym 'a core = "(core_state, 'a) comp"

definition on_dns :: "(dns_state, 'a) comp \<Rightarrow> 'a core" where
  "on_dns = c_zoom cs_dns (\<lambda>t s. s\<lparr>cs_dns := t\<rparr>)"

definition core_pool :: "string \<Rightarrow> string core" where
  "core_pool tag = (\<lambda>s. let (pools, r) = getFromIPPool (cs_pools s) tag in Some (s\<lparr>cs_pools := pools\<rparr>, r))"

definition bootstrapLookupIP :: "dial_env \<Rightarrow> string \<Rightarrow> addr option list core" where
  "bootstrapLookupIP env host = (\<lambda>s. Some (s\<lparr>cs_lookups := Suc (cs_lookups s)\<rparr>, de_lookupIP env (cs_lookups s) host))"

text \<open>A call of a method of the logger, which panics if there is none.\<close>

definition c_log :: "bool \<Rightarrow> unit core" where
  "c_log logger = (if logger then c_return () else c_lift (Inl (Panic ''nil pointer dereference'')))"

section \<open>Bootstrap resolution\<close>

fun pickLoop4 :: "addr option list \<Rightarrow> string \<Rightarrow> string" where
  "pickLoop4 [] first = first"
| "pickLoop4 (None # addrs) first = pickLoop4 addrs first"
| "pickLoop4 (Some ip # addrs) first =
     (let first1 = (if first = [] then IP_String ip else first) in
      case To4 ip of
        Some v4 \<Rightarrow> IP_String (IP4 v4)
      | None \<Rightarrow> pickLoop4 addrs first1)"

definition pickBootstrapIP :: "addr option list \<Rightarrow> string" where
  "pickBootstrapIP addrs = pickLoop4 addrs []"

definition dnsCache_Get :: "instant \<Rightarrow> string \<Rightarrow> dns_state \<Rightarrow> dns_state \<times> string option" where
  "dnsCache_Get now host s =
     (case ds_dnsCache s of
        None \<Rightarrow> (s, None)
      | Some c \<Rightarrow> let (c1, r) = cache_Get now host c in (s\<lparr>ds_dnsCache := Some c1\<rparr>, r))"

definition resolveBootstrapHost :: "dial_env \<Rightarrow> instant \<Rightarrow> string \<Rightarrow> string core" where
  "resolveBootstrapHost env now host =
     (if host = [] \<or> ParseIP host \<noteq> None then c_return host
      else
        c_bind (on_dns (c_call (dnsCache_Get now host))) (\<lambda>hit.
          case hit of
            Some ip \<Rightarrow> c_return ip
          | None \<Rightarrow>
              c_bind (c_wrap (''bootstrap resolve '' @ host) (bootstrapLookupIP env host)) (\<lambda>addrs.
                let ip = pickBootstrapIP addrs in
                if ip = [] then c_fail (''bootstrap resolve '' @ host @ '': no address found'')
                else
                  c_bind (on_dns (c_modify (\<lambda>s. s\<lparr>ds_dnsCache :=
                    map_option (cache_Add (env_evict (de_dns env)) now (env_dnsCacheTTL (de_dns env)) host ip) (ds_dnsCache s)\<rparr>))) (\<lambda>_.
                  c_bind (on_dns (c_modify (rememberDomainIPMapping (de_dns env) now host ip))) (\<lambda>_.
                  c_return ip)))))"

section \<open>Redirection of addresses\<close>

definition mapToTarget :: "dial_env \<Rightarrow> instant \<Rightarrow> string \<Rightarrow> string \<Rightarrow> string core" where
  "mapToTarget env now ip mapTo =
     (if HasPrefix mapTo tagPrefix then core_pool (drop 1 mapTo)
      else if last_index_byte (CHR ''/'') mapTo \<noteq> None then c_lift (transformIP (de_prefixError env) ip mapTo)
      else if ParseIP mapTo = None then resolveBootstrapHost env now mapTo
      else c_return mapTo)"

definition ipRedirect :: "dial_env \<Rightarrow> instant \<Rightarrow> bool \<Rightarrow> string \<Rightarrow> (string \<times> Policy option) core" where
  "ipRedirect env now logger ip =
     (case getIPPolicy (de_ipMatchers env) ip of
        None \<Rightarrow> c_return (ip, None)
      | Some policy \<Rightarrow>
          if p_MapTo policy = None \<or> p_MapTo policy = Some [] then c_return (ip, Some policy)
          else
            c_bind (mapToTarget env now ip (the (p_MapTo policy))) (\<lambda>mapTo.
            c_return (mapTo, if logger \<and> ip \<noteq> mapTo then Some policy else getIPPolicy (de_ipMatchers env) mapTo)))"

section \<open>The policy of a host\<close>

record genResult =
  gr_dstHost :: string
  gr_p :: Policy
  gr_failed :: bool
  gr_blocked :: bool
  gr_matchedDomain :: bool
  gr_matchedIP :: bool

definition genFail :: "bool \<Rightarrow> bool \<Rightarrow> genResult" where
  "genFail md mi = \<lparr>gr_dstHost = [], gr_p = zeroPolicy, gr_failed = True, gr_blocked = False, gr_matchedDomain = md, gr_matchedIP = mi\<rparr>"

definition genBlock :: "bool \<Rightarrow> bool \<Rightarrow> genResult" where
  "genBlock md mi = \<lparr>gr_dstHost = [], gr_p = zeroPolicy, gr_failed = False, gr_blocked = True, gr_matchedDomain = md, gr_matchedIP = mi\<rparr>"

definition genOk :: "string \<Rightarrow> Policy \<Rightarrow> bool \<Rightarrow> bool \<Rightarrow> genResult" where
  "genOk dst p md mi = \<lparr>gr_dstHost = dst, gr_p = p, gr_failed = False, gr_blocked = False, gr_matchedDomain = md, gr_matchedIP = mi\<rparr>"

text \<open>The continuation after a call that can fail: the failure is logged and makes the whole result a failure.\<close>

definition c_orFail :: "unit core \<Rightarrow> bool \<Rightarrow> bool \<Rightarrow> 'a core \<Rightarrow> ('a \<Rightarrow> genResult core) \<Rightarrow> genResult core" where
  "c_orFail logged md mi m f =
     c_bind (c_try m) (\<lambda>r. case r of
        Inl e \<Rightarrow> c_bind logged (\<lambda>_. c_return (genFail md mi))
      | Inr x \<Rightarrow> f x)"

text \<open>An address as the host.\<close>

definition genPolicyIP :: "dial_env \<Rightarrow> instant \<Rightarrow> bool \<Rightarrow> string \<Rightarrow> genResult core" where
  "genPolicyIP env now logger originHost =
     c_orFail (c_log logger) False False (ipRedirect env now logger originHost) (\<lambda>(dstHost, ipPolicy).
       let (p, matchedIP) =
         (case ipPolicy of
            None \<Rightarrow> (mergePolicies [plainFallbackPolicy, de_defaultPolicy env], False)
          | Some ipp \<Rightarrow> (mergePolicies [ipp, de_defaultPolicy env], True))
       in c_return (if p_Mode p = ModeBlock then genBlock False matchedIP else genOk dstHost p False matchedIP))"

text \<open>The rule of a domain and the policy merged from it.\<close>

definition domainRule :: "dial_env \<Rightarrow> string \<Rightarrow> Policy option" where
  "domainRule env originHost =
     (if classifyDomainRoute (de_dns env) originHost = domainRouteRule
      then Option.bind (env_domainMatcher (de_dns env)) (\<lambda>m. DomainMatcher_Find m originHost) else None)"

definition domainMerged :: "dial_env \<Rightarrow> string \<Rightarrow> Policy \<times> bool" where
  "domainMerged env originHost =
     (case domainRule env originHost of
        Some dp \<Rightarrow> (mergePolicies [dp, de_defaultPolicy env], True)
      | None \<Rightarrow>
          if classifyDomainRoute (de_dns env) originHost = domainRouteGFW
          then (mergePolicies [gfwFallbackPolicy, de_defaultPolicy env], True)
          else (mergePolicies [plainFallbackPolicy, de_defaultPolicy env], False))"

text \<open>The \<^verbatim>\<open>switch\<close> on the host of the policy: the target and whether it skips the redirection.\<close>

definition hostTarget :: "string \<Rightarrow> string option \<Rightarrow> string \<times> bool" where
  "hostTarget originHost h =
     (case h of
        None \<Rightarrow> (originHost, False)
      | Some hostValue \<Rightarrow>
          if hostValue = [] \<or> hostValue = ''self'' then (originHost, False)
          else if hostValue = ''^'' then (originHost, True)
          else if HasPrefix hostValue ''^'' then (drop 1 hostValue, True)
          else (hostValue, False))"

definition resolveTarget :: "dial_env \<Rightarrow> instant \<Rightarrow> DNSMode \<Rightarrow> string \<Rightarrow> string core" where
  "resolveTarget env now mode dstHost =
     c_bind (on_dns (c_call (lookupRecordedDNSIP now dstHost mode))) (\<lambda>remembered.
       case remembered of
         Some ip \<Rightarrow> c_return ip
       | None \<Rightarrow> c_bind (on_dns (Resolver_Resolve (de_dns env) now dstHost mode)) (\<lambda>(ip, cached). c_return ip))"

text \<open>The end of the function, once the target is an address that may be redirected.\<close>

definition redirectTarget :: "dial_env \<Rightarrow> instant \<Rightarrow> bool \<Rightarrow> Policy option \<Rightarrow> Policy \<Rightarrow> bool \<Rightarrow> string \<Rightarrow> genResult core" where
  "redirectTarget env now logger domainPolicy p matchedDomain dstHost0 =
     c_orFail (c_log logger) matchedDomain False (ipRedirect env now logger dstHost0) (\<lambda>(dstHost, ipPolicy).
       case ipPolicy of
         None \<Rightarrow> c_return (genOk dstHost p matchedDomain False)
       | Some ipp \<Rightarrow>
           let p1 = mergePolicies ((case domainPolicy of Some dp \<Rightarrow> [dp] | None \<Rightarrow> []) @ [ipp, de_defaultPolicy env])
           in c_return (if p_Mode p1 = ModeBlock then genBlock matchedDomain True else genOk dstHost p1 matchedDomain True))"

definition genPolicyWithOptions :: "dial_env \<Rightarrow> instant \<Rightarrow> bool \<Rightarrow> string \<Rightarrow> bool \<Rightarrow> genResult core" where
  "genPolicyWithOptions env now logger originHost resolveDomain =
     (if ParseIP originHost \<noteq> None then genPolicyIP env now logger originHost
      else
        let domainPolicy = domainRule env originHost;
            (p, matchedDomain) = domainMerged env originHost
        in
        if map_option p_Mode domainPolicy = Some ModeBlock then c_return (genBlock matchedDomain False)
        else
          let (dstHost0, skipIPRedirect) = hostTarget originHost (p_Host p) in
          c_bind (if p_Host p \<noteq> None then c_log logger else c_return ()) (\<lambda>_.
          c_orFail (c_log logger) matchedDomain False
            (if HasPrefix dstHost0 tagPrefix then c_bind (core_pool (drop 1 dstHost0)) (\<lambda>ip. c_bind (c_log logger) (\<lambda>_. c_return ip))
             else c_return dstHost0) (\<lambda>dstHost1.
          c_orFail (c_log logger) matchedDomain False
            (if \<not> skipIPRedirect \<and> resolveDomain \<and> ParseIP dstHost1 = None
             then c_bind (resolveTarget env now (p_DNSMode p) dstHost1) (\<lambda>ip. c_bind (c_log logger) (\<lambda>_. c_return ip))
             else c_return dstHost1) (\<lambda>dstHost2.
          if skipIPRedirect \<or> ParseIP dstHost2 = None then c_return (genOk dstHost2 p matchedDomain False)
          else redirectTarget env now logger domainPolicy p matchedDomain dstHost2))))"

definition genPolicy :: "dial_env \<Rightarrow> instant \<Rightarrow> bool \<Rightarrow> string \<Rightarrow> (string \<times> Policy \<times> bool \<times> bool) core" where
  "genPolicy env now logger originHost =
     c_bind (genPolicyWithOptions env now logger originHost True) (\<lambda>r.
       c_return (gr_dstHost r, gr_p r, gr_failed r, gr_blocked r))"

section \<open>Plans\<close>

datatype RequestSource = RequestSourceUnknown | RequestSourceMobile | RequestSourceSOCKS5 | RequestSourceHTTP

datatype DomainTargetMode = ResolveDomainTarget | PreserveDomainTarget

record RequestContext =
  rc_Source :: RequestSource
  rc_Host :: string
  rc_Port :: int
  rc_DomainTargetMode :: DomainTargetMode

record DialPlan =
  dp_Source :: RequestSource
  dp_OriginHost :: string
  dp_OriginPort :: int
  dp_RecoveredDomain :: string
  dp_MatchedDomain :: bool
  dp_MatchedIP :: bool
  dp_TargetHost :: string
  dp_TargetPort :: int
  dp_Policy :: Policy
  dp_Blocked :: bool

definition TargetAddress :: "DialPlan \<Rightarrow> string" where
  "TargetAddress p = (if dp_TargetPort p \<le> 0 then dp_TargetHost p else JoinHostPort (dp_TargetHost p) (formatInt (dp_TargetPort p)))"

definition OriginAddress :: "DialPlan \<Rightarrow> string" where
  "OriginAddress p = (if dp_OriginPort p \<le> 0 then dp_OriginHost p else JoinHostPort (dp_OriginHost p) (formatInt (dp_OriginPort p)))"

definition Resolver_LookupDomain :: "instant \<Rightarrow> string \<Rightarrow> string core" where
  "Resolver_LookupDomain now ip = on_dns (c_call (\<lambda>s. let (s1, r) = lookupDomainByIP now ip s in (s1, case r of Some d \<Rightarrow> d | None \<Rightarrow> [])))"

definition PlanRequest :: "dial_env \<Rightarrow> instant \<Rightarrow> bool \<Rightarrow> RequestContext \<Rightarrow> DialPlan core" where
  "PlanRequest env now logger req =
     (if rc_Host req = [] then c_fail ''request host is empty''
      else
        c_bind (if ParseIP (rc_Host req) \<noteq> None then Resolver_LookupDomain now (rc_Host req) else c_return []) (\<lambda>recoveredDomain.
        let planningHost = (if recoveredDomain \<noteq> [] then recoveredDomain else rc_Host req);
            resolveDomain = (rc_DomainTargetMode req \<noteq> PreserveDomainTarget)
        in
        c_bind (genPolicyWithOptions env now logger planningHost resolveDomain) (\<lambda>r.
        if gr_failed r then c_fail ''failed to resolve dial plan''
        else c_return \<lparr>
          dp_Source = rc_Source req,
          dp_OriginHost = rc_Host req,
          dp_OriginPort = rc_Port req,
          dp_RecoveredDomain = recoveredDomain,
          dp_MatchedDomain = gr_matchedDomain r,
          dp_MatchedIP = gr_matchedIP r,
          dp_TargetHost = gr_dstHost r,
          dp_TargetPort = (if p_Port (gr_p r) > 0 then p_Port (gr_p r) else rc_Port req),
          dp_Policy = gr_p r,
          dp_Blocked = gr_blocked r\<rparr>)))"

definition PlanAddress :: "dial_env \<Rightarrow> instant \<Rightarrow> bool \<Rightarrow> string \<Rightarrow> DialPlan core" where
  "PlanAddress env now logger originHost =
     PlanRequest env now logger \<lparr>rc_Source = RequestSourceUnknown, rc_Host = originHost, rc_Port = 0,
       rc_DomainTargetMode = ResolveDomainTarget\<rparr>"

section \<open>Moving an address keeps its host part\<close>

lemma of_bytes_bit:
  assumes "8 * length bs \<le> LENGTH('a)"
  shows "bit (of_bytes bs :: 'a :: len word) n \<longleftrightarrow> n < 8 * length bs \<and> bit (rev bs ! (n div 8)) (n mod 8)"
  using assms
proof (induction bs arbitrary: n rule: rev_induct)
  case Nil
  then show ?case by (simp add: of_bytes_def)
next
  case (snoc b bs)
  have s: "of_bytes (bs @ [b]) = push_bit 8 (of_bytes bs :: 'a word) OR ucast b" by (simp add: of_bytes_def)
  show ?case
  proof (cases "n < 8")
    case True
    then show ?thesis using snoc.prems unfolding s by (auto simp: bit_or_iff bit_push_bit_iff bit_ucast_iff)
  next
    case False
    then obtain m where m: "n = m + 8" by (metis add.commute le_Suc_ex not_less)
    have "\<not> bit b n" using False by (auto dest: bit_imp_le_length)
    then show ?thesis
      using snoc.IH [of m] snoc.prems unfolding s by (auto simp: m bit_or_iff bit_push_bit_iff bit_ucast_iff)
  qed
qed

lemma to_bytes_nth: "i < n \<Longrightarrow> to_bytes n w ! i = ucast (drop_bit (8 * (n - 1 - i)) w)"
  by (simp add: to_bytes_def)

lemma to_bytes_length [simp]: "length (to_bytes n w) = n"
  by (simp add: to_bytes_def)

lemma transformByte_bit:
  assumes "i < 16" "bits \<le> 128" "k < 8"
  shows "bit (transformByte bits i nb ib) k \<longleftrightarrow> (if 8 * i + (7 - k) < bits then bit nb k else bit ib k)"
proof -
  have p: "unat (of_nat (i * 8) :: byte) = 8 * i" "unat (of_nat (i * 8) + 8 :: byte) = 8 * i + 8"
  proof -
    show 1: "unat (of_nat (i * 8) :: byte) = 8 * i" using assms(1) by (subst unat_of_nat) simp
    have "(of_nat (i * 8) + 8 :: byte) = of_nat (8 * i + 8)" by simp
    then show "unat (of_nat (i * 8) + 8 :: byte) = 8 * i + 8" using assms(1) by (simp only:) (subst unat_of_nat, simp)
  qed
  consider "8 * i + 8 \<le> bits" | "bits \<le> 8 * i" | "8 * i < bits" "bits < 8 * i + 8" by linarith
  then show ?thesis
  proof cases
    case 3
    let ?m = "bits - 8 * i"
    have m: "(of_nat bits - of_nat (i * 8) :: byte) = of_nat ?m" using 3 by (simp add: of_nat_diff mult.commute)
    have "(8 - of_nat ?m :: byte) = of_nat (8 - ?m)" using 3 by (simp add: of_nat_diff)
    then have sh: "unat (8 - of_nat ?m :: byte) = 8 - ?m" by (simp only:) (subst unat_of_nat, simp)
    have "bit (push_bit (8 - ?m) 0xFF :: byte) k \<longleftrightarrow> 8 - ?m \<le> k"
    proof -
      have "(0xFF :: byte) = - 1" by simp
      then show ?thesis using assms(3) by (simp only: bit_push_bit_iff bit_minus_1_iff) auto
    qed
    moreover have "8 - ?m \<le> k \<longleftrightarrow> 8 * i + (7 - k) < bits" using 3 assms(3) by linarith
    moreover have "transformByte bits i nb ib = (nb AND push_bit (8 - ?m) 0xFF) OR (ib AND NOT (push_bit (8 - ?m) 0xFF))"
      unfolding transformByte_def Let_def p m sh using 3 by (simp del: diff_diff_left)
    ultimately show ?thesis using assms(3) by (simp add: bit_or_iff bit_and_iff bit_not_iff)
  qed (use assms(3) p in \<open>auto simp: transformByte_def Let_def\<close>)
qed

lemma transformBytes_word:
  fixes net ip :: "'a :: len word"
  assumes n: "8 * n = LENGTH('a)" and "n \<le> 16" and b: "bits \<le> LENGTH('a)"
  shows "of_bytes (transformBytes bits (to_bytes n net) (to_bytes n ip)) =
    push_bit (LENGTH('a) - bits) (drop_bit (LENGTH('a) - bits) net) OR take_bit (LENGTH('a) - bits) ip"
proof (rule bit_word_eqI)
  fix k assume k: "k < LENGTH('a)"
  let ?bs = "transformBytes bits (to_bytes n net) (to_bytes n ip)"
  have len: "length ?bs = n" by (simp add: transformBytes_def)
  have j: "k div 8 < n" using k n by (simp add: div_less_iff_less_mult mult.commute)
  let ?i = "n - 1 - k div 8"
  have i: "?i < n" "?i < 16" "n - 1 - ?i = k div 8" using j assms(2) by simp_all
  have e: "8 * ?i + (7 - k mod 8) = LENGTH('a) - 1 - k"
  proof -
    have "k = 8 * (k div 8) + k mod 8" "k mod 8 < 8" by simp_all
    then show ?thesis using n j by (simp add: diff_mult_distrib2) 
  qed
  have byte: "bit (to_bytes n w ! ?i) (k mod 8) \<longleftrightarrow> bit w k" for w :: "'a word"
    using i by (simp add: to_bytes_nth bit_ucast_iff bit_drop_bit_eq)
  have "bit (of_bytes ?bs :: 'a word) k \<longleftrightarrow> bit (rev ?bs ! (k div 8)) (k mod 8)"
    using of_bytes_bit [of ?bs, where 'a = 'a] len n k by simp
  also have "rev ?bs ! (k div 8) = transformByte bits ?i (to_bytes n net ! ?i) (to_bytes n ip ! ?i)"
    using i j by (simp add: rev_nth len transformBytes_def)
  also have "bit \<dots> (k mod 8) \<longleftrightarrow> (if LENGTH('a) - 1 - k < bits then bit net k else bit ip k)"
    using transformByte_bit [of ?i bits "k mod 8"] i(2) b assms(2) n byte [of net] byte [of ip] unfolding e by simp
  also have "\<dots> \<longleftrightarrow> bit (push_bit (LENGTH('a) - bits) (drop_bit (LENGTH('a) - bits) net) OR take_bit (LENGTH('a) - bits) ip) k"
    using k b by (auto simp: bit_or_iff bit_push_bit_iff bit_drop_bit_eq bit_take_bit_iff)
  finally show "bit (of_bytes ?bs :: 'a word) k \<longleftrightarrow> \<dots>" .
qed

lemma ParsePrefix_bits:
  "ParsePrefix s = Some p \<Longrightarrow> prefix_Bits p \<le> (if Is4 (prefix_Addr p) then 32 else 128) \<and> addr_zone (prefix_Addr p) = []"
  by (auto simp: ParsePrefix_def Let_def split: option.splits if_splits)

lemma push_drop_idem: "push_bit k (drop_bit k (push_bit k (drop_bit k w))) = push_bit k (drop_bit k (w :: 'a :: len word))"
  by (rule bit_word_eqI) (auto simp: bit_push_bit_iff bit_drop_bit_eq)

text \<open>The address with the leading \<open>bits\<close> bits of the first and the remaining bits of the second.\<close>

definition graft :: "nat \<Rightarrow> 'a :: len word \<Rightarrow> 'a word \<Rightarrow> 'a word" where
  "graft bits net ip = push_bit (LENGTH('a) - bits) (drop_bit (LENGTH('a) - bits) net) OR take_bit (LENGTH('a) - bits) ip"

text \<open>
  C25: Mapping an address into a network, which the code does byte by byte, gives the address with the
  network part of the network and the host part of the address, in both families, for every
  prefix length; it fails exactly if one of the two does not parse or the families differ.  A zone
  is dropped.
\<close>

theorem transformIP_correct:
  "transformIP perr ipStr net =
    (case (ParseAddr ipStr, map_option (\<lambda>p. (prefix_Addr p, prefix_Bits p)) (ParsePrefix net)) of
       (None, _) \<Rightarrow> Inl (Error ''invalid IP'')
     | (_, None) \<Rightarrow> Inl (Error (''invalid target network: '' @ perr net))
     | (Some (IP4 w), Some (IP4 n, b)) \<Rightarrow> Inr (addr_String (IP4 (graft b n w)))
     | (Some (IP6 w z), Some (IP6 n y, b)) \<Rightarrow> Inr (addr_String (IP6 (graft b n w) []))
     | _ \<Rightarrow> Inl (Error ''IP version mismatch between source IP and target network''))"
proof (cases "ParseAddr ipStr")
  case None
  then show ?thesis by (simp add: transformIP_def)
next
  case (Some a)
  note a = this
  show ?thesis
  proof (cases "ParsePrefix net")
    case None
    then show ?thesis using a by (cases a) (simp_all add: transformIP_def)
  next
    case (Some p)
    obtain pa b where p: "p = \<lparr>prefix_Addr = pa, prefix_Bits = b\<rparr>" by (cases p)
    have le: "b \<le> (if Is4 pa then 32 else 128)" using ParsePrefix_bits [OF Some] by (simp add: p)
    note w = transformBytes_word [where 'a = 32 and n = 4 and bits = b, simplified]
      transformBytes_word [where 'a = 128 and n = 16 and bits = b, simplified]
    show ?thesis
      using le by (cases a; cases pa) (simp_all add: transformIP_def a Some p Let_def Masked_def w push_drop_idem graft_def)
  qed
qed

section \<open>Planning is safe\<close>

definition dns_inv :: "dns_state \<Rightarrow> bool" where
  "dns_inv d \<longleftrightarrow> stores_inv (ds_fakes d)"

definition core_inv :: "core_state \<Rightarrow> bool" where
  "core_inv s \<longleftrightarrow> dns_inv (cs_dns s) \<and> list_all (\<lambda>(tag, p). pool_ok p) (cs_pools s)"

text \<open>
  What the configuration and the surroundings are to satisfy: the policies are in range, the two resolvers
  return.
\<close>

definition dns_env_ok :: "dns_env \<Rightarrow> bool" where
  "dns_env_ok env \<longleftrightarrow> (\<forall>n req. \<not> is_panic (env_exchange env n req))
     \<and> (\<forall>m d p. env_domainMatcher env = Some m \<and> DomainMatcher_Find m d = Some p \<longrightarrow> policy_in_range p)"

definition dial_env_ok :: "dial_env \<Rightarrow> bool" where
  "dial_env_ok env \<longleftrightarrow> dns_env_ok (de_dns env) \<and> (\<forall>n host. \<not> is_panic (de_lookupIP env n host))
     \<and> policy_in_range (de_defaultPolicy env)
     \<and> (\<forall>ip p. getIPPolicy (de_ipMatchers env) ip = Some p \<longrightarrow> policy_in_range p)"

lemma dnsExchange_safe [safe_intros]: "dns_env_ok env \<Longrightarrow> c_safe dns_inv (dnsExchange env req) (\<lambda>_. True)"
proof (rule c_safeI)
  fix s assume "dns_env_ok env" "dns_inv s"
  then show "(\<exists>s' e. dns_inv s' \<and> dnsExchange env req s = Some (s', Inl (Error e))) \<or>
      (\<exists>s' x. dns_inv s' \<and> dnsExchange env req s = Some (s', Inr x) \<and> True)"
    by (cases "env_exchange env (ds_exchanges s) req" rule: is_panic.cases)
      (auto simp: dnsExchange_def dns_inv_def dns_env_ok_def, metis is_panic.simps(1))
qed

lemma checkRcode_safe [safe_intros]: "c_safe dns_inv (checkRcode env resp) (\<lambda>_. True)"
  by (simp add: checkRcode_def safe_intros)

lemma resolveAnswer_safe [safe_intros]: "dns_env_ok env \<Longrightarrow> c_safe dns_inv (resolveAnswer env d mode ans) (\<lambda>_. True)"
  by (auto simp: resolveAnswer_def resolveOther_def Let_def split: DNSMode.split option.split intro!: safe_intros)

lemma doDNSResolve_safe: "dns_env_ok env \<Longrightarrow> c_safe dns_inv (doDNSResolve env now d mode) (\<lambda>_. True)"
  unfolding doDNSResolve_def by (auto simp: dns_inv_def intro!: safe_intros)

lemma dnsResolve_safe:
  assumes "dns_env_ok env"
  shows "c_safe dns_inv (dnsResolve env now d mode) (\<lambda>_. True)"
proof (rule c_safeI)
  fix s assume s: "dns_inv s"
  have r: "c_safe dns_inv (c_bind (doDNSResolve env now d mode) (\<lambda>ip. c_return (ip, False))) (\<lambda>_. True)"
    by (rule c_safe_bind [OF doDNSResolve_safe [OF assms]]) (rule c_safe_return, simp)
  have i: "dns_inv (s\<lparr>ds_dnsCache := c\<rparr>)" for c using s by (simp add: dns_inv_def)
  have "\<exists>t. dns_inv t \<and> (dnsResolve env now d mode s = c_bind (doDNSResolve env now d mode) (\<lambda>ip. c_return (ip, False)) t
      \<or> (\<exists>x. dnsResolve env now d mode s = Some (t, Inr x)))"
    using s i by (auto simp: dnsResolve_def split: option.splits prod.splits)
  then obtain t where t: "dns_inv t" "dnsResolve env now d mode s = c_bind (doDNSResolve env now d mode) (\<lambda>ip. c_return (ip, False)) t
      \<or> (\<exists>x. dnsResolve env now d mode s = Some (t, Inr x))" by blast
  show "(\<exists>s' e. dns_inv s' \<and> dnsResolve env now d mode s = Some (s', Inl (Error e))) \<or>
      (\<exists>s' x. dns_inv s' \<and> dnsResolve env now d mode s = Some (s', Inr x) \<and> True)"
    by (rule c_safeD [OF r t(1)]) (use t in auto)
qed

lemma Resolver_Resolve_safe [safe_intros]:
  "dns_env_ok env \<Longrightarrow> c_safe dns_inv (Resolver_Resolve env now d mode) (\<lambda>_. True)"
  unfolding Resolver_Resolve_def by (auto simp: dns_inv_def intro!: safe_intros dnsResolve_safe)

lemma on_dns_safe: "c_safe dns_inv m Q \<Longrightarrow> c_safe core_inv (on_dns m) Q"
  unfolding on_dns_def by (rule c_safe_zoom) (auto simp: core_inv_def)

lemma set_update_subset: "set (AList.update k v al) \<subseteq> insert (k, v) (set al)"
  by (induction al) auto

lemma core_pool_safe [safe_intros]: "c_safe core_inv (core_pool tag) (\<lambda>_. True)"
proof (rule c_safeI)
  fix s assume s: "core_inv s"
  show "(\<exists>s' e. core_inv s' \<and> core_pool tag s = Some (s', Inl (Error e))) \<or>
      (\<exists>s' x. core_inv s' \<and> core_pool tag s = Some (s', Inr x) \<and> True)"
  proof (cases "map_of (cs_pools s) tag")
    case None
    then show ?thesis using s by (cases "cs_pools s = []") (simp_all add: core_pool_def getFromIPPool_def core_inv_def)
  next
    case (Some p)
    then have "pool_ok p" using s by (auto simp: core_inv_def list_all_iff dest: map_of_SomeD)
    then obtain p' ip where g: "pool_Get p = Inr (p', ip)" "pool_ok p'" using pool_Get_ok by blast
    have "core_inv (s\<lparr>cs_pools := AList.update tag p' (cs_pools s)\<rparr>)"
      using s g(2) by (auto simp: core_inv_def list_all_iff dest!: subsetD [OF set_update_subset])
    moreover have "cs_pools s \<noteq> []" using Some by auto
    ultimately show ?thesis using Some g(1) by (cases "ip = []") (simp_all add: core_pool_def getFromIPPool_def)
  qed
qed

lemma transformIP_no_panic: "\<not> is_panic (transformIP perr ip net)"
proof -
  have "Is4 (mask_addr a b) = Is4 a" for a b by (cases a) simp_all
  then show ?thesis
    by (auto simp: transformIP_def Masked_def Let_def split: option.split addr.split) (metis Is4.simps)+
qed

lemma c_log_safe [safe_intros]: "c_safe I (c_log True) (\<lambda>_. True)"
  by (simp add: c_log_def safe_intros)

lemma dnsCache_Get_inv: "dns_inv d \<Longrightarrow> dns_inv (fst (dnsCache_Get now h d))"
  by (auto simp: dnsCache_Get_def dns_inv_def split: option.split prod.split)

lemma bootstrapLookupIP_safe: "dial_env_ok env \<Longrightarrow> c_safe core_inv (bootstrapLookupIP env h) (\<lambda>_. True)"
proof (rule c_safeI)
  fix s assume "dial_env_ok env" "core_inv s"
  then show "(\<exists>s' e. core_inv s' \<and> bootstrapLookupIP env h s = Some (s', Inl (Error e))) \<or>
      (\<exists>s' x. core_inv s' \<and> bootstrapLookupIP env h s = Some (s', Inr x) \<and> True)"
    by (cases "de_lookupIP env (cs_lookups s) h" rule: is_panic.cases)
      (auto simp: bootstrapLookupIP_def core_inv_def dial_env_ok_def, metis is_panic.simps(1))
qed

lemma resolveBootstrapHost_safe:
  assumes "dial_env_ok env"
  shows "c_safe core_inv (resolveBootstrapHost env now host) (\<lambda>_. True)"
proof -
  have g: "c_safe core_inv (on_dns (c_call (dnsCache_Get now host))) (\<lambda>_. True)"
    by (intro on_dns_safe c_safe_call) (simp add: dnsCache_Get_inv)
  show ?thesis unfolding resolveBootstrapHost_def Let_def
    by (intro safe_intros TrueI c_safe_bind [OF g])
      (auto simp: dns_inv_def split: option.split intro!: safe_intros on_dns_safe bootstrapLookupIP_safe [OF assms])
qed

lemma ipRedirect_safe:
  assumes "dial_env_ok env"
  shows "c_safe core_inv (ipRedirect env now logger ip) (\<lambda>(dst, ipp). case ipp of Some p \<Rightarrow> policy_in_range p | None \<Rightarrow> True)"
proof -
  have p: "getIPPolicy (de_ipMatchers env) x = Some q \<Longrightarrow> policy_in_range q" for x q
    using assms by (simp add: dial_env_ok_def)
  have t: "c_safe core_inv (c_lift (transformIP perr ip m)) (\<lambda>_. True)" for perr m
    by (rule c_safe_lift) (simp_all add: transformIP_no_panic)
  have m: "c_safe core_inv (mapToTarget env now ip m) (\<lambda>_. True)" for m
    unfolding mapToTarget_def by (intro safe_intros t resolveBootstrapHost_safe [OF assms] TrueI)
  show ?thesis
  proof (cases "getIPPolicy (de_ipMatchers env) ip")
    case (Some q)
    then show ?thesis using p [OF Some] p unfolding ipRedirect_def
      by (auto split: option.split intro!: safe_intros c_safe_bind [OF m])
  qed (simp add: ipRedirect_def safe_intros)
qed

definition effective :: "Policy \<Rightarrow> bool" where
  "effective p \<longleftrightarrow> policy_in_range p \<and> p_Mode p \<noteq> ModeUnknown \<and> p_DNSMode p \<noteq> DNSModeUnknown"

definition gen_wf :: "genResult \<Rightarrow> bool" where
  "gen_wf r \<longleftrightarrow>
     (if gr_failed r then True
      else if gr_blocked r then gr_dstHost r = [] \<and> gr_p r = zeroPolicy
      else effective (gr_p r))"

lemma effective_merge: "(\<And>p. p \<in> set ps \<Longrightarrow> policy_in_range p) \<Longrightarrow> effective (mergePolicies ps)"
  by (simp add: effective_def merge_in_range policy_simps Let_def)

lemma gen_wf_intros [simp]: "gen_wf (genFail md mi)" "gen_wf (genBlock md mi)" "gen_wf (genOk dst p md mi) \<longleftrightarrow> effective p"
  by (simp_all add: gen_wf_def genFail_def genBlock_def genOk_def)

lemma orFail_safe:
  assumes "c_safe core_inv m Q" and "\<And>x. Q x \<Longrightarrow> c_safe core_inv (f x) gen_wf"
  shows "c_safe core_inv (c_orFail (c_log True) md mi m f) gen_wf"
  unfolding c_orFail_def
  by (rule c_safe_bind [OF c_safe_try [OF assms(1)]])
    (auto simp: no_panic_def intro!: safe_intros assms(2))

lemma env_policies:
  assumes "dial_env_ok env"
  shows "policy_in_range (de_defaultPolicy env)" "domainRule env d = Some p \<Longrightarrow> policy_in_range p"
  using assms by (auto simp: dial_env_ok_def dns_env_ok_def domainRule_def split: if_splits Option.bind_splits)

lemma effective_default:
  assumes "dial_env_ok env"
  shows "policy_in_range p \<Longrightarrow> effective (mergePolicies [p, de_defaultPolicy env])"
    and "policy_in_range p \<Longrightarrow> policy_in_range q \<Longrightarrow> effective (mergePolicies [p, q, de_defaultPolicy env])"
  by (auto intro!: effective_merge simp: env_policies(1) [OF assms])

lemma genPolicyIP_safe:
  assumes "dial_env_ok env"
  shows "c_safe core_inv (genPolicyIP env now True h) gen_wf"
  unfolding genPolicyIP_def
  by (rule orFail_safe [OF ipRedirect_safe [OF assms]])
    (auto split: option.splits intro!: safe_intros simp: effective_default [OF assms] fallback_in_range)

lemma redirectTarget_safe:
  assumes "dial_env_ok env" "effective p" "\<And>dp. rule = Some dp \<Longrightarrow> policy_in_range dp"
  shows "c_safe core_inv (redirectTarget env now True rule p md h) gen_wf"
  unfolding redirectTarget_def
proof (rule orFail_safe [OF ipRedirect_safe [OF assms(1)]])
  fix x :: "string \<times> Policy option"
  assume "case x of (dst, ipp) \<Rightarrow> case ipp of Some p \<Rightarrow> policy_in_range p | None \<Rightarrow> True"
  then show "c_safe core_inv (case x of (dstHost, ipPolicy) \<Rightarrow> case ipPolicy of
         None \<Rightarrow> c_return (genOk dstHost p md False)
       | Some ipp \<Rightarrow>
           let p1 = mergePolicies ((case rule of Some dp \<Rightarrow> [dp] | None \<Rightarrow> []) @ [ipp, de_defaultPolicy env])
           in c_return (if p_Mode p1 = ModeBlock then genBlock md True else genOk dstHost p1 md True)) gen_wf"
    using assms(2,3) by (cases x; cases rule)
      (auto simp: Let_def effective_default [OF assms(1)] split: option.split intro!: safe_intros)
qed

lemma domainMerged_effective: "dial_env_ok env \<Longrightarrow> effective (fst (domainMerged env h))"
  by (auto simp: domainMerged_def effective_default fallback_in_range env_policies(2) split: option.split)

lemma lookupRecorded_inv: "dns_inv d \<Longrightarrow> dns_inv (fst (lookupRecordedDNSIP now h mode d))"
  by (auto simp: lookupRecordedDNSIP_def dns_inv_def Let_def split: option.split)

lemma resolveTarget_safe:
  assumes "dial_env_ok env"
  shows "c_safe core_inv (resolveTarget env now mode h) (\<lambda>_. True)"
proof -
  have l: "c_safe core_inv (on_dns (c_call (lookupRecordedDNSIP now h mode))) (\<lambda>_. True)"
    by (intro on_dns_safe c_safe_call) (simp add: lookupRecorded_inv)
  have "dns_env_ok (de_dns env)" using assms by (simp add: dial_env_ok_def)
  then show ?thesis unfolding resolveTarget_def
    by (intro c_safe_bind [OF l]) (auto split: option.split intro!: safe_intros on_dns_safe)
qed

lemma genPolicyWithOptions_safe:
  assumes "dial_env_ok env"
  shows "c_safe core_inv (genPolicyWithOptions env now True h resolve) gen_wf"
proof (cases "ParseIP h = None")
  case True
  obtain p md where m: "domainMerged env h = (p, md)" by (cases "domainMerged env h")
  obtain dst skip where t: "hostTarget h (p_Host p) = (dst, skip)" by (cases "hostTarget h (p_Host p)")
  have p: "effective p" using domainMerged_effective [OF assms, of h] by (simp add: m)
  have logged: "c_safe core_inv (c_bind m (\<lambda>ip. c_bind (c_log True) (\<lambda>_. c_return ip))) (\<lambda>_. True)"
    if "c_safe core_inv m (\<lambda>_. True)" for m :: "string core"
    by (rule c_safe_bind [OF that], rule c_safe_bind [OF c_log_safe], rule c_safe_return, simp)
  have hostlog: "c_safe core_inv (if p_Host p \<noteq> None then c_log True else c_return ()) (\<lambda>_. True)"
    by (simp add: safe_intros)
  let ?pooled = "if HasPrefix dst tagPrefix then c_bind (core_pool (drop 1 dst)) (\<lambda>ip. c_bind (c_log True) (\<lambda>_. c_return ip)) else c_return dst"
  let ?resolved = "\<lambda>d. if \<not> skip \<and> resolve \<and> ParseIP d = None
    then c_bind (resolveTarget env now (p_DNSMode p) d) (\<lambda>ip. c_bind (c_log True) (\<lambda>_. c_return ip)) else c_return d"
  have eq: "genPolicyWithOptions env now True h resolve =
    (if map_option p_Mode (domainRule env h) = Some ModeBlock then c_return (genBlock md False)
     else c_bind (if p_Host p \<noteq> None then c_log True else c_return ()) (\<lambda>_.
       c_orFail (c_log True) md False ?pooled (\<lambda>d1.
       c_orFail (c_log True) md False (?resolved d1) (\<lambda>d2.
       if skip \<or> ParseIP d2 = None then c_return (genOk d2 p md False)
       else redirectTarget env now True (domainRule env h) p md d2))))"
    unfolding genPolicyWithOptions_def Let_def m prod.case t using True by (simp only: simp_thms if_False)
  have pooled: "c_safe core_inv ?pooled (\<lambda>_. True)" and resolved: "c_safe core_inv (?resolved d) (\<lambda>_. True)" for d
    by (intro c_safe_if c_safe_return logged core_pool_safe resolveTarget_safe assms TrueI)+
  show ?thesis unfolding eq
    by (intro c_safe_if c_safe_return c_safe_bind [OF hostlog] orFail_safe [OF pooled] orFail_safe [OF resolved]
          redirectTarget_safe assms p env_policies(2) [OF assms]) (simp_all add: p)
qed (simp add: genPolicyWithOptions_def genPolicyIP_safe [OF assms])

section \<open>Plans are well-formed\<close>

definition plan_wf :: "RequestContext \<Rightarrow> DialPlan \<Rightarrow> bool" where
  "plan_wf req plan \<longleftrightarrow>
     dp_Source plan = rc_Source req \<and> dp_OriginHost plan = rc_Host req \<and> dp_OriginPort plan = rc_Port req
     \<and> (if dp_Blocked plan then dp_TargetHost plan = [] \<and> dp_Policy plan = zeroPolicy \<and> dp_TargetPort plan = rc_Port req
        else effective (dp_Policy plan) \<and> (dp_TargetPort plan = rc_Port req \<or> dp_TargetPort plan \<in> {1..65535}))"

lemma lookupDomain_inv: "dns_inv d \<Longrightarrow> dns_inv (fst (lookupDomainByIP now ip d))"
  using stores_inv_lookup [of "ds_fakes d" now now ip]
  by (auto simp: lookupDomainByIP_def dns_inv_def Let_def split: prod.split option.split)

lemma PlanRequest_safe:
  assumes "dial_env_ok env"
  shows "c_safe core_inv (PlanRequest env now True req) (plan_wf req)"
proof -
  have l: "c_safe core_inv (if ParseIP (rc_Host req) \<noteq> None then Resolver_LookupDomain now (rc_Host req) else c_return []) (\<lambda>_. True)"
    unfolding Resolver_LookupDomain_def
    by (intro safe_intros on_dns_safe c_safe_call TrueI) (simp add: lookupDomain_inv split_beta)
  have wf: "gen_wf r \<Longrightarrow> \<not> gr_failed r \<Longrightarrow> plan_wf req \<lparr>dp_Source = rc_Source req, dp_OriginHost = rc_Host req, dp_OriginPort = rc_Port req,
      dp_RecoveredDomain = rd, dp_MatchedDomain = gr_matchedDomain r, dp_MatchedIP = gr_matchedIP r, dp_TargetHost = gr_dstHost r,
      dp_TargetPort = (if p_Port (gr_p r) > 0 then p_Port (gr_p r) else rc_Port req), dp_Policy = gr_p r, dp_Blocked = gr_blocked r\<rparr>" for r rd
    by (auto simp: plan_wf_def gen_wf_def effective_def policy_in_range_def zeroPolicy_def)
  show ?thesis unfolding PlanRequest_def Let_def
    by (intro c_safe_if c_safe_fail c_safe_bind [OF l] c_safe_bind [OF genPolicyWithOptions_safe [OF assms]] c_safe_return wf)
qed

section \<open>Properties\<close>

text \<open>
  C24: Planning a request is total and typed: with a configuration whose policies are in range it returns,
  never panics and keeps the invariant of the fake-address pools and of the address pools.  Its result
  is an error or a plan for this request: a blocked one, which has no target and the zero policy, or
  one with a definite policy in range and a port that is the one asked for or a valid port of the policy.
\<close>

theorem PlanRequest_typed:
  assumes "dial_env_ok env" and "core_inv s"
  shows "\<exists>s' r. PlanRequest env now True req s = Some (s', r) \<and> core_inv s' \<and>
    (case r of Inl e \<Rightarrow> \<exists>msg. e = Error msg | Inr plan \<Rightarrow> plan_wf req plan)"
  by (rule c_safeD [OF PlanRequest_safe [OF assms(1)] assms(2), of now req]) auto

lemma PlanRequest_recovered:
  assumes "ParseIP (rc_Host req) \<noteq> None" and "lookupDomainByIP now (rc_Host req) (cs_dns s) = (d1, Some domain)"
    and "domain \<noteq> []" "ParseIP domain = None"
  shows "PlanRequest env now logger req s =
    map_option (map_prod id (map_sum id (\<lambda>plan. plan\<lparr>dp_OriginHost := rc_Host req, dp_RecoveredDomain := domain\<rparr>)))
      (PlanRequest env now logger (req\<lparr>rc_Host := domain\<rparr>) (s\<lparr>cs_dns := d1\<rparr>))"
proof -
  have h: "rc_Host req \<noteq> []" using assms(1) by (auto simp: ParseIP_def ParseAddr_Nil)
  have l: "Resolver_LookupDomain now (rc_Host req) s = Some (s\<lparr>cs_dns := d1\<rparr>, Inr domain)"
    by (simp add: Resolver_LookupDomain_def on_dns_def c_zoom_def c_call_def assms(2))
  let ?g = "genPolicyWithOptions env now logger domain (rc_DomainTargetMode req \<noteq> PreserveDomainTarget) (s\<lparr>cs_dns := d1\<rparr>)"
  show ?thesis
  proof (cases ?g)
    case None
    then show ?thesis using assms(1,3,4) h by (simp add: PlanRequest_def c_bind_def l)
  next
    case (Some sr)
    obtain s' r where "sr = (s', r)" by (cases sr)
    then show ?thesis using assms(1,3,4) h Some by (cases r) (auto simp: PlanRequest_def c_bind_def l)
  qed
qed

lemma hostTarget_None [simp]: "hostTarget h None = (h, False)"
  by (simp add: hostTarget_def)

text \<open>A host without a rule, that is not resolved, is the target itself.\<close>

lemma PlanRequest_unruled:
  assumes "rc_Host req \<noteq> []" "ParseIP (rc_Host req) = None" "rc_DomainTargetMode req = PreserveDomainTarget"
    and "domainRule env (rc_Host req) = None" "classifyDomainRoute (de_dns env) (rc_Host req) \<noteq> domainRouteGFW"
    and "p_Host (de_defaultPolicy env) = None" "p_Port (de_defaultPolicy env) \<le> 0" "\<not> HasPrefix (rc_Host req) tagPrefix"
  shows "PlanRequest env now logger req s = Some (s, Inr \<lparr>
    dp_Source = rc_Source req, dp_OriginHost = rc_Host req, dp_OriginPort = rc_Port req, dp_RecoveredDomain = [],
    dp_MatchedDomain = False, dp_MatchedIP = False, dp_TargetHost = rc_Host req, dp_TargetPort = rc_Port req,
    dp_Policy = mergePolicies [plainFallbackPolicy, de_defaultPolicy env], dp_Blocked = False\<rparr>)"
proof -
  let ?p = "mergePolicies [plainFallbackPolicy, de_defaultPolicy env]"
  have p: "p_Host ?p = None" "\<not> 0 < p_Port ?p" using assms(6,7) by (simp_all add: policy_simps plainFallbackPolicy_def zeroPolicy_def)
  have "domainMerged env (rc_Host req) = (?p, False)" using assms(4,5) by (simp add: domainMerged_def)
  then show ?thesis using assms p
    by (simp add: PlanRequest_def genPolicyWithOptions_def c_orFail_def c_bind_def c_try_def genOk_def Let_def)
qed

lemma PlanRequest_blocked:
  assumes "rc_Host req \<noteq> []" "ParseIP (rc_Host req) = None" "domainRule env (rc_Host req) = Some rule" "p_Mode rule = ModeBlock"
  shows "PlanRequest env now logger req s = Some (s, Inr \<lparr>
    dp_Source = rc_Source req, dp_OriginHost = rc_Host req, dp_OriginPort = rc_Port req, dp_RecoveredDomain = [],
    dp_MatchedDomain = True, dp_MatchedIP = False, dp_TargetHost = [], dp_TargetPort = rc_Port req,
    dp_Policy = zeroPolicy, dp_Blocked = True\<rparr>)"
  using assms by (simp add: PlanRequest_def genPolicyWithOptions_def domainMerged_def c_bind_def genBlock_def zeroPolicy_def)


section \<open>A sample configuration\<close>

definition blockPolicy :: Policy where
  "blockPolicy = unsetPolicy\<lparr>p_Mode := ModeBlock\<rparr>"

text \<open>A configuration whose policies are in range, with resolvers that return, satisfies what the planner relies on.\<close>

lemma dial_env_ok_built:
  assumes "env_domainMatcher (de_dns env) = Some (buildDomainMatcher domains)" "de_ipMatchers env = buildIPMatchers ips"
    and "\<And>p. p \<in> snd ` set domains \<union> snd ` set ips \<union> {de_defaultPolicy env} \<Longrightarrow> policy_in_range p"
    and "\<And>n req. \<not> is_panic (env_exchange (de_dns env) n req)" "\<And>n host. \<not> is_panic (de_lookupIP env n host)"
  shows "dial_env_ok env"
  using assms by (auto simp: dial_env_ok_def dns_env_ok_def dest!: buildDomainMatcher_value getIPPolicy_value)

definition sampleDial :: dial_env where
  "sampleDial = \<lparr>de_dns = sampleEnv (Some (buildDomainMatcher [(''a.b'', blockPolicy)])), de_defaultPolicy = zeroPolicy,
     de_ipMatchers = buildIPMatchers [], de_lookupIP = (\<lambda>n h. Inr []), de_prefixError = (\<lambda>s. s)\<rparr>"

definition sampleCore :: core_state where
  "sampleCore = \<lparr>cs_dns = sampleState, cs_pools = [(''p'', samplePool1)], cs_lookups = 0\<rparr>"

definition sampleRequest :: "string \<Rightarrow> RequestContext" where
  "sampleRequest host = \<lparr>rc_Source = RequestSourceSOCKS5, rc_Host = host, rc_Port = 443, rc_DomainTargetMode = PreserveDomainTarget\<rparr>"

lemma sampleDial_ok: "dial_env_ok sampleDial"
  by (rule dial_env_ok_built [where domains = "[(''a.b'', blockPolicy)]" and ips = "[]"])
    (auto simp: sampleDial_def sampleEnv_def blockPolicy_def policy_in_range_def unsetPolicy_def zeroPolicy_def unsetInt_def)

lemma sampleCore_inv: "core_inv sampleCore"
  using fake_reach_inv [OF exampleStores_reach] pool_reach_ok [OF samplePool_reach(2)]
  by (simp add: core_inv_def sampleCore_def dns_inv_def sampleState_def)

lemma sample_matcher:
  "buildDomainMatcher [(''a.b'', blockPolicy)] =
     LabelNode [(''b'', LabelNode [(''a'', LabelNode [] (Some blockPolicy) None)] None None)] None None"
  by (simp add: buildDomainMatcher_def expandPattern.simps splitByPipe_def ignoring_def DomainMatcher_Add_def HasPrefix_def
      insertPattern_def label_steps.simps NewDomainMatcher_def newLabelNode_def)

lemma sample_find:
  "DomainMatcher_Find (buildDomainMatcher [(''a.b'', blockPolicy)]) ''a.b'' = Some blockPolicy"
  "DomainMatcher_Find (buildDomainMatcher [(''a.b'', blockPolicy)]) ''A.b'' = None"
  by (simp_all add: sample_matcher DomainMatcher_Find_def label_steps.simps)

theorem PlanRequest_typed_witness:
  "\<exists>s' r. PlanRequest sampleDial 0 True (sampleRequest ''a.b'') sampleCore = Some (s', r) \<and> core_inv s' \<and>
    (case r of Inl e \<Rightarrow> \<exists>msg. e = Error msg | Inr plan \<Rightarrow> plan_wf (sampleRequest ''a.b'') plan)"
  by (rule PlanRequest_typed [OF sampleDial_ok sampleCore_inv])


end
