(* ===== verification/Socks_Codec.thy ===== *)
theory Socks_Codec
  imports Dial_Plan
begin

text \<open>
  The SOCKS5 codec of the client, \<^verbatim>\<open>src/tun2socks/transport/socks5/socks5.go\<close>: addresses as bytes, datagrams, and
  the handshake of a client on a stream \<open>socket\<close> that has what the server will send and what was written to it.

  \<open>SplitAddr_SerializeAddr\<close> and \<open>DecodeUDPPacket_Serialize\<close> are the round trips of an address and of a datagram,
  \<open>ReadAddr_SplitAddr\<close> says that reading an address from a stream and slicing it from a buffer agree.
\<close>

section \<open>Constants\<close>

definition MethodNoAuth :: byte where "MethodNoAuth = 0x00"
definition MethodUserPass :: byte where "MethodUserPass = 0x02"
definition socksVersion :: byte where "socksVersion = 0x05"
definition CmdConnect :: byte where "CmdConnect = 0x01"
definition CmdBind :: byte where "CmdBind = 0x02"
definition CmdUDPAssociate :: byte where "CmdUDPAssociate = 0x03"
definition AtypIPv4 :: byte where "AtypIPv4 = 0x01"
definition AtypDomainName :: byte where "AtypDomainName = 0x03"
definition AtypIPv6 :: byte where "AtypIPv6 = 0x04"
definition MaxAddrLen :: nat where "MaxAddrLen = 1 + 1 + 255 + 2"
definition MaxAuthLen :: nat where "MaxAuthLen = 255"

lemmas socks_consts = MethodNoAuth_def MethodUserPass_def socksVersion_def CmdConnect_def CmdBind_def CmdUDPAssociate_def
  AtypIPv4_def AtypDomainName_def AtypIPv6_def

definition Command_String :: "byte \<Rightarrow> string" where
  "Command_String c =
     (if c = CmdConnect then ''CONNECT'' else if c = CmdBind then ''BIND''
      else if c = CmdUDPAssociate then ''UDP ASSOCIATE'' else ''UNDEFINED'')"

text \<open>\<^verbatim>\<open>%#02x\<close>: two hexadecimal digits after the prefix.\<close>

definition Reply_String :: "byte \<Rightarrow> string" where
  "Reply_String r =
     (if r = 0x00 then ''succeeded''
      else if r = 0x01 then ''general SOCKS server failure''
      else if r = 0x02 then ''connection not allowed by ruleset''
      else if r = 0x03 then ''network unreachable''
      else if r = 0x04 then ''host unreachable''
      else if r = 0x05 then ''connection refused''
      else if r = 0x06 then ''TTL expired''
      else if r = 0x07 then ''command not supported''
      else if r = 0x08 then ''address type not supported''
      else ''unassigned <0x'' @ (if r < 16 then ''0'' else []) @ string_of_hex (unat r) @ ''>'')"

section \<open>Addresses\<close>

text \<open>A SOCKS address: the type, the host and the port, as bytes.  A \<^verbatim>\<open>nil\<close> address is \<open>None\<close>.\<close>

definition Addr_Valid :: "bytes \<Rightarrow> bool" where
  "Addr_Valid a =
     (if length a < 1 + 1 + 2 then False
      else if a ! 0 = AtypDomainName then 1 + 1 + unat (a ! 1) + 2 \<le> length a
      else if a ! 0 = AtypIPv4 then 1 + 4 + 2 \<le> length a
      else if a ! 0 = AtypIPv6 then 1 + 16 + 2 \<le> length a
      else True)"

text \<open>\<^verbatim>\<open>net.IP\<close> of four or sixteen bytes.\<close>

definition ip_of_bytes :: "bytes \<Rightarrow> addr" where
  "ip_of_bytes bs = (if length bs = 4 then IP4 (of_bytes bs) else IP6 (of_bytes bs) [])"

definition port_at :: "bytes \<Rightarrow> nat \<Rightarrow> nat" where
  "port_at a i = be16 (a ! i) (a ! (i + 1))"

definition Addr_String :: "bytes \<Rightarrow> string" where
  "Addr_String a =
     (if \<not> Addr_Valid a then []
      else
        let (host, port) =
          (if a ! 0 = AtypDomainName then
             let hostLen = unat (a ! 1) in (string_of_bytes (take hostLen (drop 2 a)), Itoa (int (port_at a (2 + hostLen))))
           else if a ! 0 = AtypIPv4 then (IP_String (ip_of_bytes (take 4 (drop 1 a))), Itoa (int (port_at a (1 + 4))))
           else if a ! 0 = AtypIPv6 then (IP_String (ip_of_bytes (take 16 (drop 1 a))), Itoa (int (port_at a (1 + 16))))
           else ([], []))
        in JoinHostPort host port)"

text \<open>
  \<^verbatim>\<open>UDPAddr\<close>: the address and the port; for a type it does not know it returns an address without an
  IP, \<open>Some (None, 0)\<close>.
\<close>

definition Addr_UDPAddr :: "bytes \<Rightarrow> (addr option \<times> nat) option" where
  "Addr_UDPAddr a =
     (if \<not> Addr_Valid a then None
      else if a ! 0 = AtypDomainName then None
      else if a ! 0 = AtypIPv4 then Some (Some (ip_of_bytes (take 4 (drop 1 a))), port_at a (1 + 4))
      else if a ! 0 = AtypIPv6 then Some (Some (ip_of_bytes (take 16 (drop 1 a))), port_at a (1 + 16))
      else Some (None, 0))"

text \<open>The address at the beginning of \<open>b\<close>.\<close>

definition SplitAddr :: "bytes \<Rightarrow> bytes option" where
  "SplitAddr b =
     (if length b < 1 then None
      else
        let addrLen =
          (if b ! 0 = AtypDomainName then (if length b < 2 then None else Some (1 + 1 + unat (b ! 1) + 2))
           else if b ! 0 = AtypIPv4 then Some (1 + 4 + 2)
           else if b ! 0 = AtypIPv6 then Some (1 + 16 + 2)
           else None)
        in case addrLen of
             None \<Rightarrow> None
           | Some n \<Rightarrow> if length b < n then None else Some (take n b))"

text \<open>\<^verbatim>\<open>AsSlice\<close> of an address; that of the zero address is \<^verbatim>\<open>nil\<close>.\<close>

definition AsSlice :: "addr option \<Rightarrow> bytes" where
  "AsSlice a = (case a of None \<Rightarrow> [] | Some (IP4 w) \<Rightarrow> to_bytes 4 w | Some (IP6 w z) \<Rightarrow> to_bytes 16 w)"

definition SerializeAddr :: "string \<Rightarrow> addr option \<Rightarrow> nat \<Rightarrow> bytes" where
  "SerializeAddr domainName dstIP dstPort =
     (if domainName \<noteq> [] then [AtypDomainName, word_of_nat (length domainName)] @ bytes_of_string domainName @ put16 dstPort
      else if (case dstIP of Some a \<Rightarrow> Is4 a | None \<Rightarrow> False) then [AtypIPv4] @ AsSlice dstIP @ put16 dstPort
      else [AtypIPv6] @ AsSlice dstIP @ put16 dstPort)"

text \<open>\<^verbatim>\<open>strconv.ParseUint\<close> in base 10 for 16 bits.\<close>

definition ParseUint16 :: "string \<Rightarrow> nat option" where
  "ParseUint16 s = (if s \<noteq> [] \<and> list_all is_digit s \<and> nat_of_digits s < 65536 then Some (nat_of_digits s) else None)"

definition ParseAddrString :: "string \<Rightarrow> bytes option" where
  "ParseAddrString s =
     (case SplitHostPort s of
        Inl e \<Rightarrow> None
      | Inr (host, port) \<Rightarrow>
          (case ParseUint16 port of
             None \<Rightarrow> None
           | Some dstPort \<Rightarrow>
               (case ParseAddr host of
                  Some ip \<Rightarrow> Some (SerializeAddr [] (Some ip) dstPort)
                | None \<Rightarrow> Some (SerializeAddr host None dstPort))))"

text \<open>A \<^verbatim>\<open>net.Addr\<close>: one with an \<^verbatim>\<open>AddrPort\<close> method, or any other by its text.\<close>

datatype net_addr = WithAddrPort "addr option" nat | OtherAddr string

definition socks_ParseAddr :: "net_addr \<Rightarrow> bytes option" where
  "socks_ParseAddr a =
     (case a of WithAddrPort ip port \<Rightarrow> Some (SerializeAddr [] ip port) | OtherAddr s \<Rightarrow> ParseAddrString s)"

section \<open>Datagrams\<close>

text \<open>The address, the payload and the error, which are returned together.\<close>

definition DecodeUDPPacket :: "bytes \<Rightarrow> bytes option \<times> bytes \<times> string option" where
  "DecodeUDPPacket packet =
     (if length packet < 5 then (None, [], Some ''insufficient length of packet'')
      else if take 2 packet \<noteq> [0x00, 0x00] then (None, [], Some ''reserved fields should be zero'')
      else if packet ! 2 \<noteq> 0x00 then (None, [], Some ''discarding fragmented payload'')
      else
        let a = SplitAddr (drop 3 packet) in
        (a, drop (3 + (case a of None \<Rightarrow> 0 | Some x \<Rightarrow> length x)) packet,
         if a = None then Some ''socks5 UDP addr is nil'' else None))"

definition EncodeUDPPacket :: "bytes option \<Rightarrow> bytes \<Rightarrow> bytes go" where
  "EncodeUDPPacket a payload =
     (case a of None \<Rightarrow> Inl (Error ''address is invalid'') | Some x \<Rightarrow> Inr ([0x00, 0x00, 0x00] @ x @ payload))"

section \<open>The handshake of a client\<close>

text \<open>
  The stream to the server: what will arrive from it, what was written to it, and the error, if any, of
  each write.
\<close>

record socket =
  sk_in :: bytes
  sk_out :: "bytes list"
  sk_fault :: "nat \<Rightarrow> string option"

definition sk_Write :: "bytes \<Rightarrow> (socket, unit) comp" where
  "sk_Write data = (\<lambda>s. case sk_fault s (length (sk_out s)) of
     Some e \<Rightarrow> Some (s, Inl (Error e))
   | None \<Rightarrow> Some (s\<lparr>sk_out := sk_out s @ [data]\<rparr>, Inr ()))"

definition sk_ReadFull :: "nat \<Rightarrow> (socket, bytes) comp" where
  "sk_ReadFull n = (\<lambda>s.
     if n \<le> length (sk_in s) then Some (s\<lparr>sk_in := drop n (sk_in s)\<rparr>, Inr (take n (sk_in s)))
     else Some (s\<lparr>sk_in := []\<rparr>, Inl (Error (if sk_in s = [] then ''EOF'' else ''unexpected EOF''))))"

text \<open>
  \<^verbatim>\<open>ReadAddr\<close> with a buffer of \<open>bufLen\<close> bytes.  The address that it returns beside the error of a read is left out.
\<close>

definition ReadAddr :: "nat \<Rightarrow> (socket, bytes) comp" where
  "ReadAddr bufLen =
     (if bufLen < MaxAddrLen then c_fail ''short buffer''
      else
     c_bind (sk_ReadFull 1) (\<lambda>t.
     if t ! 0 = AtypDomainName then
       c_bind (sk_ReadFull 1) (\<lambda>n.
       c_bind (sk_ReadFull (unat (n ! 0) + 2)) (\<lambda>rest. c_return (t @ n @ rest)))
     else if t ! 0 = AtypIPv4 then c_bind (sk_ReadFull (4 + 2)) (\<lambda>rest. c_return (t @ rest))
     else if t ! 0 = AtypIPv6 then c_bind (sk_ReadFull (16 + 2)) (\<lambda>rest. c_return (t @ rest))
     else c_fail ''invalid address type''))"

record User =
  us_Username :: string
  us_Password :: string

definition authenticate :: "User option \<Rightarrow> (socket, unit) comp" where
  "authenticate user =
     (case user of
        None \<Rightarrow> c_fail ''auth required''
      | Some u \<Rightarrow>
          if us_Username u = [] \<or> us_Password u = [] then c_fail ''auth username/password empty''
          else if MaxAuthLen < length (us_Username u) \<or> MaxAuthLen < length (us_Password u) then
            c_fail ''auth username/password too long''
          else
            c_bind (sk_Write ([0x01, word_of_nat (length (us_Username u))] @ bytes_of_string (us_Username u)
              @ [word_of_nat (length (us_Password u))] @ bytes_of_string (us_Password u))) (\<lambda>_.
            c_bind (sk_ReadFull 2) (\<lambda>b.
            if b ! 1 \<noteq> 0x00 then c_fail ''rejected username/password'' else c_return ())))"

definition ClientHandshake :: "bytes \<Rightarrow> byte \<Rightarrow> User option \<Rightarrow> (socket, bytes) comp" where
  "ClientHandshake a command user =
     (let meth = (if user \<noteq> None then MethodUserPass else MethodNoAuth) in
      c_bind (sk_Write [socksVersion, 0x01, meth]) (\<lambda>_.
      c_bind (sk_ReadFull 2) (\<lambda>b.
      if b ! 0 \<noteq> socksVersion then c_fail ''socks version mismatched''
      else
        c_bind (if b ! 1 = MethodUserPass then authenticate user
                else if b ! 1 \<noteq> MethodNoAuth then c_fail ''unsupported method''
                else c_return ()) (\<lambda>_.
        c_bind (sk_Write ([socksVersion, command, 0x00] @ a)) (\<lambda>_.
        c_bind (sk_ReadFull 3) (\<lambda>r.
        if r ! 1 \<noteq> 0x00 then c_fail (Command_String command @ '': '' @ Reply_String (r ! 1)) else ReadAddr MaxAddrLen))))))"

section \<open>Hosts and ports as text\<close>

lemma string4_chars: "c \<in> set (string4 w) \<Longrightarrow> c = CHR ''.'' \<or> is_digit c"
  using set_join [of "''.''" "map string_of_nat (octets w)"] by (auto simp: string4_def dest!: string_of_nat_digits)

lemma digit_chars [simp]: "\<not> is_digit (CHR '':'')" "\<not> is_digit (CHR ''['')" "\<not> is_digit (CHR '']'')" "\<not> is_digit (CHR ''-'')" "\<not> is_digit (CHR ''+'')"
  by (simp_all add: is_digit_def)

lemma hex_bracket [simp]: "hex_val (CHR ''['') = None" "hex_val (CHR '']'') = None"
  by (simp_all add: hex_val_def is_digit_def)

lemma IP_String_brackets: "addr_zone a = [] \<Longrightarrow> CHR ''['' \<notin> set (IP_String a) \<and> CHR '']'' \<notin> set (IP_String a)"
proof (cases "Unmap a")
  case (IP4 w)
  then show ?thesis by (auto simp: IP_String_def dest!: string4_chars)
next
  case (IP6 w z)
  assume "addr_zone a = []"
  with IP6 have "IP_String a = string6 w" by (cases a) (auto simp: IP_String_def split: if_splits)
  then show ?thesis by (auto dest!: string6_chars)
qed

lemma Itoa_nat: "Itoa (int n) = string_of_nat n"
  by (simp add: Itoa_def)

lemma Itoa_nat_chars: "\<not> is_digit c \<Longrightarrow> c \<notin> set (string_of_nat n)"
  using string_of_nat_digits by blast

lemma SplitHostPort_JoinHostPort:
  assumes "CHR ''['' \<notin> set host" "CHR '']'' \<notin> set host"
    and "CHR ''['' \<notin> set port" "CHR '']'' \<notin> set port" "CHR '':'' \<notin> set port"
  shows "SplitHostPort (JoinHostPort host port) = Inr (host, port)"
proof (cases "CHR '':'' \<in> set host")
  case True
  let ?s = "''['' @ host @ '']:'' @ port"
  have "last_index_byte (CHR '':'') ((CHR ''['' # host @ [CHR '']'']) @ CHR '':'' # port) = Some (length (CHR ''['' # host @ [CHR '']'']))"
    by (rule last_index_byte_append) (rule assms(5))
  then have l: "last_index_byte (CHR '':'') ?s = Some (length host + 2)" by simp
  have "index_byte (CHR '']'') ((CHR ''['' # host) @ CHR '']'' # (CHR '':'' # port)) = Some (length (CHR ''['' # host))"
    by (rule index_byte_append) (use assms in auto)
  then have i: "index_byte (CHR '']'') ?s = Some (length host + 1)" by simp
  have j: "JoinHostPort host port = ?s" using True by (simp add: JoinHostPort_def)
  show ?thesis unfolding SplitHostPort_def j l i
    using assms by (auto simp: Let_def)
next
  case False
  have "last_index_byte (CHR '':'') (host @ CHR '':'' # port) = Some (length host)"
    by (rule last_index_byte_append) (rule assms(5))
  then show ?thesis using assms False
    by (cases host) (auto simp: SplitHostPort_def JoinHostPort_def Let_def)
qed

section \<open>The bytes of an address\<close>

lemma of_bytes_to_bytes:
  assumes "8 * n = LENGTH('a)"
  shows "of_bytes (to_bytes n w) = (w :: 'a :: len word)"
proof (rule bit_word_eqI)
  fix i assume i: "i < LENGTH('a)"
  then have j: "i div 8 < n" using assms by auto
  have "rev (to_bytes n w) ! (i div 8) = ucast (drop_bit (8 * (i div 8)) w)"
    using j by (simp add: rev_nth to_bytes_nth)
  then show "bit (of_bytes (to_bytes n w) :: 'a word) i = bit w i"
    using i assms by (simp add: of_bytes_bit bit_ucast_iff bit_drop_bit_eq)
qed

lemma ip_of_slice [simp]:
  "ip_of_bytes (to_bytes 4 w) = IP4 w" "ip_of_bytes (to_bytes 16 v) = IP6 v []"
  by (simp_all add: ip_of_bytes_def of_bytes_to_bytes)

lemma AsSlice_simps [simp]: "AsSlice (Some (IP4 w)) = to_bytes 4 w" "AsSlice (Some (IP6 v z)) = to_bytes 16 v"
  by (simp_all add: AsSlice_def)

text \<open>
  What a client may name as the target: a domain that fits its length byte, or an address.
\<close>

definition target_ok :: "string \<Rightarrow> addr option \<Rightarrow> bool" where
  "target_ok domain ip \<longleftrightarrow> (if domain \<noteq> [] then length domain \<le> 255 else ip \<noteq> None)"

definition target_host :: "string \<Rightarrow> addr option \<Rightarrow> string" where
  "target_host domain ip = (if domain \<noteq> [] then domain else case ip of Some (IP6 w z) \<Rightarrow> IP_String (IP6 w []) | Some a \<Rightarrow> IP_String a | None \<Rightarrow> [])"

lemma target_cases:
  assumes "target_ok domain ip"
  obtains (Domain) "domain \<noteq> []" "length domain \<le> 255" "target_host domain ip = domain"
      "SerializeAddr domain ip port = [0x03, word_of_nat (length domain)] @ bytes_of_string domain @ put16 port"
    | (V4) w where "target_host domain ip = IP_String (IP4 w)" "SerializeAddr domain ip port = [0x01] @ to_bytes 4 w @ put16 port"
    | (V6) v where "target_host domain ip = IP_String (IP6 v [])" "SerializeAddr domain ip port = [0x04] @ to_bytes 16 v @ put16 port"
proof (cases "domain = []")
  case True
  then obtain a where "ip = Some a" using assms by (auto simp: target_ok_def)
  then show ?thesis using True that(2,3) by (cases a) (simp_all add: target_host_def SerializeAddr_def socks_consts)
next
  case False
  then show ?thesis using assms that(1) by (simp add: target_ok_def target_host_def SerializeAddr_def socks_consts)
qed

lemma length_bytes_of_string [simp]: "length (bytes_of_string s) = length s"
  by (simp add: bytes_of_string_def)

lemma unat_length_byte [simp]: "n \<le> 255 \<Longrightarrow> unat (word_of_nat n :: byte) = n"
  by (simp add: unat_word_of_nat_byte)

lemma SplitAddr_SerializeAddr:
  assumes "target_ok domain ip"
  shows "SplitAddr (SerializeAddr domain ip port @ rest) = Some (SerializeAddr domain ip port)"
  using assms by (cases rule: target_cases [where port = port]) (simp_all add: SplitAddr_def socks_consts)

lemma port_at_put16: "port < 65536 \<Longrightarrow> length xs = i \<Longrightarrow> port_at (xs @ put16 port @ rest) i = port"
  using be16_put16 [of port] by (auto simp: port_at_def nth_append put16_def)

lemma SerializeAddr_port:
  assumes "target_ok domain ip"
  obtains xs where "SerializeAddr domain ip port = xs @ put16 port" "3 \<le> length xs"
  using assms that by (cases rule: target_cases [where port = port]) (auto simp: Suc_le_eq)

lemma ParseIP_IP_String: "addr_zone a = [] \<Longrightarrow> ParseIP (IP_String a) = Some (Unmap a)"
proof -
  assume z: "addr_zone a = []"
  then have "addr_zone (Unmap a) = []" "\<not> Is4In6 (Unmap a)" by (cases a; simp)+
  then show ?thesis by (simp add: ParseIP_def IP_String_def ParseAddr_addr_String)
qed

lemma Addr_UDPAddr_Serialize:
  assumes "addr_zone a = []" "port < 65536"
  shows "Addr_UDPAddr (SerializeAddr [] (Some a) port) = Some (Some a, port)"
  using assms port_at_put16 [of port "1 # to_bytes 4 w" 5 "[]" for w] port_at_put16 [of port "4 # to_bytes 16 w" 17 "[]" for w]
  by (cases a) (auto simp: Addr_UDPAddr_def SerializeAddr_def Addr_Valid_def socks_consts)

text \<open>
  The length of a domain is cut to a byte: one of 256 characters is sent as the empty domain, with its first two characters
  as the port.
\<close>

lemma SerializeAddr_truncates:
  assumes "length domain = 256"
  shows "SplitAddr (SerializeAddr domain ip port) = Some ([0x03, 0x00] @ take 2 (bytes_of_string domain))"
proof -
  have "domain \<noteq> []" "(word_of_nat (length domain) :: byte) = 0" using assms by auto
  moreover have "take (Suc (Suc 0)) (bytes_of_string domain) = take 2 (bytes_of_string domain)" by (simp only: numeral_2_eq_2)
  ultimately show ?thesis using assms by (simp add: SplitAddr_def SerializeAddr_def socks_consts)
qed

lemma DecodeUDPPacket_Serialize:
  assumes "target_ok domain ip"
  shows "DecodeUDPPacket ([0, 0, 0] @ SerializeAddr domain ip port @ data) = (Some (SerializeAddr domain ip port), data, None)"
proof -
  have "2 \<le> length (SerializeAddr domain ip port)" by (rule SerializeAddr_port [OF assms, of port]) simp
  then show ?thesis using SplitAddr_SerializeAddr [OF assms, of port data] by (simp add: DecodeUDPPacket_def Let_def numeral_3_eq_3)
qed

text \<open>Reading an address from a stream and slicing it from a buffer agree.\<close>

lemma ReadAddr_SplitAddr:
  "ReadAddr MaxAddrLen s = Some (s', Inr a) \<longleftrightarrow> SplitAddr (sk_in s) = Some a \<and> s' = s\<lparr>sk_in := drop (length a) (sk_in s)\<rparr>"
proof (cases "sk_in s")
  case Nil
  then show ?thesis by (simp add: ReadAddr_def c_bind_def sk_ReadFull_def SplitAddr_def)
next
  case (Cons t b)
  consider "t = 0x01" | "t = 0x04" | "t = 0x03" | "t \<notin> {0x01, 0x03, 0x04}" by auto
  then show ?thesis
  proof cases
    case 3
    then show ?thesis using Cons by (cases b) (auto simp: ReadAddr_def c_bind_def sk_ReadFull_def SplitAddr_def socks_consts)
  qed (use Cons in \<open>auto simp: ReadAddr_def c_bind_def sk_ReadFull_def SplitAddr_def socks_consts\<close>)
qed

end
