(* ===== verification/Client_Hello.thy ===== *)
theory Client_Hello
  imports Go_Prelude
begin

text \<open>
  The TLS ClientHello parser and the search for the cut position, \<^verbatim>\<open>parseClientHello\<close> and
  \<^verbatim>\<open>findLastDot\<close> of \<^verbatim>\<open>src/internal/utils.go\<close>.

  Offsets are \<^typ>\<open>int\<close>s and every index and slice goes through the bounds checks of the prelude, so
  a panic is a value.  The loop over the extensions terminates because an extension has at
  least four bytes.  The lemmas: no slice is out of range (\<open>parseClientHello_good\<close>, by the
  introduction rules \<open>hello_good_intros\<close>, one per construct of the straight-line code), and the
  parser inverts an encoder of the RFC 8446 format (\<open>parse_encoded_hello\<close>).
\<close>

section \<open>The parser\<close>

text \<open>
  The five results of \<^verbatim>\<open>parseClientHello\<close>; they are returned together on every path, the
  error last.  A nil \<^verbatim>\<open>prtVer\<close> is \<open>None\<close>.
\<close>

record helloInfo =
  prtVer :: "bytes option"
  sniPos :: int
  sniLen :: int
  hasKeyShare :: bool
  hello_err :: "string option"

definition extTypeSNI :: nat where "extTypeSNI = 0x0000"
definition extTypeKeyShare :: nat where "extTypeKeyShare = 0x0033"
definition handshakeTypeClientHello :: byte where "handshakeTypeClientHello = 0x01"

definition hello :: "bytes option \<Rightarrow> int \<Rightarrow> int \<Rightarrow> bool \<Rightarrow> string option \<Rightarrow> helloInfo go" where
  "hello v p l k e = Inr \<lparr> prtVer = v, sniPos = p, sniLen = l, hasKeyShare = k, hello_err = e \<rparr>"

text \<open>\<^verbatim>\<open>binary.BigEndian.Uint16\<close> of a two-byte slice.\<close>

definition uint16_at :: "bytes \<Rightarrow> int \<Rightarrow> int go" where
  "uint16_at data i = go_bind (go_slice data i (i + 2)) (\<lambda>b. Inr (int (be16 (b ! 0) (b ! 1))))"

text \<open>The server-name branch of the loop: the position and length of the name, or an error.\<close>

definition parseSNI :: "bytes \<Rightarrow> int \<Rightarrow> int \<Rightarrow> int \<Rightarrow> (string + int \<times> int) go" where
  "parseSNI data extDataStart extLen extDataEnd =
     (if extLen < 2 then Inr (Inl ''malformed SNI extension (too short for list length)'')
      else go_bind (uint16_at data extDataStart) (\<lambda>listLen.
        if listLen + 2 \<noteq> extLen then Inr (Inl ''SNI list length field mismatch'')
        else let cursor = extDataStart + 2 in
          if cursor + 3 > extDataEnd then Inr (Inl ''SNI entry too short'')
          else go_bind (go_index data cursor) (\<lambda>nameType.
            if nameType \<noteq> 0 then Inr (Inl ''unsupported SNI name type'')
            else go_bind (uint16_at data (cursor + 1)) (\<lambda>nameLen.
              let nameStart = cursor + 3; nameEnd = nameStart + nameLen in
              if nameEnd > extDataEnd then Inr (Inl ''SNI name length exceeds extension'')
              else Inr (Inr (nameStart, nameLen))))))"

lemma go_bind_cong [fundef_cong]:
  "m = m' \<Longrightarrow> (\<And>x. m' = Inr x \<Longrightarrow> f x = g x) \<Longrightarrow> go_bind m f = go_bind m' g"
  by (cases m') auto

lemma uint16_at_nonneg: "uint16_at data i = Inr v \<Longrightarrow> 0 \<le> v"
  by (auto simp: uint16_at_def go_bind_Inr_iff)

text \<open>The loop over the extensions.\<close>

function parseExtensions ::
  "bytes \<Rightarrow> bytes option \<Rightarrow> int \<Rightarrow> int \<Rightarrow> int \<Rightarrow> int \<Rightarrow> bool \<Rightarrow> helloInfo go" where
  "parseExtensions data v extensionsEnd offset pos len ks =
     (if offset + 4 \<le> extensionsEnd then
        go_bind (uint16_at data offset) (\<lambda>extType.
        go_bind (uint16_at data (offset + 2)) (\<lambda>extLen.
          let extDataStart = offset + 4; extDataEnd = extDataStart + extLen in
          if extDataEnd > extensionsEnd then
            hello v pos len False (Some ''extension length exceeds extensions block'')
          else if extType = int extTypeKeyShare \<and> pos \<noteq> -1 then hello v pos len True None
          else
            let ks1 = (ks \<or> extType = int extTypeKeyShare) in
            if pos = -1 \<and> extType = int extTypeSNI then
              go_bind (parseSNI data extDataStart extLen extDataEnd) (\<lambda>r.
                case r of
                  Inl e \<Rightarrow> hello v pos len ks1 (Some e)
                | Inr (p, l) \<Rightarrow>
                    if ks1 then hello v p l ks1 None
                    else parseExtensions data v extensionsEnd extDataEnd p l ks1)
            else parseExtensions data v extensionsEnd extDataEnd pos len ks1))
      else hello v pos len ks None)"
  by pat_completeness auto
termination
  by (relation "measure (\<lambda>(data, v, extensionsEnd, offset, _). nat (extensionsEnd - offset))")
    (auto dest!: uint16_at_nonneg)

declare parseExtensions.simps [simp del]

definition parseClientHello :: "bytes \<Rightarrow> helloInfo go" where
  "parseClientHello data =
     (let n = int (length data) in
      go_bind (uint16_at data 3) (\<lambda>recordLen.
      if n < 5 + recordLen then hello None (-1) 0 False (Some ''record length exceeds data size'')
      else if recordLen < 4 then hello None (-1) 0 False (Some ''handshake message too short'')
      else go_bind (go_index data 5) (\<lambda>t.
      if t \<noteq> handshakeTypeClientHello then
        hello None (-1) 0 False (Some (''not a ClientHello handshake (type='' @ Itoa (uint t) @ '')''))
      else go_bind (go_index data 6) (\<lambda>h0. go_bind (go_index data 7) (\<lambda>h1. go_bind (go_index data 8) (\<lambda>h2.
      let handshakeLen = int (unat h0) * 65536 + int (unat h1) * 256 + int (unat h2) in
      if handshakeLen + 4 > recordLen then
        hello None (-1) 0 False (Some ''handshake length exceeds record length'')
      else if handshakeLen < 35 then
        hello None (-1) 0 False (Some ''ClientHello too short for mandatory fields'')
      else go_bind (go_slice data 9 11) (\<lambda>ver.
      let v = Some ver; offset = 43 in
      if offset \<ge> n then hello v (-1) 0 False (Some ''unexpected end after Random'')
      else go_bind (go_index data offset) (\<lambda>sid.
      let offset = offset + 1; sessionIDLen = int (unat sid) in
      if offset + sessionIDLen > n then hello v (-1) 0 False (Some ''session_id length exceeds data'')
      else let offset = offset + sessionIDLen in
      if offset + 2 > n then hello v (-1) 0 False (Some ''cannot read cipher_suites length'')
      else go_bind (uint16_at data offset) (\<lambda>csLen.
      let offset = offset + 2 in
      if offset + csLen > n then hello v (-1) 0 False (Some ''cipher_suites exceed data'')
      else let offset = offset + csLen in
      if offset \<ge> n then hello v (-1) 0 False (Some ''cannot read compression_methods length'')
      else go_bind (go_index data offset) (\<lambda>cm.
      let offset = offset + 1; compMethodsLen = int (unat cm) in
      if offset + compMethodsLen > n then hello v (-1) 0 False (Some ''compression_methods exceed data'')
      else let offset = offset + compMethodsLen in
      if offset + 2 > n then hello v (-1) 0 False None
      else go_bind (uint16_at data offset) (\<lambda>extTotalLen.
      let offset = offset + 2 in
      if offset + extTotalLen > n then hello v (-1) 0 False (Some ''extensions length exceeds data'')
      else parseExtensions data v (offset + extTotalLen) offset (-1) 0 False)))))))))))"

text \<open>\<^verbatim>\<open>findLastDot\<close>: the loop counts down from the byte after the name to its first byte.\<close>

function findLastDotLoop :: "bytes \<Rightarrow> int \<Rightarrow> int \<Rightarrow> int option go" where
  "findLastDotLoop data i pos =
     (if i \<ge> pos then
        go_bind (go_index data i) (\<lambda>b.
          if b = char_byte (CHR ''.'') then Inr (Some i) else findLastDotLoop data (i - 1) pos)
      else Inr None)"
  by pat_completeness auto
termination
  by (relation "measure (\<lambda>(data, i, pos). nat (i - pos + 1))") auto

declare findLastDotLoop.simps [simp del]

definition findLastDot :: "bytes \<Rightarrow> int \<Rightarrow> int \<Rightarrow> (int \<times> bool) go" where
  "findLastDot data pos len =
     go_bind (findLastDotLoop data (pos + len) pos) (\<lambda>r.
       case r of Some i \<Rightarrow> Inr (i, True) | None \<Rightarrow> Inr (go_div len 2 + pos, False))"

section \<open>Every slice is in bounds\<close>

lemma uint16_at_ok:
  assumes "0 \<le> i" "i + 2 \<le> int (length data)"
  shows "uint16_at data i = Inr (int (be16 (data ! nat i) (data ! Suc (nat i))))"
proof -
  have "nat (i + 2) - nat i = 2" using assms by linarith
  moreover have "2 \<le> length (drop (nat i) data)" using assms by (simp add: nat_le_iff)
  ultimately show ?thesis
    unfolding uint16_at_def using assms by (simp add: go_slice_ok nth_drop)
qed

definition sni_ok :: "int \<Rightarrow> int \<Rightarrow> int \<Rightarrow> int \<Rightarrow> bool" where
  "sni_ok lo hi pos len \<longleftrightarrow> pos = -1 \<and> len = 0 \<or> lo \<le> pos \<and> 0 \<le> len \<and> pos + len \<le> hi"

lemma parseSNI_safe:
  assumes "0 \<le> st" "st + el = en" "en \<le> int (length data)"
  obtains (err) e where "parseSNI data st el en = Inr (Inl e)"
    | (ok) p l where "parseSNI data st el en = Inr (Inr (p, l))" "p = st + 5" "0 \<le> l" "p + l \<le> en"
proof (cases "parseSNI data st el en")
  case (Inl x)
  then show thesis
    using assms by (auto simp: parseSNI_def uint16_at_ok go_index_ok Let_def split: if_splits)
next
  case (Inr r)
  show thesis
  proof (cases r)
    case (Inl e)
    with Inr show thesis by (intro err) simp
  next
    case Inr2: (Inr pl)
    obtain p l where pl: "pl = (p, l)" by (cases pl)
    from Inr Inr2 pl have "parseSNI data st el en = Inr (Inr (p, l))" by simp
    moreover from this have "p = st + 5 \<and> 0 \<le> l \<and> p + l \<le> en"
      using assms by (auto simp: parseSNI_def go_bind_Inr_iff Let_def dest!: uint16_at_nonneg split: if_splits)
    ultimately show thesis by (intro ok) auto
  qed
qed

lemma parseExtensions_safe:
  assumes "0 \<le> off" "en \<le> int (length data)" "lo \<le> off + 9" "sni_ok lo (int (length data)) pos len" "0 \<le> lo"
  shows "\<exists>r. parseExtensions data v en off pos len ks = Inr r \<and> prtVer r = v \<and>
    sni_ok lo (int (length data)) (sniPos r) (sniLen r)"
  using assms
proof (induction data v en off pos len ks rule: parseExtensions.induct)
  case (1 data v en off pos len ks)
  show ?case
  proof (cases "off + 4 \<le> en")
    case False
    then show ?thesis using "1.prems" by (simp add: parseExtensions.simps [of data v en off] hello_def)
  next
    case True
    define ty where "ty = int (be16 (data ! nat off) (data ! Suc (nat off)))"
    define el where "el = int (be16 (data ! nat (off + 2)) (data ! Suc (nat (off + 2))))"
    have u: "uint16_at data off = Inr ty" "uint16_at data (off + 2) = Inr el"
      using True "1.prems" by (auto simp: uint16_at_ok ty_def el_def)
    have el0: "0 \<le> el" by (simp add: el_def)
    let ?en = "off + 4 + el"
    show ?thesis
    proof (cases "?en > en \<or> ty = int extTypeKeyShare \<and> pos \<noteq> -1")
      case T: True
      then show ?thesis using True u "1.prems"
        by (auto simp: parseExtensions.simps [of data v en off] hello_def Let_def)
    next
      case F: False
      show ?thesis
      proof (cases "pos = -1 \<and> ty = int extTypeSNI")
        case sni: False
        have "parseExtensions data v en off pos len ks =
            parseExtensions data v en ?en pos len (ks \<or> ty = int extTypeKeyShare)"
          using True u F sni by (auto simp: parseExtensions.simps [of data v en off] Let_def)
        then show ?thesis
          using "1.IH"(2) [OF True u refl refl _ _ refl sni] F "1.prems" el0 by auto
      next
        case sni: True
        have b: "0 \<le> off + 4" "off + 4 + el = ?en" "?en \<le> int (length data)"
          using "1.prems" F by auto
        have unf: "parseExtensions data v en off pos len ks =
            go_bind (parseSNI data (off + 4) el ?en) (\<lambda>r. case r of
                  Inl e \<Rightarrow> hello v pos len (ks \<or> ty = int extTypeKeyShare) (Some e)
                | Inr (p, l) \<Rightarrow>
                    if ks \<or> ty = int extTypeKeyShare then hello v p l (ks \<or> ty = int extTypeKeyShare) None
                    else parseExtensions data v en ?en p l (ks \<or> ty = int extTypeKeyShare))"
        proof -
          have "(off + 4 \<le> en) = True" "(?en > en) = False" "(ty = int extTypeKeyShare \<and> pos \<noteq> -1) = False"
            "(pos = -1 \<and> ty = int extTypeSNI) = True" using True F sni by auto
          then show ?thesis
            by (simp only: parseExtensions.simps [of data v en off] u go_bind_simps Let_def if_True if_False)
        qed
        show ?thesis
        proof (rule parseSNI_safe [OF b])
          fix e assume "parseSNI data (off + 4) el ?en = Inr (Inl e)"
          then show ?thesis using "1.prems" by (simp add: unf hello_def)
        next
          fix p l assume p: "parseSNI data (off + 4) el ?en = Inr (Inr (p, l))" "p = off + 4 + 5" "0 \<le> l" "p + l \<le> ?en"
          have ok: "sni_ok lo (int (length data)) p l" using p "1.prems" b by (auto simp: sni_ok_def)
          show ?thesis
          proof (cases "ks \<or> ty = int extTypeKeyShare")
            case True
            then show ?thesis using ok p by (simp add: unf hello_def)
          next
            case False
            show ?thesis
              unfolding unf p(1) go_bind_simps using False
                "1.IH"(1) [OF True u refl refl _ _ refl sni p(1) refl refl] F "1.prems" el0 ok by auto
          qed
        qed
      qed
    qed
  qed
qed

text \<open>A result without a panic, with the version present and the name in bounds.\<close>

definition hello_good :: "int \<Rightarrow> helloInfo go \<Rightarrow> bool" where
  "hello_good n r \<longleftrightarrow> (\<exists>h. r = Inr h \<and> (hello_err h = None \<longrightarrow> (\<exists>a b. prtVer h = Some [a, b])) \<and>
     sni_ok 58 n (sniPos h) (sniLen h))"

lemma hello_good_if: "(c \<Longrightarrow> hello_good n a) \<Longrightarrow> (\<not> c \<Longrightarrow> hello_good n b) \<Longrightarrow> hello_good n (if c then a else b)"
  by simp

lemma hello_good_u16:
  "0 \<le> i \<Longrightarrow> i + 2 \<le> int (length data) \<Longrightarrow> (\<And>x. 0 \<le> x \<Longrightarrow> hello_good n (f x)) \<Longrightarrow>
   hello_good n (go_bind (uint16_at data i) f)"
  by (simp add: uint16_at_ok)

lemma hello_good_index:
  "0 \<le> i \<Longrightarrow> i < int (length data) \<Longrightarrow> (\<And>x. hello_good n (f x)) \<Longrightarrow> hello_good n (go_bind (go_index data i) f)"
  by (simp add: go_index_ok)

lemma hello_good_slice:
  "0 \<le> i \<Longrightarrow> i \<le> j \<Longrightarrow> j \<le> int (length data) \<Longrightarrow> (\<And>x. int (length x) = j - i \<Longrightarrow> hello_good n (f x)) \<Longrightarrow>
   hello_good n (go_bind (go_slice data i j) f)"
  by (simp add: go_slice_ok)

lemma hello_good_err: "hello_good n (hello v (-1) 0 k (Some e))"
  by (simp add: hello_good_def hello_def sni_ok_def)

lemma two_bytes: "int (length v) = 11 - 9 \<Longrightarrow> \<exists>a b. v = [a, b]"
  by (cases v; cases "tl v"; cases "tl (tl v)") auto

lemma hello_good_none: "int (length v) = 11 - 9 \<Longrightarrow> hello_good n (hello (Some v) (-1) 0 k None)"
  using two_bytes [of v] by (auto simp: hello_good_def hello_def sni_ok_def)

lemma hello_good_exts:
  assumes "int (length v) = 11 - 9" "49 \<le> off" "off + t \<le> int (length data)"
  shows "hello_good (int (length data)) (parseExtensions data (Some v) (off + t) off (-1) 0 False)"
  using parseExtensions_safe [of off "off + t" data 58 "-1" 0 "Some v" False] two_bytes [OF assms(1)] assms(2,3)
  by (auto simp: hello_good_def sni_ok_def)

lemmas hello_good_intros = hello_good_if hello_good_u16 hello_good_index hello_good_slice hello_good_err
  hello_good_none hello_good_exts

lemma parseClientHello_good:
  "5 \<le> length data \<Longrightarrow> hello_good (int (length data)) (parseClientHello data)"
  unfolding parseClientHello_def Let_def
  by (intro hello_good_intros) (assumption | simp | linarith)+

lemma parseClientHello_short: "length data < 5 \<Longrightarrow> is_panic (parseClientHello data)"
  by (simp add: parseClientHello_def uint16_at_def go_slice_def)

section \<open>Parsing an encoded ClientHello\<close>

text \<open>The wire format of RFC 8446, as the reference the parser is compared with.\<close>

type_synonym extension = "nat \<times> bytes"

record clientHello =
  ch_version :: bytes
  ch_random :: bytes
  ch_session :: bytes
  ch_ciphers :: bytes
  ch_compression :: bytes
  ch_extensions :: "extension list"

definition encode_ext :: "extension \<Rightarrow> bytes" where
  "encode_ext = (\<lambda>(t, d). put16 t @ put16 (length d) @ d)"

definition encode_exts :: "extension list \<Rightarrow> bytes" where
  "encode_exts es = concat (map encode_ext es)"

definition encode_fixed :: "clientHello \<Rightarrow> bytes" where
  "encode_fixed m = ch_version m @ ch_random m @ [word_of_nat (length (ch_session m))] @ ch_session m
     @ put16 (length (ch_ciphers m)) @ ch_ciphers m
     @ [word_of_nat (length (ch_compression m))] @ ch_compression m"

definition encode_body :: "clientHello \<Rightarrow> bytes" where
  "encode_body m = encode_fixed m
     @ put16 (length (encode_exts (ch_extensions m))) @ encode_exts (ch_extensions m)"

definition encode_hello :: "clientHello \<Rightarrow> bytes" where
  "encode_hello m = (let n = length (encode_body m) in
     [0x16, 0x03, 0x01] @ put16 (n + 4)
     @ [0x01, word_of_nat (n div 65536), word_of_nat (n div 256), word_of_nat n] @ encode_body m)"

definition sni_data :: "bytes \<Rightarrow> bytes" where
  "sni_data name = put16 (length name + 3) @ [0] @ put16 (length name) @ name"

definition hello_wf :: "clientHello \<Rightarrow> bool" where
  "hello_wf m \<longleftrightarrow> length (ch_version m) = 2 \<and> length (ch_random m) = 32 \<and> length (ch_session m) < 256
     \<and> length (ch_ciphers m) < 65536 \<and> length (ch_compression m) < 256
     \<and> list_all (\<lambda>(t, d). t < 65536) (ch_extensions m) \<and> length (encode_body m) + 4 < 65536"

lemma uint16_at_put16:
  assumes "off = int (length pfx)" "n < 65536"
  shows "uint16_at (pfx @ put16 n @ r) off = Inr (int n)"
  using be16_put16 [OF assms(2)] by (subst uint16_at_ok) (auto simp: assms(1) nth_append put16_def)

lemma ext_step:
  assumes data: "data = pfx @ encode_ext (t, d) @ rest" and off: "off = int (length pfx)"
    and en: "off + 4 + int (length d) \<le> en" and b: "t < 65536" "length d < 65536"
  shows "parseExtensions data v en off pos len ks =
    (if t = extTypeKeyShare \<and> pos \<noteq> -1 then hello v pos len True None
     else let ks1 = (ks \<or> t = extTypeKeyShare) in
       if pos = -1 \<and> t = extTypeSNI then
         go_bind (parseSNI data (off + 4) (int (length d)) (off + 4 + int (length d))) (\<lambda>r.
           case r of Inl e \<Rightarrow> hello v pos len ks1 (Some e)
           | Inr (p, l) \<Rightarrow> if ks1 then hello v p l ks1 None
                           else parseExtensions data v en (off + 4 + int (length d)) p l ks1)
       else parseExtensions data v en (off + 4 + int (length d)) pos len ks1)"
proof -
  have u: "uint16_at data off = Inr (int t)" "uint16_at data (off + 2) = Inr (int (length d))"
    using uint16_at_put16 [OF off b(1), of "put16 (length d) @ d @ rest"]
      uint16_at_put16 [of "off + 2" "pfx @ put16 t" "length d" "d @ rest"] off b(2)
    by (simp_all add: data encode_ext_def)
  have "(off + 4 \<le> en) = True" "(off + 4 + int (length d) > en) = False" using en by auto
  then show ?thesis
    by (simp only: parseExtensions.simps [of data v en off] u go_bind_simps Let_def if_True if_False of_nat_eq_iff)
qed

abbreviation has_ext :: "nat \<Rightarrow> extension list \<Rightarrow> bool" where
  "has_ext t es \<equiv> t \<in> fst ` set es"

definition exts_wf :: "extension list \<Rightarrow> bool" where
  "exts_wf es \<longleftrightarrow> (\<forall>(t, d) \<in> set es. t < 65536 \<and> length d < 65536)"

lemma exts_wf_simps [simp]:
  "exts_wf []" "exts_wf ((t, d) # es) \<longleftrightarrow> t < 65536 \<and> length d < 65536 \<and> exts_wf es"
  "exts_wf (es @ es') \<longleftrightarrow> exts_wf es \<and> exts_wf es'"
  by (auto simp: exts_wf_def)

lemma encode_exts_simps [simp]:
  "encode_exts [] = []" "encode_exts (e # es) = encode_ext e @ encode_exts es"
  "encode_exts (es @ es') = encode_exts es @ encode_exts es'"
  by (simp_all add: encode_exts_def)

lemma length_encode_ext [simp]: "length (encode_ext (t, d)) = 4 + length d"
  by (simp add: encode_ext_def)

text \<open>Once the name is known, the rest of the block only decides about the key share.\<close>

lemma parse_exts_after:
  assumes "exts_wf es" "data = pfx @ encode_exts es @ rest" "off = int (length pfx)"
    "en = off + int (length (encode_exts es))" "pos \<noteq> -1"
  shows "parseExtensions data v en off pos len False = hello v pos len (has_ext extTypeKeyShare es) None"
  using assms
proof (induction es arbitrary: pfx off)
  case Nil
  then show ?case by (subst parseExtensions.simps) simp
next
  case (Cons e es)
  obtain t d where e: "e = (t, d)" by (cases e)
  have st: "parseExtensions data v en off pos len False = (if t = extTypeKeyShare then hello v pos len True None
      else parseExtensions data v en (off + 4 + int (length d)) pos len False)"
    by (subst ext_step [of data pfx t d "encode_exts es @ rest"]) (use Cons.prems in \<open>auto simp: e Let_def\<close>)
  have "parseExtensions data v en (off + 4 + int (length d)) pos len False = hello v pos len (has_ext extTypeKeyShare es) None"
    by (rule Cons.IH [of "pfx @ encode_ext (t, d)"]) (use Cons.prems in \<open>auto simp: e\<close>)
  then show ?case by (simp add: st e)
qed

lemma parse_exts_before:
  assumes "exts_wf es" "data = pfx @ encode_exts es @ rest" "off = int (length pfx)"
    "off + int (length (encode_exts es)) \<le> en" "\<not> has_ext extTypeSNI es"
  shows "parseExtensions data v en off (-1) 0 ks =
    parseExtensions data v en (off + int (length (encode_exts es))) (-1) 0 (ks \<or> has_ext extTypeKeyShare es)"
  using assms
proof (induction es arbitrary: pfx off ks)
  case (Cons e es)
  obtain t d where e: "e = (t, d)" by (cases e)
  have st: "parseExtensions data v en off (-1) 0 ks =
      parseExtensions data v en (off + 4 + int (length d)) (-1) 0 (ks \<or> t = extTypeKeyShare)"
    by (subst ext_step [of data pfx t d "encode_exts es @ rest"]) (use Cons.prems in \<open>auto simp: e Let_def\<close>)
  have "parseExtensions data v en (off + 4 + int (length d)) (-1) 0 (ks \<or> t = extTypeKeyShare) =
      parseExtensions data v en (off + 4 + int (length d) + int (length (encode_exts es))) (-1) 0
        ((ks \<or> t = extTypeKeyShare) \<or> has_ext extTypeKeyShare es)"
    by (rule Cons.IH [of "pfx @ encode_ext (t, d)"]) (use Cons.prems in \<open>auto simp: e\<close>)
  moreover have "(ks \<or> has_ext extTypeKeyShare (e # es)) = ((ks \<or> t = extTypeKeyShare) \<or> has_ext extTypeKeyShare es)"
    by (auto simp: e)
  moreover have "off + int (length (encode_exts (e # es))) = off + 4 + int (length d) + int (length (encode_exts es))"
    by (simp add: e)
  ultimately show ?case unfolding st by (simp only:)
qed simp

lemma parseSNI_encoded:
  assumes "data = pfx @ sni_data name @ rest" "st = int (length pfx)" "length name + 3 < 65536"
  shows "parseSNI data st (int (length (sni_data name))) (st + int (length (sni_data name))) =
    Inr (Inr (st + 5, int (length name)))"
proof -
  have u1: "uint16_at data st = Inr (int (length name + 3))"
    using uint16_at_put16 [OF assms(2,3), of "[0] @ put16 (length name) @ name @ rest"]
    by (simp add: assms(1) sni_data_def)
  have u2: "uint16_at data (st + 2 + 1) = Inr (int (length name))"
    using uint16_at_put16 [of "st + 3" "pfx @ put16 (length name + 3) @ [0]" "length name" "name @ rest"] assms(2,3)
    by (simp add: assms(1) sni_data_def add.commute)
  have i: "go_index data (st + 2) = Inr 0"
    by (subst go_index_ok) (use assms(2) in \<open>auto simp: assms(1) sni_data_def nth_append put16_def nat_add_distrib\<close>)
  show ?thesis
    unfolding parseSNI_def u1 go_bind_simps Let_def i u2 by (simp add: sni_data_def)
qed


lemma parse_exts_sni:
  assumes "exts_wf pre" "exts_wf post" "length name + 5 < 65536" "\<not> has_ext extTypeSNI pre"
    "data = pfx @ encode_exts (pre @ (extTypeSNI, sni_data name) # post) @ rest" "off = int (length pfx)"
    "en = off + int (length (encode_exts (pre @ (extTypeSNI, sni_data name) # post)))"
  shows "parseExtensions data v en off (-1) 0 False =
    hello v (off + int (length (encode_exts pre)) + 9) (int (length name))
      (has_ext extTypeKeyShare (pre @ post)) None"
proof -
  let ?q = "pfx @ encode_exts pre" and ?o = "off + int (length (encode_exts pre))"
  let ?ks = "has_ext extTypeKeyShare pre" and ?l = "int (length (sni_data name))"
  have l: "?l = int (length name) + 5" by (simp add: sni_data_def)
  have ne: "extTypeSNI \<noteq> extTypeKeyShare" by (simp add: extTypeSNI_def extTypeKeyShare_def)
  have sni: "parseSNI data (?o + 4) ?l (?o + 4 + ?l) = Inr (Inr (?o + 4 + 5, int (length name)))"
    by (rule parseSNI_encoded [of data "?q @ put16 extTypeSNI @ put16 (length (sni_data name))" name "encode_exts post @ rest"])
      (use assms in \<open>auto simp: encode_ext_def\<close>)
  have "parseExtensions data v en off (-1) 0 False = parseExtensions data v en ?o (-1) 0 ?ks"
    by (subst parse_exts_before [of pre data pfx "encode_exts ((extTypeSNI, sni_data name) # post) @ rest"])
      (use assms in auto)
  also have "\<dots> = (if ?ks then hello v (?o + 9) (int (length name)) True None
      else parseExtensions data v en (?o + 4 + ?l) (?o + 9) (int (length name)) False)"
  proof -
    have a: "data = ?q @ encode_ext (extTypeSNI, sni_data name) @ encode_exts post @ rest" "?o = int (length ?q)"
      "?o + 4 + ?l \<le> en" "extTypeSNI < 65536" "length (sni_data name) < 65536"
      using assms l by (auto simp: extTypeSNI_def)
    show ?thesis unfolding ext_step [OF a, of v "-1" 0 ?ks] Let_def sni go_bind_simps using ne by (simp add: add.commute [of 9])
  qed
  also have "parseExtensions data v en (?o + 4 + ?l) (?o + 9) (int (length name)) False =
      hello v (?o + 9) (int (length name)) (has_ext extTypeKeyShare post) None"
    by (rule parse_exts_after [of post data "?q @ encode_ext (extTypeSNI, sni_data name)" rest])
      (use assms in auto)
  finally show ?thesis by (cases ?ks) (simp_all add: image_Un)
qed

lemma go_index_at: "i = int (length pfx) \<Longrightarrow> go_index (pfx @ b # r) i = Inr b"
  by (simp add: go_index_ok)

lemma go_slice_at:
  "i = int (length pfx) \<Longrightarrow> j = i + int (length m) \<Longrightarrow> go_slice (pfx @ m @ r) i j = Inr m"
  by (subst go_slice_ok) (auto simp: nat_add_distrib)

lemma len24:
  assumes "n < 65536"
  shows "int (unat (word_of_nat (n div 65536) :: byte)) * 65536 + int (unat (word_of_nat (n div 256) :: byte)) * 256
    + int (unat (word_of_nat n :: byte)) = int n"
proof -
  have a: "n div 65536 = 0" using assms by simp
  have "n div 256 < 256" using assms by (simp add: div_less_iff_less_mult)
  then have b: "n div 256 mod 256 = n div 256" by simp
  have "n div 65536 mod 256 * 65536 + n div 256 mod 256 * 256 + n mod 256 = n"
    unfolding a b using div_mult_mod_eq [of n 256] by simp
  then have "int (n div 65536 mod 256 * 65536 + n div 256 mod 256 * 256 + n mod 256) = int n" by (rule arg_cong)
  then show ?thesis unfolding unat_word_of_nat_byte of_nat_add of_nat_mult of_nat_numeral .
qed

lemma parse_fixed:
  assumes wf: "hello_wf m"
  defines "off \<equiv> int (9 + length (encode_fixed m) + 2)"
  shows "parseClientHello (encode_hello m) =
    parseExtensions (encode_hello m) (Some (ch_version m))
      (off + int (length (encode_exts (ch_extensions m)))) off (-1) 0 False"
proof -
  let ?n = "length (encode_body m)" and ?d = "encode_hello m" and ?e = "encode_exts (ch_extensions m)"
  let ?p5 = "[0x16, 0x03, 0x01] @ put16 (?n + 4)"
  let ?p9 = "?p5 @ [0x01, word_of_nat (?n div 65536), word_of_nat (?n div 256), word_of_nat ?n]"
  let ?p43 = "?p9 @ ch_version m @ ch_random m"
  let ?s = "int (length (ch_session m))" and ?c = "int (length (ch_ciphers m))" and ?k = "int (length (ch_compression m))"
  let ?sl = "word_of_nat (length (ch_session m)) :: byte" and ?cm = "word_of_nat (length (ch_compression m)) :: byte"
  let ?q1 = "?p43 @ [?sl] @ ch_session m"
  let ?q2 = "?q1 @ put16 (length (ch_ciphers m)) @ ch_ciphers m"
  let ?q3 = "?q2 @ [?cm] @ ch_compression m"
  have lens: "length (ch_version m) = 2" "length (ch_random m) = 32" "length (ch_session m) < 256"
    "length (ch_ciphers m) < 65536" "length (ch_compression m) < 256" "?n + 4 < 65536"
    using wf by (auto simp: hello_wf_def)
  have lf: "length (encode_fixed m) = 38 + length (ch_session m) + length (ch_ciphers m) + length (ch_compression m)"
    by (simp add: encode_fixed_def lens)
  have ln: "int ?n = 40 + ?s + ?c + ?k + int (length ?e)" by (simp add: encode_body_def lf)
  have ld: "int (length ?d) = 9 + int ?n" by (simp add: encode_hello_def Let_def)
  have el: "length ?e < 65536" using ln lens(6) by linarith
  have data: "?d = ?q3 @ put16 (length ?e) @ ?e"
    by (simp add: encode_hello_def encode_body_def encode_fixed_def Let_def)
  have u3: "uint16_at ?d 3 = Inr (int (?n + 4))"
    using uint16_at_put16 [of 3 "[0x16, 0x03, 0x01]" "?n + 4"] lens(6)
    by (simp add: encode_hello_def Let_def)
  have i5: "go_index ?d 5 = Inr 1" "go_index ?d 6 = Inr (word_of_nat (?n div 65536))"
    "go_index ?d 7 = Inr (word_of_nat (?n div 256))" "go_index ?d 8 = Inr (word_of_nat ?n)"
    using go_index_at [of 5 ?p5 1] go_index_at [of 6 "?p5 @ [1]" "word_of_nat (?n div 65536)"]
      go_index_at [of 7 "?p5 @ [1, word_of_nat (?n div 65536)]" "word_of_nat (?n div 256)"]
      go_index_at [of 8 "?p5 @ [1, word_of_nat (?n div 65536), word_of_nat (?n div 256)]" "word_of_nat ?n"]
    by (simp_all add: encode_hello_def Let_def)
  have v9: "go_slice ?d 9 11 = Inr (ch_version m)"
    using go_slice_at [of 9 ?p9 11 "ch_version m"] lens(1) by (simp add: data)
  have i43: "go_index ?d 43 = Inr ?sl"
    using go_index_at [of 43 ?p43 ?sl] lens by (simp add: data)
  let ?o1 = "43 + 1 + ?s" and ?o2 = "43 + 1 + ?s + 2 + ?c"
  let ?o3 = "43 + 1 + ?s + 2 + ?c + 1 + ?k"
  have u44: "uint16_at ?d ?o1 = Inr ?c"
    using uint16_at_put16 [of "44 + ?s" ?q1 "length (ch_ciphers m)"] lens by (simp add: data)
  have i46: "go_index ?d ?o2 = Inr ?cm"
    using go_index_at [of "46 + ?s + ?c" ?q2 ?cm] lens by (simp add: data algebra_simps)
  have u47: "uint16_at ?d ?o3 = Inr (int (length ?e))"
    using uint16_at_put16 [of "47 + ?s + ?c + ?k" ?q3 "length ?e"] lens el by (simp add: data algebra_simps)
  have o: "off = ?o3 + 2" by (simp add: off_def lf)
  have w: "int (unat ?sl) = ?s" "int (unat ?cm) = ?k" using lens by (simp_all add: unat_word_of_nat_byte)
  have c: "(9 + int ?n < 5 + int (?n + 4)) = False" "(int (?n + 4) < 4) = False" "((1 :: byte) \<noteq> 1) = False"
    "(int ?n + 4 > int (?n + 4)) = False" "(int ?n < 35) = False" "(43 \<ge> 9 + int ?n) = False"
    "(?o1 > 9 + int ?n) = False" "(?o1 + 2 > 9 + int ?n) = False" "(?o2 > 9 + int ?n) = False"
    "(?o2 \<ge> 9 + int ?n) = False" "(?o3 > 9 + int ?n) = False" "(?o3 + 2 > 9 + int ?n) = False"
    "(?o3 + 2 + int (length ?e) > 9 + int ?n) = False"
    using ln by auto
  have l24: "?n < 65536" using lens(6) by simp
  show ?thesis
    by (simp only: parseClientHello_def Let_def ld u3 go_bind_simps i5 len24 [OF l24] v9 i43 w
      handshakeTypeClientHello_def c if_False u44 i46 u47 o)
qed

lemma exts_length: "(t, d) \<in> set es \<Longrightarrow> length d \<le> length (encode_exts es)"
  by (induction es) (auto simp: encode_ext_def)

lemma hello_wf_exts: "hello_wf m \<Longrightarrow> exts_wf (ch_extensions m)"
  using exts_length [of _ _ "ch_extensions m"]
  by (fastforce simp: hello_wf_def exts_wf_def list_all_iff encode_body_def)

lemma encode_hello_split:
  "\<exists>pfx. encode_hello m = pfx @ encode_exts (ch_extensions m) \<and> length pfx = 9 + length (encode_fixed m) + 2"
proof -
  let ?n = "length (encode_body m)"
  let ?h = "[0x16, 0x03, 0x01] @ put16 (?n + 4)
    @ [0x01, word_of_nat (?n div 65536), word_of_nat (?n div 256), word_of_nat ?n]"
  have "encode_hello m = (?h @ encode_fixed m @ put16 (length (encode_exts (ch_extensions m)))) @ encode_exts (ch_extensions m)"
    by (simp add: encode_hello_def encode_body_def Let_def)
  then show ?thesis by (intro exI conjI, assumption) simp
qed

text \<open>The search for the last dot.\<close>

lemma findLastDotLoop_spec:
  assumes "0 \<le> pos" "i < int (length data)"
  shows "\<exists>r. findLastDotLoop data i pos = Inr r \<and>
    (case r of
       Some j \<Rightarrow> pos \<le> j \<and> j \<le> i \<and> data ! nat j = char_byte (CHR ''.'')
         \<and> (\<forall>k. j < k \<and> k \<le> i \<longrightarrow> data ! nat k \<noteq> char_byte (CHR ''.''))
     | None \<Rightarrow> \<forall>k. pos \<le> k \<and> k \<le> i \<longrightarrow> data ! nat k \<noteq> char_byte (CHR ''.''))"
  using assms
proof (induction data i pos rule: findLastDotLoop.induct)
  case (1 data i pos)
  show ?case
  proof (cases "pos \<le> i")
    case False
    then show ?thesis by (subst findLastDotLoop.simps) auto
  next
    case True
    have g: "go_index data i = Inr (data ! nat i)" using True "1.prems" by (simp add: go_index_ok)
    show ?thesis
    proof (cases "data ! nat i = char_byte (CHR ''.'')")
      case dot: True
      then show ?thesis using True g by (subst findLastDotLoop.simps) auto
    next
      case dot: False
      obtain r where r: "findLastDotLoop data (i - 1) pos = Inr r"
        and spec: "case r of
            Some j \<Rightarrow> pos \<le> j \<and> j \<le> i - 1 \<and> data ! nat j = char_byte (CHR ''.'')
              \<and> (\<forall>k. j < k \<and> k \<le> i - 1 \<longrightarrow> data ! nat k \<noteq> char_byte (CHR ''.''))
          | None \<Rightarrow> \<forall>k. pos \<le> k \<and> k \<le> i - 1 \<longrightarrow> data ! nat k \<noteq> char_byte (CHR ''.'')"
        using "1.IH" [OF True g dot] "1.prems" by auto
      have e: "findLastDotLoop data i pos = Inr r" using True g dot r by (subst findLastDotLoop.simps) simp
      have last: "k \<le> i - 1 \<or> k = i" if "k \<le> i" for k using that by linarith
      show ?thesis unfolding e using spec dot last by (cases r) auto
    qed
  qed
qed

lemma findLastDot_bounds:
  assumes "0 \<le> pos" "0 \<le> len" "pos + len < int (length data)"
  obtains cut found where "findLastDot data pos len = Inr (cut, found)" "pos \<le> cut" "cut \<le> pos + len"
proof -
  obtain r where r: "findLastDotLoop data (pos + len) pos = Inr r"
    and "case r of Some j \<Rightarrow> pos \<le> j \<and> j \<le> pos + len | None \<Rightarrow> True"
    using findLastDotLoop_spec [OF assms(1,3)] by (fastforce split: option.splits)
  moreover have "go_div len 2 = len div 2" using assms(2) by (simp add: go_div_nonneg)
  moreover have "0 \<le> len div 2" "len div 2 \<le> len" using assms(2) by presburger+
  ultimately show thesis
    using that assms(2) by (cases r) (auto simp: findLastDot_def)
qed

lemma parse_encoded_hello:
  assumes wf: "hello_wf m" and es: "ch_extensions m = pre @ (extTypeSNI, sni_data name) # post"
    and first: "\<not> has_ext extTypeSNI pre"
  shows "\<exists>pos. parseClientHello (encode_hello m) = Inr \<lparr> prtVer = Some (ch_version m), sniPos = pos,
      sniLen = int (length name), hasKeyShare = has_ext extTypeKeyShare (pre @ post), hello_err = None \<rparr> \<and>
    go_slice (encode_hello m) pos (pos + int (length name)) = Inr name \<and>
    pos + int (length name) + int (length (encode_exts post)) = int (length (encode_hello m))"
proof -
  obtain pfx where pfx: "encode_hello m = pfx @ encode_exts (ch_extensions m)"
    "length pfx = 9 + length (encode_fixed m) + 2" using encode_hello_split by blast
  have wfs: "exts_wf pre" "exts_wf post" "length (sni_data name) < 65536"
    using hello_wf_exts [OF wf] by (auto simp: es)
  then have ln: "length name + 5 < 65536" by (simp add: sni_data_def)
  let ?off = "int (length pfx)" and ?pos = "int (length pfx) + int (length (encode_exts pre)) + 9"
  have "parseClientHello (encode_hello m) =
      hello (Some (ch_version m)) ?pos (int (length name)) (has_ext extTypeKeyShare (pre @ post)) None"
    unfolding parse_fixed [OF wf, folded pfx(2)]
    by (rule parse_exts_sni [OF wfs(1,2) ln first, of _ pfx "[]"]) (simp_all add: pfx(1) es)
  moreover have "go_slice (encode_hello m) ?pos (?pos + int (length name)) = Inr name"
    using go_slice_at [of ?pos "pfx @ encode_exts pre @ put16 extTypeSNI @ put16 (length (sni_data name))
      @ put16 (length name + 3) @ [0] @ put16 (length name)" _ name "encode_exts post"]
    by (simp add: pfx(1) es encode_ext_def sni_data_def)
  moreover have "?pos + int (length name) + int (length (encode_exts post)) = int (length (encode_hello m))"
    by (simp add: pfx(1) es encode_ext_def sni_data_def)
  ultimately show ?thesis by (auto simp: hello_def)
qed

section \<open>Properties\<close>

text \<open>A small ClientHello with one server name and a key share.\<close>

definition exampleHello :: clientHello where
  "exampleHello = \<lparr> ch_version = [3, 3], ch_random = replicate 32 7, ch_session = [], ch_ciphers = [19, 1],
     ch_compression = [0], ch_extensions = [(extTypeKeyShare, []), (extTypeSNI, sni_data [97, 46, 98])] \<rparr>"

lemma exampleHello_wf: "hello_wf exampleHello"
  by (simp add: hello_wf_def exampleHello_def encode_body_def encode_fixed_def sni_data_def
      extTypeSNI_def extTypeKeyShare_def encode_ext_def)

lemma encode_hello_length: "5 \<le> length (encode_hello m)"
  by (simp add: encode_hello_def Let_def)

lemma exampleHello_parse:
  "\<exists>pos. parseClientHello (encode_hello exampleHello) = Inr \<lparr> prtVer = Some [3, 3], sniPos = pos,
      sniLen = 3, hasKeyShare = True, hello_err = None \<rparr>"
  using parse_encoded_hello [OF exampleHello_wf, of "[(extTypeKeyShare, [])]" "[97, 46, 98]" "[]"]
  by (auto simp: exampleHello_def extTypeSNI_def extTypeKeyShare_def)

text \<open>
  C8: the parser never indexes out of range on data that has a record header, and it does on
  shorter data.  Without an error it returns the two version bytes, and the server name it
  reports lies inside the data, behind the fixed fields.
\<close>

theorem parseClientHello_safe:
  "if length data < 5 then is_panic (parseClientHello data)
   else \<exists>r. parseClientHello data = Inr r \<and> (hello_err r = None \<longrightarrow> (\<exists>a b. prtVer r = Some [a, b])) \<and>
     (sniPos r = -1 \<and> sniLen r = 0 \<or> 58 \<le> sniPos r \<and> 0 \<le> sniLen r \<and> sniPos r + sniLen r \<le> int (length data))"
  using parseClientHello_good [of data] parseClientHello_short [of data]
  by (auto simp: hello_good_def sni_ok_def)

theorem parseClientHello_safe_witness:
  "\<exists>r. parseClientHello (encode_hello exampleHello) = Inr r \<and> 58 \<le> sniPos r
     \<and> sniPos r + sniLen r \<le> int (length (encode_hello exampleHello))"
proof -
  obtain pos where "parseClientHello (encode_hello exampleHello) = Inr \<lparr> prtVer = Some [3, 3], sniPos = pos,
      sniLen = 3, hasKeyShare = True, hello_err = None \<rparr>" using exampleHello_parse by blast
  then show ?thesis
    using parseClientHello_safe [of "encode_hello exampleHello"] encode_hello_length [of exampleHello] by simp
qed

text \<open>
  C7: on a well-formed ClientHello in the format of RFC 8446 the parser finds the first server
  name, reports exactly its bytes, returns the version, and reports a key share iff the
  message has one.
\<close>

theorem parseClientHello_encoded:
  assumes wf: "hello_wf m" and es: "ch_extensions m = pre @ (extTypeSNI, sni_data name) # post"
    and first: "\<not> has_ext extTypeSNI pre"
  shows "\<exists>pos. parseClientHello (encode_hello m) = Inr \<lparr> prtVer = Some (ch_version m), sniPos = pos,
      sniLen = int (length name), hasKeyShare = has_ext extTypeKeyShare (pre @ post), hello_err = None \<rparr> \<and>
    go_slice (encode_hello m) pos (pos + int (length name)) = Inr name"
  using parse_encoded_hello [OF assms] by blast

theorem parseClientHello_encoded_witness:
  "\<exists>pos. parseClientHello (encode_hello exampleHello) = Inr \<lparr> prtVer = Some [3, 3], sniPos = pos,
      sniLen = 3, hasKeyShare = True, hello_err = None \<rparr> \<and>
    go_slice (encode_hello exampleHello) pos (pos + 3) = Inr [97, 46, 98]"
  using parseClientHello_encoded [OF exampleHello_wf, of "[(extTypeKeyShare, [])]" "[97, 46, 98]" "[]"]
  by (simp add: exampleHello_def extTypeSNI_def extTypeKeyShare_def)

text \<open>
  When the byte behind the name exists, the cut position that \<^verbatim>\<open>findLastDot\<close> returns lies
  between the first byte of the name and the byte behind it; it is the last dot there, if
  there is one.
\<close>

lemma findLastDot_correct:
  assumes "0 \<le> pos" "0 \<le> len" "pos + len < int (length data)"
  shows "\<exists>cut found. findLastDot data pos len = Inr (cut, found) \<and> pos \<le> cut \<and> cut \<le> pos + len \<and>
    (if found then data ! nat cut = char_byte (CHR ''.'')
       \<and> (\<forall>k. cut < k \<and> k \<le> pos + len \<longrightarrow> data ! nat k \<noteq> char_byte (CHR ''.''))
     else cut = pos + len div 2 \<and> (\<forall>k. pos \<le> k \<and> k \<le> pos + len \<longrightarrow> data ! nat k \<noteq> char_byte (CHR ''.'')))"
proof -
  obtain r where r: "findLastDotLoop data (pos + len) pos = Inr r"
    and spec: "case r of
       Some j \<Rightarrow> pos \<le> j \<and> j \<le> pos + len \<and> data ! nat j = char_byte (CHR ''.'')
         \<and> (\<forall>k. j < k \<and> k \<le> pos + len \<longrightarrow> data ! nat k \<noteq> char_byte (CHR ''.''))
     | None \<Rightarrow> \<forall>k. pos \<le> k \<and> k \<le> pos + len \<longrightarrow> data ! nat k \<noteq> char_byte (CHR ''.'')"
    using findLastDotLoop_spec [OF assms(1,3)] by blast
  moreover have "go_div len 2 = len div 2" using assms(2) by (simp add: go_div_nonneg)
  moreover have "0 \<le> len div 2" "len div 2 \<le> len" using assms(2) by presburger+
  ultimately show ?thesis
    using assms(2) by (cases r) (auto simp: findLastDot_def)
qed

text \<open>
  C10: \<^verbatim>\<open>findLastDot\<close> starts one byte behind the name: when the name is the last thing in the data
  the index is out of range.
\<close>

lemma findLastDot_panics_at_end:
  assumes "0 \<le> len" "pos + len \<ge> int (length data)"
  shows "is_panic (findLastDot data pos len)"
  using assms by (simp add: findLastDot_def findLastDotLoop.simps [of data "pos + len"] go_index_def)

end
