(* ===== verification/Go_Conn.thy ===== *)
theory Go_Conn
  imports Go_Prelude
begin

text \<open>
  Connections and the code that writes to them.  A connection keeps the log of what was
  sent and slept on it; \<open>conn_fault n\<close> is the error, if any, with which the \<open>n\<close>-th logged operation
  fails, so every error path of a sender is reached by some fault function.  A computation on a
  connection returns a value, an error or a panic together with the connection.
\<close>

section \<open>The connection monad\<close>

text \<open>
  What is sent: data, data with an urgent byte, a pause, and \<open>Noise ttl fake real pause\<close>, a page that is
  sent with a short hop limit while it holds fake data and whose content is replaced by the real
  data before the system sends it again.
\<close>

datatype send_event = Write bytes | SendOOB bytes byte | Sleep duration | Noise int bytes bytes duration

text \<open>The stages at which \<^verbatim>\<open>sendWithOOB\<close> can fail; a plain write fails with its error.\<close>

datatype fault = RawConn string | RawWrite string | Send string

record conn =
  conn_log :: "send_event list"
  conn_fault :: "nat \<Rightarrow> fault option"

type_synonym 'a io = "conn \<Rightarrow> 'a go \<times> conn"

definition io_return :: "'a \<Rightarrow> 'a io" where
  "io_return x = (\<lambda>c. (Inr x, c))"

definition io_lift :: "'a go \<Rightarrow> 'a io" where
  "io_lift r = (\<lambda>c. (r, c))"

definition io_bind :: "'a io \<Rightarrow> ('a \<Rightarrow> 'b io) \<Rightarrow> 'b io" where
  "io_bind m f = (\<lambda>c. case m c of (Inl e, c') \<Rightarrow> (Inl e, c') | (Inr x, c') \<Rightarrow> f x c')"

abbreviation io_then :: "unit io \<Rightarrow> 'b io \<Rightarrow> 'b io" where
  "io_then m n \<equiv> io_bind m (\<lambda>_. n)"

text \<open>\<^verbatim>\<open>wrap\<close> of utils.go; a panic is not an error value and passes through.\<close>

fun wrap :: "string \<Rightarrow> gerr \<Rightarrow> gerr" where
  "wrap msg (Error e) = Error (msg @ '': '' @ e)"
| "wrap msg (Panic e) = Panic e"

definition io_wrap :: "string \<Rightarrow> 'a io \<Rightarrow> 'a io" where
  "io_wrap msg m = (\<lambda>c. case m c of (Inl e, c') \<Rightarrow> (Inl (wrap msg e), c') | (Inr x, c') \<Rightarrow> (Inr x, c'))"

named_theorems io_simps \<open>execution of computations on a connection\<close>

lemma io_basic [io_simps]:
  "io_return x c = (Inr x, c)"
  "io_lift (Inr x) c = (Inr x, c)"
  "io_lift (Inl e) c = (Inl e, c)"
  "io_bind m f c = (case m c of (Inl e, c') \<Rightarrow> (Inl e, c') | (Inr x, c') \<Rightarrow> f x c')"
  "io_wrap msg m c = (case m c of (Inl e, c') \<Rightarrow> (Inl (wrap msg e), c') | (Inr x, c') \<Rightarrow> (Inr x, c'))"
  by (simp_all add: io_return_def io_lift_def io_bind_def io_wrap_def)

section \<open>Sending\<close>

definition log_event :: "send_event \<Rightarrow> conn \<Rightarrow> conn" where
  "log_event e c = c\<lparr> conn_log := conn_log c @ [e] \<rparr>"

fun fault_text :: "fault \<Rightarrow> string" where
  "fault_text (RawConn e) = e"
| "fault_text (RawWrite e) = e"
| "fault_text (Send e) = e"

definition conn_Write :: "bytes \<Rightarrow> unit io" where
  "conn_Write data = (\<lambda>c. case conn_fault c (length (conn_log c)) of
     Some f \<Rightarrow> (Inl (Error (fault_text f)), c)
   | None \<Rightarrow> (Inr (), log_event (Write data) c))"

definition time_Sleep :: "duration \<Rightarrow> unit io" where
  "time_Sleep d = (\<lambda>c. (Inr (), log_event (Sleep d) c))"

text \<open>
  \<^verbatim>\<open>sendWithOOB\<close> of oob\_unix.go: one \<^verbatim>\<open>send\<close> with \<^verbatim>\<open>MSG_OOB\<close> of the data and the urgent byte; it is
  repeated while it is interrupted, which leaves no trace.
\<close>

definition sendWithOOB :: "bytes \<Rightarrow> byte \<Rightarrow> unit io" where
  "sendWithOOB data oob = (\<lambda>c. case conn_fault c (length (conn_log c)) of
     Some (RawConn e) \<Rightarrow> (Inl (wrap ''get raw conn'' (Error e)), c)
   | Some (RawWrite e) \<Rightarrow> (Inl (wrap ''raw write (send)'' (Error e)), c)
   | Some (Send e) \<Rightarrow> (Inl (wrap ''send (MSG_OOB)'' (Error e)), c)
   | None \<Rightarrow> (Inr (), log_event (SendOOB data oob) c))"

section \<open>What the peer receives\<close>

text \<open>
  The byte stream the peer reads: everything that was sent in order, except the byte the urgent
  pointer marks last; of a page with a short hop limit it reads what is sent again, the real data.  An earlier urgent byte is ordinary data once a later one
  overrides it.
\<close>

fun is_oob :: "send_event \<Rightarrow> bool" where
  "is_oob (SendOOB d b) = True"
| "is_oob _ = False"

fun received :: "send_event list \<Rightarrow> bytes" where
  "received [] = []"
| "received (Write d # es) = d @ received es"
| "received (SendOOB d b # es) = d @ (if list_ex is_oob es then [b] else []) @ received es"
| "received (Sleep t # es) = received es"
| "received (Noise ttl fake real t # es) = real @ received es"

lemma received_append:
  "\<not> list_ex is_oob ys \<Longrightarrow> received (xs @ ys) = received xs @ received ys"
  by (induction xs rule: received.induct) auto

lemma received_no_oob: "\<not> list_ex is_oob xs \<Longrightarrow> received (xs @ ys) = received xs @ received ys"
  by (induction xs rule: received.induct) auto

text \<open>A connection on which nothing fails, and the computations that succeed on it.\<close>

definition healthy :: "conn \<Rightarrow> bool" where
  "healthy c \<longleftrightarrow> (\<forall>n. conn_fault c n = None)"

text \<open>
  \<open>m\<close> either returns \<open>x\<close> and appends the events \<open>es\<close>, or it stops with an error after a prefix of
  them; on a healthy connection it returns.  It does not panic.
\<close>

definition stops :: "'a go \<times> conn \<Rightarrow> conn \<Rightarrow> send_event list \<Rightarrow> bool" where
  "stops r c es \<longleftrightarrow> (\<exists>k e. r = (Inl (Error e), c\<lparr> conn_log := conn_log c @ take k es \<rparr>) \<and> \<not> healthy c)"

definition yields :: "'a io \<Rightarrow> 'a \<Rightarrow> send_event list \<Rightarrow> bool" where
  "yields m x es \<longleftrightarrow> (\<forall>c. m c = (Inr x, c\<lparr> conn_log := conn_log c @ es \<rparr>) \<or> stops (m c) c es)"

abbreviation emits :: "unit io \<Rightarrow> send_event list \<Rightarrow> bool" where
  "emits m es \<equiv> yields m () es"

named_theorems yields_intros \<open>what the senders return and emit\<close>

lemma healthy_log [simp]: "healthy (c\<lparr> conn_log := l \<rparr>) \<longleftrightarrow> healthy c"
  by (simp add: healthy_def)

lemma yieldsI:
  "(\<And>c. m c = (Inr x, c\<lparr> conn_log := conn_log c @ es \<rparr>) \<or> stops (m c) c es) \<Longrightarrow> yields m x es"
  by (simp add: yields_def)

lemma yields_healthy: "yields m x es \<Longrightarrow> healthy c \<Longrightarrow> m c = (Inr x, c\<lparr> conn_log := conn_log c @ es \<rparr>)"
  by (auto simp: yields_def stops_def)

lemma yields_return [yields_intros]: "yields (io_return x) x []"
  by (simp add: yields_def io_simps)

lemma stops_now: "\<not> healthy c \<Longrightarrow> stops (Inl (Error e), c) c es"
  unfolding stops_def by (intro exI [of _ 0] exI [of _ e]) simp

lemma unhealthy: "conn_fault c n = Some f \<Longrightarrow> \<not> healthy c"
  by (auto simp: healthy_def)

lemma yields_Write [yields_intros]: "emits (conn_Write d) [Write d]"
  by (rule yieldsI) (auto simp: conn_Write_def log_event_def split: option.split dest!: unhealthy intro: stops_now)

lemma yields_OOB [yields_intros]: "emits (sendWithOOB d b) [SendOOB d b]"
  by (rule yieldsI)
    (auto simp: sendWithOOB_def log_event_def split: option.split fault.split dest!: unhealthy intro: stops_now)

lemma yields_Sleep [yields_intros]: "emits (time_Sleep t) [Sleep t]"
  by (simp add: yields_def time_Sleep_def log_event_def)

lemma yields_wrap [yields_intros]:
  assumes "yields m x es"
  shows "yields (io_wrap msg m) x es"
proof (rule yieldsI)
  fix c :: conn
  show "io_wrap msg m c = (Inr x, c\<lparr> conn_log := conn_log c @ es \<rparr>) \<or> stops (io_wrap msg m c) c es"
    using assms [unfolded yields_def, rule_format, of c] by (auto simp: io_simps stops_def)
qed

lemma yields_bind [yields_intros]:
  assumes "yields m x es" "yields (f x) y es'"
  shows "yields (io_bind m f) y (es @ es')"
proof (rule yieldsI)
  fix c :: conn
  let ?c = "c\<lparr> conn_log := conn_log c @ es \<rparr>"
  from assms(1) consider "m c = (Inr x, ?c)" | "stops (m c) c es" by (auto simp: yields_def)
  then show "io_bind m f c = (Inr y, c\<lparr> conn_log := conn_log c @ (es @ es') \<rparr>) \<or> stops (io_bind m f c) c (es @ es')"
  proof cases
    case 1
    from assms(2) consider "f x ?c = (Inr y, ?c\<lparr> conn_log := conn_log ?c @ es' \<rparr>)" | "stops (f x ?c) ?c es'"
      unfolding yields_def by blast
    then show ?thesis
    proof cases
      case a: 1
      then show ?thesis using 1 by (simp add: io_simps)
    next
      case b: 2
      then obtain k e where "f x ?c = (Inl (Error e), c\<lparr> conn_log := conn_log c @ es @ take k es' \<rparr>)" "\<not> healthy c"
        by (auto simp: stops_def)
      then have "stops (io_bind m f c) c (es @ es')" unfolding stops_def
        using 1 by (intro exI [of _ "length es + k"] exI [of _ e]) (simp add: io_simps)
      then show ?thesis ..
    qed
  next
    case 2
    then obtain k e where k: "m c = (Inl (Error e), c\<lparr> conn_log := conn_log c @ take k es \<rparr>)" "\<not> healthy c"
      by (auto simp: stops_def)
    have "take (min k (length es)) (es @ es') = take k es" by (simp add: min_def)
    then have "stops (io_bind m f c) c (es @ es')" unfolding stops_def
      using k by (intro exI [of _ "min k (length es)"] exI [of _ e]) (simp add: io_simps)
    then show ?thesis ..
  qed
qed

lemma yields_then [yields_intros]: "emits m es \<Longrightarrow> yields n y es' \<Longrightarrow> yields (io_then m n) y (es @ es')"
  by (rule yields_bind)

lemma yields_lift [yields_intros]: "r = Inr x \<Longrightarrow> yields (io_lift r) x []"
  by (simp add: yields_def io_simps)

lemma yields_lift_bind: "r = Inr x \<Longrightarrow> yields (f x) y es \<Longrightarrow> yields (io_bind (io_lift r) f) y es"
  using yields_bind [OF yields_lift, of r x f y es] by simp

end
