(* ===== verification/Fragment.thy ===== *)
theory Fragment
  imports Client_Hello Go_Conn
begin

text \<open>
  The TLS record fragmenter, \<^verbatim>\<open>src/internal/fragment.go\<close>: \<^verbatim>\<open>sendRecords\<close> cuts a ClientHello at
  the last dot of its server name and sends it as several TLS records, several TCP segments, or
  both, optionally with out-of-band bytes in between.

  \<open>sendRecords\<close> is a computation on a connection; its loops are \<open>sendPackets\<close>, \<open>sendChunks\<close> and
  \<open>sendSegment\<close>.  The slices it takes of \<^verbatim>\<open>clientHello\<close> and \<^verbatim>\<open>merged\<close> are checked against the length:
  the former has no spare capacity, and the latter is longer than the constant bounds for
  every input the callers pass.

  The judgement \<open>delivers m bs u\<close> says which bytes the peer receives from \<open>m\<close>; it has one lemma
  per loop, and the properties compose them.  \<open>deframe\<close> is the peer's record layer.
\<close>

section \<open>Splitting\<close>

definition makeRecord :: "bytes \<Rightarrow> bytes \<Rightarrow> bytes" where
  "makeRecord header payload =
     take 3 header @ replicate (3 - length header) 0 @ put16 (length payload) @ payload"

definition appendPart :: "bytes option \<Rightarrow> bytes \<Rightarrow> bytes list \<Rightarrow> bytes list" where
  "appendPart header part result =
     result @ [case header of Some h \<Rightarrow> makeRecord h part | None \<Rightarrow> part]"

definition splitAndAppend :: "bytes \<Rightarrow> bytes option \<Rightarrow> int \<Rightarrow> bytes list \<Rightarrow> bytes list" where
  "splitAndAppend data header n result =
     (if n \<le> 0 then result
      else if n = 1 \<or> int (length data) < n then appendPart header data result
      else let k = nat n; base = length data div k in
        fold (\<lambda>i res.
          let part = (if i = k - 1 then drop (i * base) data
                      else take ((i + 1) * base - i * base) (drop (i * base) data))
          in appendPart header part res) [0..<k] result)"

section \<open>Sending\<close>

definition sleepIf :: "duration \<Rightarrow> unit io" where
  "sleepIf interval = (if interval > 0 then time_Sleep interval else io_return ())"

text \<open>The loop over the packets when the record is kept whole.\<close>

fun sendPackets :: "bool \<Rightarrow> duration \<Rightarrow> nat \<Rightarrow> bytes list \<Rightarrow> unit io" where
  "sendPackets oob interval i [] = io_return ()"
| "sendPackets oob interval i (packet # packets) =
     io_then
       (if i = 0 \<and> oob then io_wrap ''oob'' (sendWithOOB packet 0)
        else io_wrap (''write packet '' @ Itoa (int i + 1)) (conn_Write packet))
     (io_then (sleepIf interval) (sendPackets oob interval (i + 1) packets))"

text \<open>The loop over the records when each one is sent by itself (\<^verbatim>\<open>segments == -1\<close>).\<close>

fun sendChunks :: "bool \<Rightarrow> bool \<Rightarrow> duration \<Rightarrow> nat \<Rightarrow> bytes list \<Rightarrow> unit io" where
  "sendChunks oob oobex interval i [] = io_return ()"
| "sendChunks oob oobex interval i (chunk # chunks) =
     io_then
       (if i = 0 then
          (if oob then io_then (io_wrap ''oob'' (sendWithOOB chunk 0)) (sleepIf interval)
           else if oobex then
             io_bind (io_lift (go_slice chunk 0 (int (length chunk) - 1))) (\<lambda>front.
             io_bind (io_lift (go_index chunk (int (length chunk) - 1))) (\<lambda>b.
             io_wrap ''oob 1'' (sendWithOOB front b)))
           else io_return ())
        else if i = 1 \<and> oobex then io_wrap ''oob 2'' (sendWithOOB chunk 0)
        else io_then (io_wrap (''write record '' @ Itoa (int i + 1)) (conn_Write chunk)) (sleepIf interval))
     (sendChunks oob oobex interval (i + 1) chunks)"

text \<open>The loop over the segments of the merged records.\<close>

definition sendSegment :: "bytes \<Rightarrow> nat \<Rightarrow> bool \<Rightarrow> duration \<Rightarrow> nat \<Rightarrow> unit io" where
  "sendSegment merged segments oob interval i =
     (let base = length merged div segments; start = i * base;
          end = (if i = segments - 1 then length merged else start + base)
      in io_bind (io_lift (go_slice merged (int start) (int end))) (\<lambda>part.
         io_then
           (if i = 0 \<and> oob then io_wrap ''oob'' (sendWithOOB part 0)
            else io_wrap (''write segment '' @ Itoa (int i + 1)) (conn_Write part))
         (sleepIf interval)))"

fun io_each :: "('a \<Rightarrow> unit io) \<Rightarrow> 'a list \<Rightarrow> unit io" where
  "io_each f [] = io_return ()"
| "io_each f (x # xs) = io_then (f x) (io_each f xs)"

text \<open>The out-of-band prelude of \<^verbatim>\<open>oobex\<close>: bytes 0 to 14 with byte 15 urgent, then bytes 16 to 34.\<close>

definition sendOOBEx :: "bytes \<Rightarrow> duration \<Rightarrow> bytes io" where
  "sendOOBEx data interval =
     io_bind (io_lift (go_slice data 0 15)) (\<lambda>a.
     io_bind (io_lift (go_index data 15)) (\<lambda>b.
     io_then (io_wrap ''oob 1'' (sendWithOOB a b))
     (io_bind (io_lift (go_slice data 16 35)) (\<lambda>d.
     io_then (io_wrap ''oob 2'' (sendWithOOB d 0))
     (io_then (sleepIf interval)
     (io_lift (go_slice data 35 (int (length data)))))))))"

definition go_set :: "'a list \<Rightarrow> int \<Rightarrow> 'a \<Rightarrow> 'a list go" where
  "go_set xs i v = (if 0 \<le> i \<and> i < int (length xs) then Inr (xs[nat i := v])
     else Inl (Panic ''index out of range''))"

text \<open>\<^verbatim>\<open>records == 1\<close>: the record is not split, only its bytes are spread over packets.\<close>

definition sendWhole ::
  "bytes \<Rightarrow> int \<Rightarrow> int \<Rightarrow> int \<Rightarrow> bool \<Rightarrow> bool \<Rightarrow> duration \<Rightarrow> unit io" where
  "sendWhole hello0 offset0 len segments oob oobex interval =
     io_bind (if oobex then sendOOBEx hello0 interval else io_return hello0) (\<lambda>clientHello.
     let offset = (if oobex then offset0 - 35 else offset0) in
     if segments = 1 then io_wrap ''send remaining data'' (conn_Write clientHello)
     else
       let leftSegments = go_div segments 2; rightSegments = segments - leftSegments in
       if segments < 0 then io_lift (Inl (Panic ''makeslice: cap out of range''))
       else
         io_bind (io_lift (findLastDot clientHello offset len)) (\<lambda>(cut, _).
         io_bind (io_lift (go_slice clientHello 0 cut)) (\<lambda>left.
         io_bind (io_lift (go_slice clientHello cut (int (length clientHello)))) (\<lambda>right.
         sendPackets oob interval 0
           (splitAndAppend right None rightSegments (splitAndAppend left None leftSegments []))))))"

definition recordChunks :: "bytes \<Rightarrow> int \<Rightarrow> int \<Rightarrow> int \<Rightarrow> bytes list go" where
  "recordChunks clientHello offset len records =
     (let leftChunks = go_div records 2; rightChunks = records - leftChunks in
      if records < 0 then Inl (Panic ''makeslice: cap out of range'')
      else
        go_bind (findLastDot clientHello offset len) (\<lambda>(cut, _).
        go_bind (go_slice clientHello 0 3) (\<lambda>header.
        go_bind (go_slice clientHello 5 cut) (\<lambda>left.
        go_bind (go_slice clientHello cut (int (length clientHello))) (\<lambda>right.
        Inr (splitAndAppend right (Some header) rightChunks
              (splitAndAppend left (Some header) leftChunks [])))))))"

definition sendRecords ::
  "bytes \<Rightarrow> int \<Rightarrow> int \<Rightarrow> int \<Rightarrow> int \<Rightarrow> bool \<Rightarrow> bool \<Rightarrow> bool \<Rightarrow> duration \<Rightarrow> unit io" where
  "sendRecords hello0 offset len records segments oob oobex modMinorVer interval =
     io_bind (if modMinorVer then io_lift (go_set hello0 2 0x04) else io_return hello0) (\<lambda>clientHello.
     if records = 1 then sendWhole clientHello offset len segments oob oobex interval
     else
       io_bind (io_lift (recordChunks clientHello offset len records)) (\<lambda>chunks.
       if segments = -1 then sendChunks oob oobex interval 0 chunks
       else
         io_bind (if oobex then sendOOBEx (concat chunks) interval else io_return (concat chunks)) (\<lambda>merged.
         if segments = 1 \<or> int (length merged) \<le> segments then conn_Write merged
         else if segments = 0 then io_lift (Inl (Panic ''integer divide by zero''))
         else io_each (sendSegment merged (nat segments) oob interval) [0..<nat segments])))"

section \<open>Splitting keeps the bytes\<close>

lemma concat_slices:
  "m * b \<le> length xs \<Longrightarrow> concat (map (\<lambda>i. take b (drop (i * b) xs)) [0..<m]) = take (m * b) xs"
proof (induction m)
  case (Suc m)
  then have "concat (map (\<lambda>i. take b (drop (i * b) xs)) [0..<m]) = take (m * b) xs" by simp
  moreover have "take (Suc m * b) xs = take (m * b) xs @ take b (drop (m * b) xs)"
    unfolding mult_Suc add.commute [of b] take_add ..
  ultimately show ?case by simp
qed simp

lemma fold_append_parts: "fold (\<lambda>i res. res @ [f i]) is res = res @ map f is"
  by (induction "is" arbitrary: res) auto

abbreviation with_header :: "bytes option \<Rightarrow> bytes \<Rightarrow> bytes" where
  "with_header header p \<equiv> (case header of Some h \<Rightarrow> makeRecord h p | None \<Rightarrow> p)"

lemma splitAndAppend_parts:
  assumes "0 < n"
  obtains ps where "splitAndAppend data header n result = result @ map (with_header header) ps"
    "concat ps = data" "ps \<noteq> []" "length ps \<le> nat n"
proof (cases "n = 1 \<or> int (length data) < n")
  case True
  then have "splitAndAppend data header n result = result @ map (with_header header) [data]"
    using assms by (simp add: splitAndAppend_def appendPart_def)
  then show thesis using assms by (intro that [of "[data]"]) auto
next
  case False
  let ?k = "nat n" and ?base = "length data div nat n"
  let ?part = "\<lambda>i. if i = ?k - 1 then drop (i * ?base) data else take ((i + 1) * ?base - i * ?base) (drop (i * ?base) data)"
  have k: "1 \<le> ?k" "?k = Suc (?k - 1)" using assms by auto
  have "splitAndAppend data header n result = fold (\<lambda>i res. res @ [with_header header (?part i)]) [0..<?k] result"
    using assms False unfolding splitAndAppend_def appendPart_def Let_def by auto
  also have "\<dots> = result @ map (with_header header) (map ?part [0..<?k])"
    by (simp only: fold_append_parts map_map comp_def)
  finally have eq: "splitAndAppend data header n result = result @ map (with_header header) (map ?part [0..<?k])" .
  have le: "(?k - 1) * ?base \<le> length data"
    by (metis div_mult_self_is_m diff_le_self le_trans mult_le_mono1 times_div_less_eq_dividend mult.commute)
  have "concat (map ?part [0..<?k - 1]) = concat (map (\<lambda>i. take ?base (drop (i * ?base) data)) [0..<?k - 1])"
    by (intro arg_cong [of _ _ concat] map_cong refl) simp
  also have "\<dots> = take ((?k - 1) * ?base) data" by (rule concat_slices [OF le])
  finally have "concat (map ?part [0..<?k]) = data"
    by (subst k(2)) (simp del: diff_Suc_eq_diff_pred)
  then show thesis using eq k by (intro that [of "map ?part [0..<?k]"]) auto
qed

lemma splitAndAppend_nonpos: "n \<le> 0 \<Longrightarrow> splitAndAppend data header n result = result"
  by (simp add: splitAndAppend_def)

lemma makeRecord_parts:
  assumes "length h = 3"
  shows "take 3 (makeRecord h p) = h" "drop 5 (makeRecord h p) = p" "length (makeRecord h p) = 5 + length p"
    "length p < 65536 \<Longrightarrow> be16 (makeRecord h p ! 3) (makeRecord h p ! 4) = length p"
  using assms be16_put16 [of "length p"] by (auto simp: makeRecord_def nth_append put16_def)

section \<open>What the senders deliver\<close>

definition quiet :: "send_event list \<Rightarrow> bool" where
  "quiet es \<longleftrightarrow> \<not> list_ex is_oob es"

lemma quiet_simps [simp]:
  "quiet []" "quiet (Write d # es) \<longleftrightarrow> quiet es" "quiet (Sleep t # es) \<longleftrightarrow> quiet es"
  "\<not> quiet (SendOOB d b # es)" "quiet (xs @ ys) \<longleftrightarrow> quiet xs \<and> quiet ys"
  by (auto simp: quiet_def)

lemma received_quiet: "quiet xs \<Longrightarrow> received (xs @ ys) = received xs @ received ys"
  by (simp add: quiet_def received_no_oob)

lemma received_oob: "received (SendOOB d b # es) = d @ (if quiet es then [] else [b]) @ received es"
  by (simp add: quiet_def)

declare received.simps(3) [simp del]

definition sleep_events :: "duration \<Rightarrow> send_event list" where
  "sleep_events t = (if t > 0 then [Sleep t] else [])"

lemma yields_sleepIf: "emits (sleepIf t) (sleep_events t)"
  by (simp add: sleepIf_def sleep_events_def yields_intros)

lemma sleep_events_simps [simp]:
  "quiet (sleep_events t)" "received (sleep_events t @ es) = received es" "received (sleep_events t) = []"
  by (simp_all add: sleep_events_def)

text \<open>\<open>m\<close> delivers the bytes \<open>bs\<close>; unless \<open>oob\<close> holds it sends nothing urgent.\<close>

definition delivers :: "unit io \<Rightarrow> bytes \<Rightarrow> bool \<Rightarrow> bool" where
  "delivers m bs oob \<longleftrightarrow> (\<exists>es. emits m es \<and> received es = bs \<and> (\<not> oob \<longrightarrow> quiet es))"

lemma deliversI: "emits m es \<Longrightarrow> received es = bs \<Longrightarrow> (\<not> oob \<Longrightarrow> quiet es) \<Longrightarrow> delivers m bs oob"
  by (auto simp: delivers_def)

lemma delivers_mono: "delivers m bs False \<Longrightarrow> delivers m bs oob"
  by (auto simp: delivers_def)

lemma delivers_return: "delivers (io_return ()) [] False"
  by (rule deliversI [OF yields_return]) simp_all

lemma delivers_Write: "delivers (conn_Write d) d False"
  by (rule deliversI [OF yields_Write]) simp_all

text \<open>One send with its pause, followed by senders that send nothing urgent.\<close>

lemma delivers_step:
  assumes "delivers n bs False"
  shows "delivers (io_then (if u then io_wrap e1 (sendWithOOB p 0) else io_wrap e2 (conn_Write p))
    (io_then (sleepIf t) n)) (p @ bs) u"
proof -
  from assms obtain es where es: "emits n es" "received es = bs" "quiet es" by (auto simp: delivers_def)
  have "emits (if u then io_wrap e1 (sendWithOOB p 0) else io_wrap e2 (conn_Write p)) [if u then SendOOB p 0 else Write p]"
    by (simp add: yields_intros)
  from yields_bind [OF this yields_bind [OF yields_sleepIf es(1)]] show ?thesis
    by (rule deliversI) (use es in \<open>auto simp: received_oob\<close>)
qed

lemma delivers_sendPackets: "delivers (sendPackets oob t i ps) (concat ps) (i = 0 \<and> oob)"
proof (induction ps arbitrary: i)
  case Nil
  show ?case using delivers_return by (auto intro: delivers_mono)
next
  case (Cons p ps)
  have "delivers (sendPackets oob t (i + 1) ps) (concat ps) False" using Cons.IH [of "i + 1"] by simp
  from delivers_step [OF this, of "i = 0 \<and> oob"] show ?case by simp
qed

lemma delivers_lift: "r = Inr x \<Longrightarrow> delivers (f x) bs oob \<Longrightarrow> delivers (io_bind (io_lift r) f) bs oob"
  unfolding delivers_def using yields_lift_bind by metis

lemma segment_bounds: "i < k \<Longrightarrow> (i + 1) * (n div k) \<le> (n :: nat)"
  by (metis Suc_eq_plus1 Suc_leI le_trans mult_le_mono1 times_div_less_eq_dividend)

lemma io_bind_assoc: "io_bind (io_bind m f) g = io_bind m (\<lambda>x. io_bind (f x) g)"
  by (auto simp: io_bind_def fun_eq_iff split: prod.split sum.split)

lemma delivers_segments:
  "j \<le> k \<Longrightarrow> 0 < k \<Longrightarrow> delivers (io_each (sendSegment m k oob t) [j..<k])
     (if j = k then [] else drop (j * (length m div k)) m) (j = 0 \<and> oob)"
proof (induction "k - j" arbitrary: j)
  case 0
  then show ?case using delivers_return by (auto intro: delivers_mono)
next
  case (Suc d)
  let ?b = "length m div k"
  have j: "j < k" using Suc.hyps(2) by simp
  have IH: "delivers (io_each (sendSegment m k oob t) [Suc j..<k])
      (if Suc j = k then [] else drop (Suc j * ?b) m) False"
    using Suc.hyps(1) [of "Suc j"] Suc.hyps(2) j Suc.prems by simp
  define en where "en = (if j = k - 1 then length m else j * ?b + ?b)"
  have b: "j * ?b + ?b \<le> length m" using segment_bounds [OF j, of "length m"] by (simp add: algebra_simps)
  have sl: "go_slice m (int (j * ?b)) (int en) = Inr (take (en - j * ?b) (drop (j * ?b) m))"
    by (rule go_slice_nat) (use b in \<open>auto simp: en_def\<close>)
  have app: "take (en - j * ?b) (drop (j * ?b) m) @ (if Suc j = k then [] else drop (Suc j * ?b) m) = drop (j * ?b) m"
  proof (cases "Suc j = k")
    case True
    then have "j = k - 1" by simp
    with True show ?thesis by (simp add: en_def)
  next
    case False
    then have "en - j * ?b = ?b" "drop (Suc j * ?b) m = drop ?b (drop (j * ?b) m)" using j by (auto simp: en_def)
    with False show ?thesis by (simp only: append_take_drop_id if_False)
  qed
  have eq: "io_each (sendSegment m k oob t) [j..<k] =
      io_bind (io_lift (go_slice m (int (j * ?b)) (int en))) (\<lambda>part.
        io_then (if j = 0 \<and> oob then io_wrap ''oob'' (sendWithOOB part 0)
            else io_wrap (''write segment '' @ Itoa (int j + 1)) (conn_Write part))
          (io_then (sleepIf t) (io_each (sendSegment m k oob t) [Suc j..<k])))"
    using j by (simp add: upt_conv_Cons sendSegment_def Let_def en_def io_bind_assoc)
  have res: "(if j = k then [] else drop (j * ?b) m) =
      take (en - j * ?b) (drop (j * ?b) m) @ (if Suc j = k then [] else drop (Suc j * ?b) m)"
    using app j by simp
  show ?case unfolding eq res by (rule delivers_lift [OF sl], rule delivers_step [OF IH])
qed

lemma take_35_split:
  assumes "35 \<le> length d"
  shows "take 35 d = take 15 d @ d ! 15 # take 19 (drop 16 d)"
proof -
  have "take 35 d = take (16 + 19) d" by simp
  also have "\<dots> = take 16 d @ take 19 (drop 16 d)" by (simp only: take_add)
  also have "take 16 d = take 15 d @ [d ! 15]" using assms take_Suc_conv_app_nth [of 15 d] by simp
  finally show ?thesis by simp
qed

lemma yields_sendOOBEx:
  assumes "35 \<le> length d"
  shows "yields (sendOOBEx d t) (drop 35 d)
    ([SendOOB (take 15 d) (d ! 15), SendOOB (take 19 (drop 16 d)) 0] @ sleep_events t)"
proof -
  have s: "go_slice d 0 15 = Inr (take 15 d)" "go_index d 15 = Inr (d ! 15)"
    "go_slice d 16 35 = Inr (take 19 (drop 16 d))" "go_slice d 35 (int (length d)) = Inr (drop 35 d)"
    using assms by (simp_all add: go_slice_ok go_index_ok)
  have "yields (sendOOBEx d t) (drop 35 d)
      ([SendOOB (take 15 d) (d ! 15)] @ [SendOOB (take 19 (drop 16 d)) 0] @ sleep_events t @ [])"
    unfolding sendOOBEx_def
    by (rule yields_lift_bind s yields_bind yields_wrap yields_OOB yields_sleepIf yields_lift)+
  then show ?thesis by simp
qed

lemma delivers_OOBEx:
  assumes "35 \<le> length d" "delivers (f (drop 35 d)) bs False"
  shows "delivers (io_bind (sendOOBEx d t) f) (take 35 d @ bs) True"
proof -
  from assms(2) obtain es where es: "emits (f (drop 35 d)) es" "received es = bs" "quiet es" by (auto simp: delivers_def)
  have "emits (io_bind (sendOOBEx d t) f)
      (([SendOOB (take 15 d) (d ! 15), SendOOB (take 19 (drop 16 d)) 0] @ sleep_events t) @ es)"
    by (rule yields_bind [where f = f, OF yields_sendOOBEx [OF assms(1)] es(1)])
  then show ?thesis
    by (rule deliversI) (use es in \<open>auto simp: received_oob take_35_split [OF assms(1)]\<close>)
qed

lemma sendChunks_tail:
  assumes "1 \<le> i" "i = 1 \<longrightarrow> \<not> oobex"
  shows "delivers (sendChunks oob oobex t i cs) (concat cs) False"
  using assms
proof (induction cs arbitrary: i)
  case Nil
  show ?case using delivers_return by simp
next
  case (Cons c cs)
  obtain es where es: "emits (sendChunks oob oobex t (i + 1) cs) es" "received es = concat cs" "quiet es"
    using Cons.IH [of "i + 1"] Cons.prems by (auto simp: delivers_def)
  have eq: "sendChunks oob oobex t i (c # cs) =
      io_then (io_then (io_wrap (''write record '' @ Itoa (int i + 1)) (conn_Write c)) (sleepIf t))
        (sendChunks oob oobex t (i + 1) cs)" using Cons.prems by auto
  have "emits (sendChunks oob oobex t i (c # cs)) (([Write c] @ sleep_events t) @ es)"
    unfolding eq by (intro yields_then yields_wrap yields_Write yields_sleepIf es(1))
  then show ?case by (rule deliversI) (use es in simp_all)
qed

lemma sendChunks_oob:
  assumes "\<not> oobex" "oob"
  shows "delivers (sendChunks oob oobex t 0 cs) (concat cs) True"
proof (cases cs)
  case Nil
  then show ?thesis using delivers_return by (auto intro: delivers_mono)
next
  case (Cons c cs')
  obtain es where es: "emits (sendChunks oob oobex t 1 cs') es" "received es = concat cs'" "quiet es"
    using sendChunks_tail [of 1 oobex oob t cs'] assms by (auto simp: delivers_def)
  have eq: "sendChunks oob oobex t 0 cs =
      io_then (io_then (io_wrap ''oob'' (sendWithOOB c 0)) (sleepIf t)) (sendChunks oob oobex t 1 cs')"
    using assms Cons by simp
  have "emits (sendChunks oob oobex t 0 cs) (([SendOOB c 0] @ sleep_events t) @ es)"
    unfolding eq by (intro yields_then yields_wrap yields_OOB yields_sleepIf es(1))
  then show ?thesis by (rule deliversI) (use es Cons in \<open>simp_all add: received_oob\<close>)
qed

lemma sendChunks_oobex:
  assumes "\<not> oob" "oobex" "c \<noteq> []"
  shows "delivers (sendChunks oob oobex t 0 (c # d # cs)) (c @ d @ concat cs) True"
proof -
  obtain es where es: "emits (sendChunks oob oobex t 2 cs) es" "received es = concat cs" "quiet es"
    using sendChunks_tail [of 2 oobex oob t cs] by (auto simp: delivers_def)
  have s: "go_slice c 0 (int (length c) - 1) = Inr (butlast c)" "go_index c (int (length c) - 1) = Inr (last c)"
    using assms(3) by (auto simp: go_slice_ok go_index_ok butlast_conv_take last_conv_nth nat_diff_distrib')
  have eq1: "sendChunks oob oobex t 1 (d # cs) =
      io_then (io_wrap ''oob 2'' (sendWithOOB d 0)) (sendChunks oob oobex t 2 cs)"
    using assms by (simp add: numeral_2_eq_2)
  have one: "emits (sendChunks oob oobex t 1 (d # cs)) ([SendOOB d 0] @ es)"
    unfolding eq1 by (intro yields_then yields_wrap yields_OOB es(1))
  have zero: "emits (io_bind (io_lift (go_slice c 0 (int (length c) - 1))) (\<lambda>front.
             io_bind (io_lift (go_index c (int (length c) - 1))) (\<lambda>b.
             io_wrap ''oob 1'' (sendWithOOB front b)))) [SendOOB (butlast c) (last c)]"
    by (intro yields_lift_bind [OF s(1)] yields_lift_bind [OF s(2)] yields_wrap yields_OOB)
  have "emits (sendChunks oob oobex t 0 (c # d # cs)) ([SendOOB (butlast c) (last c)] @ [SendOOB d 0] @ es)"
    using yields_bind [OF zero one] assms(1,2) by simp
  then show ?thesis by (rule deliversI) (use es assms(3) in \<open>simp_all add: received_oob\<close>)
qed

text \<open>Without either flag the first record is skipped.\<close>

lemma sendChunks_plain: "delivers (sendChunks False False t 0 (c # cs)) (concat cs) False"
proof -
  obtain es where es: "emits (sendChunks False False t 1 cs) es" "received es = concat cs" "quiet es"
    using sendChunks_tail [of 1 False False t cs] by (auto simp: delivers_def)
  have eq: "sendChunks False False t 0 (c # cs) = io_then (io_return ()) (sendChunks False False t 1 cs)" by simp
  have "emits (sendChunks False False t 0 (c # cs)) ([] @ es)"
    unfolding eq by (intro yields_then yields_return es(1))
  then show ?thesis by (rule deliversI) (use es in simp_all)
qed

text \<open>The packets of an unsplit record.\<close>

lemma delivers_split:
  assumes "0 \<le> pos" "0 \<le> len" "pos + len < int (length d)" "2 \<le> segs"
  shows "delivers
    (io_bind (io_lift (findLastDot d pos len)) (\<lambda>(cut, _).
         io_bind (io_lift (go_slice d 0 cut)) (\<lambda>left.
         io_bind (io_lift (go_slice d cut (int (length d)))) (\<lambda>right.
         sendPackets oob t 0
           (splitAndAppend right None (segs - go_div segs 2) (splitAndAppend left None (go_div segs 2) []))))))
    d oob"
proof -
  obtain cut found where f: "findLastDot d pos len = Inr (cut, found)" "pos \<le> cut" "cut \<le> pos + len"
    using findLastDot_bounds [OF assms(1-3)] by blast
  let ?l = "take (nat cut) d" and ?r = "drop (nat cut) d"
  have s: "go_slice d 0 cut = Inr ?l" "go_slice d cut (int (length d)) = Inr ?r"
    using f assms by (auto simp: go_slice_ok)
  have "go_div segs 2 = segs div 2" using assms(4) by (simp add: go_div_nonneg)
  then have n: "0 < go_div segs 2" "0 < segs - go_div segs 2" using assms(4) by auto
  obtain ps where ps: "splitAndAppend ?l None (go_div segs 2) [] = ps" "concat ps = ?l"
    using splitAndAppend_parts [OF n(1), of ?l None "[]"] by auto
  obtain qs where qs: "splitAndAppend ?r None (segs - go_div segs 2) ps = ps @ qs" "concat qs = ?r"
    using splitAndAppend_parts [OF n(2), of ?r None ps] by auto
  have d: "delivers (sendPackets oob t 0 (ps @ qs)) d oob"
    using delivers_sendPackets [of oob t 0 "ps @ qs"] ps qs by simp
  show ?thesis
    by (rule delivers_lift [OF f(1)], simp only: prod.case, rule delivers_lift [OF s(1)],
        rule delivers_lift [OF s(2)], simp only: ps(1) qs(1) d)
qed

lemma delivers_return_bind: "delivers (f x) bs b \<Longrightarrow> delivers (io_bind (io_return x) f) bs b"
  by (simp add: io_return_def io_bind_def)

lemma delivers_wrap: "delivers m bs b \<Longrightarrow> delivers (io_wrap e m) bs b"
  by (auto simp: delivers_def intro: yields_wrap)

lemma delivers_sendWhole:
  assumes "35 \<le> pos" "0 \<le> len" "pos + len < int (length d)" "1 \<le> segs" "\<not> (oob \<and> oobex)"
  shows "delivers (sendWhole d pos len segs oob oobex t) d (oob \<or> oobex)"
proof -
  let ?rest = "\<lambda>clientHello. let offset = (if oobex then pos - 35 else pos) in
     if segs = 1 then io_wrap ''send remaining data'' (conn_Write clientHello)
     else
       let leftSegments = go_div segs 2; rightSegments = segs - leftSegments in
       if segs < 0 then io_lift (Inl (Panic ''makeslice: cap out of range''))
       else
         io_bind (io_lift (findLastDot clientHello offset len)) (\<lambda>(cut, _).
         io_bind (io_lift (go_slice clientHello 0 cut)) (\<lambda>left.
         io_bind (io_lift (go_slice clientHello cut (int (length clientHello)))) (\<lambda>right.
         sendPackets oob t 0
           (splitAndAppend right None rightSegments (splitAndAppend left None leftSegments [])))))"
  have rest: "delivers (?rest x) x oob"
    if "(if oobex then pos - 35 else pos) + len < int (length x)" for x
    using delivers_split [of "if oobex then pos - 35 else pos" len x segs oob t] that assms
      delivers_mono [OF delivers_wrap [OF delivers_Write]]
    by (auto simp: Let_def)
  show ?thesis
  proof (cases oobex)
    case True
    have l: "35 \<le> length d" using assms(1-3) by linarith
    have r: "delivers (?rest (drop 35 d)) (drop 35 d) False"
      using rest [of "drop 35 d"] assms True l by (auto simp: of_nat_diff)
    have "delivers (io_bind (sendOOBEx d t) ?rest) (take 35 d @ drop 35 d) True"
      by (rule delivers_OOBEx [OF l]) (rule r)
    then show ?thesis using True by (simp add: sendWhole_def)
  next
    case False
    have "delivers (io_bind (io_return d) ?rest) d oob"
      by (rule delivers_return_bind) (use rest [of d] assms False in auto)
    then show ?thesis using False by (simp add: sendWhole_def)
  qed
qed

lemma recordChunks_parts:
  assumes "5 \<le> pos" "0 \<le> len" "pos + len < int (length d)" "2 \<le> records"
  obtains cut ps qs where "recordChunks d pos len records = Inr (map (makeRecord (take 3 d)) (ps @ qs))"
    "int cut \<ge> pos" "int cut \<le> pos + len" "concat ps = drop 5 (take cut d)" "concat qs = drop cut d"
    "ps \<noteq> []" "qs \<noteq> []"
proof -
  obtain cut found where f: "findLastDot d pos len = Inr (cut, found)" "pos \<le> cut" "cut \<le> pos + len"
    using findLastDot_bounds [of pos len d] assms by auto
  let ?l = "drop 5 (take (nat cut) d)" and ?r = "drop (nat cut) d" and ?h = "take 3 d"
  have s: "go_slice d 0 3 = Inr ?h" "go_slice d 5 cut = Inr ?l" "go_slice d cut (int (length d)) = Inr ?r"
    using f assms by (auto simp: go_slice_ok drop_take)
  have "go_div records 2 = records div 2" using assms(4) by (simp add: go_div_nonneg)
  then have n: "0 < go_div records 2" "0 < records - go_div records 2" using assms(4) by auto
  obtain ps where ps: "splitAndAppend ?l (Some ?h) (go_div records 2) [] = map (makeRecord ?h) ps"
      "concat ps = ?l" "ps \<noteq> []"
    using splitAndAppend_parts [OF n(1), of ?l "Some ?h" "[]"] by auto
  obtain qs where qs: "splitAndAppend ?r (Some ?h) (records - go_div records 2) (map (makeRecord ?h) ps) =
      map (makeRecord ?h) ps @ map (makeRecord ?h) qs" "concat qs = ?r" "qs \<noteq> []"
    using splitAndAppend_parts [OF n(2), of ?r "Some ?h" "map (makeRecord ?h) ps"] by auto
  have "recordChunks d pos len records = Inr (map (makeRecord ?h) (ps @ qs))"
    using assms(4) by (simp add: recordChunks_def Let_def f(1) s ps(1) qs(1))
  then show thesis using that [of ps qs "nat cut"] ps qs f assms by auto
qed

lemma delivers_merged:
  assumes "35 \<le> length m" "1 \<le> segs" "\<not> (oob \<and> oobex)"
  shows "delivers
    (io_bind (if oobex then sendOOBEx m t else io_return m) (\<lambda>merged.
         if segs = 1 \<or> int (length merged) \<le> segs then conn_Write merged
         else if segs = 0 then io_lift (Inl (Panic ''integer divide by zero''))
         else io_each (sendSegment merged (nat segs) oob t) [0..<nat segs])) m (oob \<or> oobex)"
proof -
  let ?rest = "\<lambda>merged. if segs = 1 \<or> int (length merged) \<le> segs then conn_Write merged
         else if segs = 0 then io_lift (Inl (Panic ''integer divide by zero''))
         else io_each (sendSegment merged (nat segs) oob t) [0..<nat segs]"
  have rest: "delivers (?rest x) x oob" for x
    using delivers_segments [of 0 "nat segs" x oob t] delivers_mono [OF delivers_Write] assms(2) by auto
  show ?thesis
  proof (cases oobex)
    case True
    have "delivers (io_bind (sendOOBEx m t) ?rest) (take 35 m @ drop 35 m) True"
      by (rule delivers_OOBEx [OF assms(1)]) (use rest [of "drop 35 m"] True assms(3) in simp)
    then show ?thesis using True by simp
  next
    case False
    have "delivers (io_bind (io_return m) ?rest) m oob" by (rule delivers_return_bind, rule rest)
    then show ?thesis using False by simp
  qed
qed

section \<open>Reassembly\<close>

text \<open>The peer's record layer: the payloads of the TLS records in a byte stream.\<close>

function deframe :: "bytes \<Rightarrow> bytes list option" where
  "deframe bs =
     (if bs = [] then Some []
      else if length bs < 5 then None
      else let n = be16 (bs ! 3) (bs ! 4) in
        if length bs < 5 + n then None
        else map_option (Cons (take n (drop 5 bs))) (deframe (drop (5 + n) bs)))"
  by pat_completeness auto
termination
  by (relation "measure length") auto

declare deframe.simps [simp del]

lemma deframe_record:
  assumes "length h = 3" "length p < 65536"
  shows "deframe (makeRecord h p @ bs) = map_option (Cons p) (deframe bs)"
proof -
  note r = makeRecord_parts [OF assms(1), of p]
  have n: "be16 ((makeRecord h p @ bs) ! 3) ((makeRecord h p @ bs) ! 4) = length p"
    using r(4) [OF assms(2)] r(3) by (simp add: nth_append)
  have "take (length p) (drop 5 (makeRecord h p @ bs)) = p" "drop (5 + length p) (makeRecord h p @ bs) = bs"
    using r(2,3) by simp_all
  then show ?thesis
    using r(3) by (subst deframe.simps) (auto simp: n Let_def)
qed

lemma deframe_records:
  "length h = 3 \<Longrightarrow> (\<And>p. p \<in> set ps \<Longrightarrow> length p < 65536) \<Longrightarrow>
   deframe (concat (map (makeRecord h) ps)) = Some ps"
  by (induction ps) (simp_all add: deframe.simps [of "[]"] deframe_record)

lemma concat_part_length: "p \<in> set ps \<Longrightarrow> length p \<le> length (concat ps)"
  by (induction ps) auto

lemma records_length: "length (concat ps) \<le> length (concat (map (makeRecord h) ps))"
  by (induction ps) (simp_all add: makeRecord_def)

definition minorVersion :: "bool \<Rightarrow> bytes \<Rightarrow> bytes" where
  "minorVersion modMinorVer clientHello = (if modMinorVer then clientHello[2 := 0x04] else clientHello)"

lemma minorVersion_length [simp]: "length (minorVersion v d) = length d"
  by (simp add: minorVersion_def)

lemma delivers_minor:
  assumes "3 \<le> length d" "delivers (f (minorVersion v d)) bs b"
  shows "delivers (io_bind (if v then io_lift (go_set d 2 0x04) else io_return d) f) bs b"
proof (cases v)
  case True
  have "go_set d 2 4 = Inr (minorVersion v d)" using assms(1) True by (simp add: go_set_def minorVersion_def)
  from delivers_lift [OF this, of f] assms(2) True show ?thesis by simp
next
  case False
  then show ?thesis using assms(2) delivers_return_bind [of f d] by (simp add: minorVersion_def)
qed

text \<open>The shape every sender's result has.\<close>

lemma delivers_run:
  assumes "delivers m bs b"
  shows "\<exists>es. received es = bs \<and> (m c = (Inr (), c\<lparr> conn_log := conn_log c @ es \<rparr>) \<or> stops (m c) c es)"
  using assms by (auto simp: delivers_def yields_def)

section \<open>Properties\<close>


lemma sendChunks_delivers:
  assumes "oob \<or> oobex" "\<not> (oob \<and> oobex)" "cs = c # d # cs'" "c \<noteq> []"
  shows "delivers (sendChunks oob oobex t 0 cs) (concat cs) (oob \<or> oobex)"
proof (cases oob)
  case True
  then show ?thesis using sendChunks_oob [of oobex oob t cs] assms(2) by (simp del: sendChunks.simps)
next
  case False
  then show ?thesis using sendChunks_oobex [of oob oobex c t d cs'] assms by (simp del: sendChunks.simps)
qed

lemma delivers_sendRecords:
  assumes "58 \<le> pos" "0 \<le> len" "pos + len < int (length d)" "2 \<le> records"
    "1 \<le> segs \<or> segs = -1 \<and> (oob \<or> oobex)" "\<not> (oob \<and> oobex)"
  obtains cut ps qs where
    "delivers (sendRecords d pos len records segs oob oobex v t)
       (concat (map (makeRecord (take 3 (minorVersion v d))) (ps @ qs))) (oob \<or> oobex)"
    "int cut \<ge> pos" "int cut \<le> pos + len" "concat ps = drop 5 (take cut (minorVersion v d))"
    "concat qs = drop cut (minorVersion v d)" "ps \<noteq> []" "qs \<noteq> []"
proof -
  let ?d = "minorVersion v d"
  have pre: "5 \<le> pos" "pos + len < int (length ?d)" using assms(1,3) by simp_all
  obtain cut ps qs where ch: "recordChunks ?d pos len records = Inr (map (makeRecord (take 3 ?d)) (ps @ qs))"
    and cut: "int cut \<ge> pos" "int cut \<le> pos + len" "concat ps = drop 5 (take cut ?d)" "concat qs = drop cut ?d"
    and ne: "ps \<noteq> []" "qs \<noteq> []"
    by (rule recordChunks_parts [OF pre(1) assms(2) pre(2) assms(4)])
  let ?cs = "map (makeRecord (take 3 ?d)) (ps @ qs)"
  have "35 \<le> length (concat ps)" using cut assms by simp
  also have "\<dots> \<le> length (concat ?cs)" using records_length [of ps "take 3 ?d"] by simp
  finally have l: "35 \<le> length (concat ?cs)" .
  have "delivers (if segs = -1 then sendChunks oob oobex t 0 ?cs
       else io_bind (if oobex then sendOOBEx (concat ?cs) t else io_return (concat ?cs)) (\<lambda>merged.
         if segs = 1 \<or> int (length merged) \<le> segs then conn_Write merged
         else if segs = 0 then io_lift (Inl (Panic ''integer divide by zero''))
         else io_each (sendSegment merged (nat segs) oob t) [0..<nat segs])) (concat ?cs) (oob \<or> oobex)"
  proof (cases "segs = -1")
    case True
    obtain p ps' q qs' where pq: "ps = p # ps'" "qs = q # qs'" using ne by (cases ps; cases qs) auto
    obtain c d' cs where cs: "?cs = c # d' # cs" "c \<noteq> []"
      using pq by (cases ps') (auto simp: makeRecord_def put16_def)
    have o: "oob \<or> oobex" using True assms(5) by simp
    show ?thesis unfolding if_P [OF True] by (rule sendChunks_delivers [OF o assms(6) cs])
  next
    case False
    then show ?thesis using delivers_merged [OF l, of segs oob oobex t] assms(5,6) by auto
  qed
  then have "delivers (sendRecords d pos len records segs oob oobex v t) (concat ?cs) (oob \<or> oobex)"
    unfolding sendRecords_def using assms
    by (intro delivers_minor) (auto intro!: delivers_lift [OF ch])
  then show thesis using that cut ne by blast
qed




text \<open>
  C11: with records sent one by one (\<^verbatim>\<open>num_segs\<close> is -1) and neither out-of-band option, the first
  record is never sent: the stream starts with the second one.
\<close>

theorem sendRecords_skips_first:
  assumes "58 \<le> pos" "0 \<le> len" "pos + len < int (length d)" "2 \<le> records" "healthy c"
  shows "\<exists>es first rest. 0 < length first \<and> received es = concat rest \<and>
    recordChunks (minorVersion v d) pos len records = Inr (first # rest) \<and>
    sendRecords d pos len records (-1) False False v t c = (Inr (), c\<lparr> conn_log := conn_log c @ es \<rparr>)"
proof -
  let ?d = "minorVersion v d"
  have pre: "5 \<le> pos" "pos + len < int (length ?d)" using assms(1,3) by simp_all
  obtain cut ps qs where ch: "recordChunks ?d pos len records = Inr (map (makeRecord (take 3 ?d)) (ps @ qs))"
    and ne: "ps \<noteq> []" by (rule recordChunks_parts [OF pre(1) assms(2) pre(2) assms(4)])
  obtain f r where fr: "map (makeRecord (take 3 ?d)) (ps @ qs) = f # r" "0 < length f"
    using ne by (cases ps) (auto simp: makeRecord_def put16_def)
  have "delivers (sendRecords d pos len records (-1) False False v t) (concat r) False"
    unfolding sendRecords_def using assms sendChunks_plain [of t f r]
    by (intro delivers_minor)
      (auto intro!: delivers_lift [OF ch [unfolded fr(1)]] simp del: sendChunks.simps)
  then obtain es where "emits (sendRecords d pos len records (-1) False False v t) es" "received es = concat r"
    by (auto simp: delivers_def)
  with yields_healthy [OF this(1) assms(5)] ch fr show ?thesis by auto
qed

theorem sendRecords_skips_first_witness:
  "\<exists>es first rest. 0 < length first \<and> received es = concat rest \<and>
    recordChunks (replicate 100 46) 58 5 4 = Inr (first # rest) \<and>
    sendRecords (replicate 100 46) 58 5 4 (-1) False False False 0 \<lparr> conn_log = [], conn_fault = \<lambda>_. None \<rparr>
      = (Inr (), \<lparr> conn_log = es, conn_fault = \<lambda>_. None \<rparr>)"
  using sendRecords_skips_first [of 58 5 "replicate 100 46" 4 "\<lparr> conn_log = [], conn_fault = \<lambda>_. None \<rparr>" False 0]
  by (simp add: minorVersion_def healthy_def)

end
