(* ===== verification/Desync.thy ===== *)
theory Desync
  imports Dns_Core Fragment "HOL-Library.Multiset"
begin

text \<open>
  The mode \<^verbatim>\<open>ttl-d\<close>, \<^verbatim>\<open>src/internal/desync.go\<close> and \<^verbatim>\<open>src/internal/desync_linux.go\<close>: the rules for the fake
  TTL, the detection of the distance of a server by a binary search over hop limits, and sending the
  start of a ClientHello with a packet that does not reach the server.

  The dials are a parameter: the outcome of each, by its number and hop limit.  The system calls
  around the fake packet are \<open>noise_sys\<close>, with the error of every stage.  The lemmas show that a printed
  list of rules is read back and applied by the greatest threshold, that the search finds the distance, and
  what the server receives.
\<close>

section \<open>Rules for the fake TTL\<close>

record ttl_rule =
  rule_threshold :: int
  rule_typ :: char
  rule_val :: int

definition rule_int :: "string \<Rightarrow> int" where
  "rule_int ds = foldl (\<lambda>a c. int64 (a * 10 + int (digit_val c))) 0 ds"

function ruleLoop :: "string \<Rightarrow> ttl_rule list \<Rightarrow> ttl_rule list go" where
  "ruleLoop b rules =
     (if b = [] then Inr rules
      else
        let left = takeWhile is_digit b; b1 = dropWhile is_digit b in
        if left = [] then Inl (Error ''invalid rule: missing left number'')
        else case b1 of
          [] \<Rightarrow> Inl (Error ''invalid rule: missing operator'')
        | op # b2 \<Rightarrow>
            if op \<noteq> CHR ''-'' \<and> op \<noteq> CHR ''='' then Inl (Error ''invalid operator'')
            else
              let right = takeWhile is_digit b2; b3 = dropWhile is_digit b2 in
              if right = [] then Inl (Error ''invalid rule: missing right number'')
              else
                ruleLoop (if b3 \<noteq> [] \<and> hd b3 = CHR '';'' then tl b3 else b3)
                  (rules @ [\<lparr>rule_threshold = rule_int left, rule_typ = op, rule_val = rule_int right\<rparr>]))"
  by pat_completeness auto
termination
proof (relation "measure (\<lambda>(b, rules). length b)")
  fix b :: string and rules :: "ttl_rule list" and left b1 op b2 right b3
  assume a: "b \<noteq> []" "b1 = dropWhile is_digit b" "b1 = op # b2" "b3 = dropWhile is_digit b2"
  have "length b3 \<le> length b2" "length (op # b2) \<le> length b"
    using a(2-4) by (metis length_dropWhile_le)+
  moreover have "length (tl b3) \<le> length b3" by simp
  ultimately show "((if b3 \<noteq> [] \<and> hd b3 = CHR '';'' then tl b3 else b3,
      rules @ [\<lparr>rule_threshold = rule_int left, rule_typ = op, rule_val = rule_int right\<rparr>]), b, rules) \<in> measure (\<lambda>(b, rules). length b)"
    by auto
qed simp

declare ruleLoop.simps [simp del]

text \<open>
  \<open>sortSlice\<close> is \<^verbatim>\<open>sort.Slice\<close> by descending threshold, which leaves the order of rules with one threshold
  open.
\<close>

definition parseTTLRules :: "(ttl_rule list \<Rightarrow> ttl_rule list) \<Rightarrow> string \<Rightarrow> ttl_rule list go" where
  "parseTTLRules sortSlice conf =
     (if conf = [] then Inl (Error ''empty config'')
      else go_bind (ruleLoop conf []) (\<lambda>rules. Inr (sortSlice rules)))"

fun calcRules :: "ttl_rule list \<Rightarrow> int \<Rightarrow> int go" where
  "calcRules [] ttl = Inl (Error ''no matching TTL rule'')"
| "calcRules (r # rs) ttl =
     (if rule_threshold r \<le> ttl then
        (if rule_typ r = CHR ''-'' then Inr (int64 (ttl - rule_val r)) else Inr (rule_val r))
      else calcRules rs ttl)"

fun intConfig :: "string \<Rightarrow> int \<Rightarrow> int go" where
  "intConfig [] val = Inr val"
| "intConfig (c # cs) val =
     (if \<not> is_digit c then Inl (Error ''invalid integer config'') else intConfig cs (int64 (val * 10 + int (digit_val c))))"

text \<open>The new value of \<^verbatim>\<open>calcTTL\<close>; a slice of no rules is \<^verbatim>\<open>nil\<close>.\<close>

definition loadTTLRules :: "(ttl_rule list \<Rightarrow> ttl_rule list) \<Rightarrow> string \<Rightarrow> (int \<Rightarrow> int go) go" where
  "loadTTLRules sortSlice conf =
     go_bind (parseTTLRules sortSlice conf) (\<lambda>rules.
       if rules = [] then Inr (\<lambda>_. intConfig conf 0) else Inr (calcRules rules))"

section \<open>Finding the distance of a server\<close>

text \<open>
  The outcome of the \<open>n\<close>-th dial to an address, over IPv6 or not, with a hop limit is a connection, a timeout
  or another error.  The deadline of a dialer with a negative timeout has passed before it dials.
\<close>

datatype dial_outcome = Connected | TimedOut | DialError string

record ttl_env =
  te_dial :: "nat \<Rightarrow> string \<Rightarrow> bool \<Rightarrow> int \<Rightarrow> dial_outcome"
  te_evict :: "string \<Rightarrow> int cache \<Rightarrow> int cache"
  te_ttlCacheTTL :: duration
  te_calcTTL :: "(int \<Rightarrow> int go) option"

record ttl_state =
  ts_ttlCache :: "int cache option"
  ts_dials :: nat

definition ttlDial :: "ttl_env \<Rightarrow> string \<Rightarrow> bool \<Rightarrow> duration \<Rightarrow> int \<Rightarrow> nat \<Rightarrow> dial_outcome" where
  "ttlDial env addr ipv6 dialTimeout mid n = (if dialTimeout < 0 then TimedOut else te_dial env n addr ipv6 mid)"

fun attemptLoop :: "(int \<Rightarrow> nat \<Rightarrow> dial_outcome) \<Rightarrow> int \<Rightarrow> nat \<Rightarrow> ttl_state \<Rightarrow> ttl_state \<times> bool go" where
  "attemptLoop dial mid 0 s = (s, Inr False)"
| "attemptLoop dial mid (Suc n) s =
     (let s1 = s\<lparr>ts_dials := Suc (ts_dials s)\<rparr> in
      case dial mid (ts_dials s) of
        Connected \<Rightarrow> (s1, Inr True)
      | TimedOut \<Rightarrow> attemptLoop dial mid n s1
      | DialError e \<Rightarrow> (s1, Inl (Error (''dial '' @ formatInt mid @ '': '' @ e))))"

text \<open>The hop limits are at most 255, so the sum of two of them does not overflow.\<close>

lemma go_div_mid:
  assumes "low \<le> high"
  shows "low \<le> go_div (low + high) 2" "go_div (low + high) 2 \<le> high"
  using assms by (cases "low + high" "0 :: int" rule: linorder_cases; simp add: go_div_def; presburger)+

function ttlSearch :: "(int \<Rightarrow> nat \<Rightarrow> dial_outcome) \<Rightarrow> int \<Rightarrow> int \<Rightarrow> int \<Rightarrow> int \<Rightarrow> ttl_state \<Rightarrow> ttl_state \<times> int go" where
  "ttlSearch dial attempts low high found s =
     (if low \<le> high then
        let mid = go_div (low + high) 2 in
        case attemptLoop dial mid (nat attempts) s of
          (s1, Inl e) \<Rightarrow> (s1, Inl e)
        | (s1, Inr ok) \<Rightarrow>
            if ok then ttlSearch dial attempts low (mid - 1) mid s1
            else ttlSearch dial attempts (mid + 1) high found s1
      else (s, Inr found))"
  by pat_completeness auto
termination
  by (relation "measure (\<lambda>(dial, attempts, low, high, found, s). nat (high - low + 1))") (auto dest: go_div_mid)

declare ttlSearch.simps [simp del]

definition detectMinimalReachableTTL ::
  "ttl_env \<Rightarrow> instant \<Rightarrow> string \<Rightarrow> bool \<Rightarrow> int \<Rightarrow> int \<Rightarrow> duration \<Rightarrow> ttl_state \<Rightarrow> ttl_state \<times> int go" where
  "detectMinimalReachableTTL env now addr ipv6 maxTTL attempts dialTimeout s =
     (case ttlSearch (ttlDial env addr ipv6 dialTimeout) attempts 1 maxTTL (-1) s of
        (s1, Inl e) \<Rightarrow> (s1, Inl e)
      | (s1, Inr found) \<Rightarrow>
          (if found \<noteq> -1
           then s1\<lparr>ts_ttlCache := map_option (cache_Add (te_evict env) now (te_ttlCacheTTL env) addr found) (ts_ttlCache s1)\<rparr>
           else s1,
           Inr found))"

text \<open>A call that \<^verbatim>\<open>singleflight\<close> shares with another one is the call itself.\<close>

definition getMinimalReachableTTL ::
  "ttl_env \<Rightarrow> instant \<Rightarrow> string \<Rightarrow> bool \<Rightarrow> int \<Rightarrow> int \<Rightarrow> duration \<Rightarrow> ttl_state \<Rightarrow> ttl_state \<times> (int \<times> bool) go" where
  "getMinimalReachableTTL env now addr ipv6 maxTTL attempts dialTimeout s =
     (let (s1, hit) = (case ts_ttlCache s of
            None \<Rightarrow> (s, None)
          | Some c \<Rightarrow> let (c1, r) = cache_Get now addr c in (s\<lparr>ts_ttlCache := Some c1\<rparr>, r))
      in case hit of
           Some ttl \<Rightarrow> (s1, Inr (ttl, True))
         | None \<Rightarrow>
             (case detectMinimalReachableTTL env now addr ipv6 maxTTL attempts dialTimeout s1 of
                (s2, Inl e) \<Rightarrow> (s2, Inl e)
              | (s2, Inr found) \<Rightarrow> (s2, Inr (found, False))))"

definition getFakeTTL :: "ttl_env \<Rightarrow> instant \<Rightarrow> Policy \<Rightarrow> string \<Rightarrow> bool \<Rightarrow> ttl_state \<Rightarrow> ttl_state \<times> int go" where
  "getFakeTTL env now p addr ipv6 s =
     (if p_FakeTTL p = 0 \<or> p_FakeTTL p = -1 then
        case getMinimalReachableTTL env now addr ipv6 (p_MaxTTL p) (p_Attempts p) (p_SingleTimeout p) s of
          (s1, Inl e) \<Rightarrow> (s1, Inl (wrap ''detect minimum reachable TTL'' e))
        | (s1, Inr (ttl, cached)) \<Rightarrow>
            (s1,
             if ttl = -1 then Inl (Error ''reachable TTL not found'')
             else case te_calcTTL env of
               None \<Rightarrow> Inr (ttl - 1)
             | Some calc \<Rightarrow> (case calc ttl of Inl e \<Rightarrow> Inl (wrap ''calculate fake TTL'' e) | Inr x \<Rightarrow> Inr x))
      else (s, Inr (p_FakeTTL p)))"

section \<open>Sending with a fake packet\<close>

definition minInterval :: duration where "minInterval = 100 * 1000000"

text \<open>
  The system calls around the fake packet: the default hop limit of the socket, and the error, if any, with which
  each stage fails.
\<close>

record noise_sys =
  ns_defaultTTL :: "int go"
  ns_fault :: "string \<Rightarrow> string option"

definition sys_stage :: "noise_sys \<Rightarrow> string \<Rightarrow> unit io" where
  "sys_stage sys stage =
     io_lift (case ns_fault sys stage of None \<Rightarrow> Inr () | Some e \<Rightarrow> Inl (Error (stage @ '': '' @ e)))"

definition io_event :: "send_event \<Rightarrow> unit io" where
  "io_event e = (\<lambda>c. (Inr (), log_event e c))"

text \<open>
  The page is spliced by another goroutine while this one sleeps; a mapping of no bytes is refused.  The page is
  on its way when the default hop limit is restored, so an error there comes after the event.
\<close>

definition sendWithNoise :: "noise_sys \<Rightarrow> bytes \<Rightarrow> bytes \<Rightarrow> int \<Rightarrow> duration \<Rightarrow> unit io" where
  "sendWithNoise sys fakeData realData fakeTTL fakeSleep =
     io_then (sys_stage sys ''create pipe'')
     (io_then (if fakeData = [] then io_lift (Inl (Error ''mmap: invalid argument'')) else sys_stage sys ''mmap'')
     (io_then (sys_stage sys ''set fake TTL'')
     (io_then (sys_stage sys ''vmsplice'')
     (let page = take (length fakeData) (realData @ drop (length realData) fakeData) in
      io_then (io_event (if ns_fault sys ''raw write (splice)'' = None \<and> ns_fault sys ''splice'' = None
                         then Noise fakeTTL fakeData page fakeSleep else Sleep fakeSleep))
      (io_then (sys_stage sys ''set default TTL'')
      (io_then (sys_stage sys ''raw write (splice)'')
      (sys_stage sys ''splice'')))))))"

definition desyncSend :: "noise_sys \<Rightarrow> bytes \<Rightarrow> int \<Rightarrow> int \<Rightarrow> int \<Rightarrow> duration \<Rightarrow> unit io" where
  "desyncSend sys firstPacket pos len fakeTTL fakeSleep0 =
     io_then (sys_stage sys ''get raw conn'')
     (io_then (sys_stage sys ''raw control'')
     (io_bind (io_wrap ''get default TTL'' (io_lift (ns_defaultTTL sys))) (\<lambda>defaultTTL.
      let fakeSleep = max fakeSleep0 minInterval in
      io_bind (io_lift (findLastDot firstPacket pos len)) (\<lambda>(cut, found).
      io_bind (io_lift (go_slice firstPacket 0 cut)) (\<lambda>realData.
      io_bind (if found
               then io_bind (io_lift (go_slice firstPacket 0 pos)) (\<lambda>pre.
                 io_return (take (nat cut) (pre @ replicate (nat cut - length pre) 0)))
               else io_return realData) (\<lambda>fakeData.
      io_then (io_wrap ''send data with noise'' (sendWithNoise sys fakeData realData fakeTTL fakeSleep))
      (io_bind (io_lift (go_slice firstPacket cut (int (length firstPacket)))) (\<lambda>rest.
       io_wrap ''send remaining data'' (conn_Write rest)))))))))"

section \<open>The rules apply by the greatest threshold\<close>

text \<open>A list of rules as the configuration writes it.\<close>

definition render_rule :: "nat \<times> char \<times> nat \<Rightarrow> string" where
  "render_rule = (\<lambda>(a, op, b). string_of_nat a @ [op] @ string_of_nat b)"

definition render_rules :: "(nat \<times> char \<times> nat) list \<Rightarrow> string" where
  "render_rules rs = join '';'' (map render_rule rs)"

definition rule_of :: "nat \<times> char \<times> nat \<Rightarrow> ttl_rule" where
  "rule_of = (\<lambda>(a, op, b). \<lparr>rule_threshold = int a, rule_typ = op, rule_val = int b\<rparr>)"

lemma rule_int_digits:
  assumes "list_all is_digit ds" "nat_of_digits ds < 2 ^ 63"
  shows "rule_int ds = int (nat_of_digits ds)"
proof -
  have "foldl (\<lambda>a c. int64 (a * 10 + int (digit_val c))) (int v) ds = int (foldl (\<lambda>a c. a * 10 + digit_val c) v ds)"
    if "foldl (\<lambda>a c. a * 10 + digit_val c) v ds < 2 ^ 63" for v
    using that
  proof (induction ds arbitrary: v)
    case (Cons c ds)
    have "v * 10 + digit_val c < 2 ^ 63"
      using Cons.prems foldl_digits_ge [of "v * 10 + digit_val c" ds] by simp
    then have "int64 (int v * 10 + int (digit_val c)) = int (v * 10 + digit_val c)"
      by (subst int64_id) auto
    then show ?case using Cons by (simp del: of_nat_add of_nat_mult)
  qed simp
  from this [of 0] assms(2) show ?thesis by (simp add: rule_int_def nat_of_digits_def)
qed

lemma digit_prefix:
  assumes "list_all is_digit ds" "r = [] \<or> \<not> is_digit (hd r)"
  shows "takeWhile is_digit (ds @ r) = ds" "dropWhile is_digit (ds @ r) = r"
  using assms by (cases r; auto simp: list_all_iff takeWhile_append dropWhile_append takeWhile_eq_all_conv)+

lemma ruleLoop_rule:
  assumes "op \<in> {CHR ''-'', CHR ''=''}" "a < 2 ^ 63" "b < 2 ^ 63" "rest = [] \<or> hd rest = CHR '';''"
  shows "ruleLoop (render_rule (a, op, b) @ rest) acc = ruleLoop (drop 1 rest) (acc @ [rule_of (a, op, b)])"
proof -
  have d: "list_all is_digit (string_of_nat n)" for n by (simp add: list_all_iff string_of_nat_digits)
  have op: "\<not> is_digit op" using assms(1) by (auto simp: is_digit_def)
  have "rest = [] \<or> \<not> is_digit (hd rest)" using assms(4) by (auto simp: is_digit_def)
  note p = digit_prefix [OF d [of a], of "op # string_of_nat b @ rest"] digit_prefix [OF d [of b] this]
  have "ruleLoop (render_rule (a, op, b) @ rest) acc =
      ruleLoop (if rest \<noteq> [] \<and> hd rest = CHR '';'' then tl rest else rest) (acc @ [rule_of (a, op, b)])"
    using assms(1-3) op p by (subst ruleLoop.simps) (auto simp: render_rule_def rule_of_def rule_int_digits [OF d] Let_def)
  then show ?thesis using assms(4) by (auto simp: drop_Suc)
qed

definition rule_wf :: "nat \<times> char \<times> nat \<Rightarrow> bool" where
  "rule_wf = (\<lambda>(a, op, b). a < 2 ^ 63 \<and> op \<in> {CHR ''-'', CHR ''=''} \<and> b < 2 ^ 63)"

lemma ruleLoop_render:
  "list_all rule_wf rs \<Longrightarrow> ruleLoop (render_rules rs) acc = Inr (acc @ map rule_of rs)"
proof (induction rs arbitrary: acc)
  case Nil
  then show ?case by (simp add: render_rules_def ruleLoop.simps)
next
  case (Cons r rs)
  obtain a op b where r: "r = (a, op, b)" by (cases r)
  have wf: "op \<in> {CHR ''-'', CHR ''=''}" "a < 2 ^ 63" "b < 2 ^ 63" using Cons.prems by (auto simp: r rule_wf_def)
  show ?case
  proof (cases rs)
    case Nil
    then show ?thesis using ruleLoop_rule [OF wf, of "[]" acc] by (simp add: render_rules_def r ruleLoop.simps)
  next
    case (Cons r' rs')
    then have "render_rules (r # rs) = render_rule (a, op, b) @ '';'' @ render_rules rs" by (simp add: render_rules_def r)
    then show ?thesis
      using ruleLoop_rule [OF wf, of "'';'' @ render_rules rs" acc] Cons.IH [of "acc @ [rule_of (a, op, b)]"] Cons.prems by (simp add: r)
  qed
qed

definition applied :: "ttl_rule \<Rightarrow> int \<Rightarrow> int" where
  "applied r ttl = (if rule_typ r = CHR ''-'' then int64 (ttl - rule_val r) else rule_val r)"

text \<open>What \<^verbatim>\<open>sort.Slice\<close> promises.\<close>

definition sorts :: "(ttl_rule list \<Rightarrow> ttl_rule list) \<Rightarrow> bool" where
  "sorts f \<longleftrightarrow> (\<forall>rs. mset (f rs) = mset rs \<and> sorted_wrt (\<lambda>r r'. rule_threshold r \<ge> rule_threshold r') (f rs))"

lemma calcRules_sorted:
  assumes "sorted_wrt (\<lambda>r r'. rule_threshold r \<ge> rule_threshold r') rs"
  shows "case calcRules rs ttl of
      Inl e \<Rightarrow> e = Error ''no matching TTL rule'' \<and> (\<forall>r \<in> set rs. ttl < rule_threshold r)
    | Inr x \<Rightarrow> \<exists>r \<in> set rs. rule_threshold r \<le> ttl \<and> x = applied r ttl
        \<and> (\<forall>r' \<in> set rs. rule_threshold r' \<le> ttl \<longrightarrow> rule_threshold r' \<le> rule_threshold r)"
  using assms
proof (induction rs)
  case (Cons r rs)
  show ?case
  proof (cases "rule_threshold r \<le> ttl")
    case True
    then have "calcRules (r # rs) ttl = Inr (applied r ttl)" by (simp add: applied_def)
    then show ?thesis using True Cons.prems by auto
  next
    case False
    then show ?thesis using Cons by (auto split: sum.splits)
  qed
qed simp

text \<open>
  Reading the rules back: the TTL for a distance is that of a rule with the greatest threshold that does not exceed
  it, and there is none exactly if every threshold does.
\<close>

lemma loadTTLRules_correct:
  assumes "sorts sorter" "list_all rule_wf rs" "rs \<noteq> []"
  shows "\<exists>calc. loadTTLRules sorter (render_rules rs) = Inr calc \<and>
    (\<forall>ttl. case calc ttl of
      Inl e \<Rightarrow> e = Error ''no matching TTL rule'' \<and> (\<forall>r \<in> set rs. ttl < rule_threshold (rule_of r))
    | Inr x \<Rightarrow> \<exists>r \<in> set rs. rule_threshold (rule_of r) \<le> ttl \<and> x = applied (rule_of r) ttl
        \<and> (\<forall>r' \<in> set rs. rule_threshold (rule_of r') \<le> ttl \<longrightarrow> rule_threshold (rule_of r') \<le> rule_threshold (rule_of r)))"
proof -
  let ?rs = "sorter (map rule_of rs)"
  have m: "mset ?rs = mset (map rule_of rs)" and s: "sorted_wrt (\<lambda>r r'. rule_threshold r \<ge> rule_threshold r') ?rs"
    using assms(1) by (auto simp: sorts_def)
  have set: "set ?rs = rule_of ` set rs" using m by (metis set_map set_mset_mset)
  have "?rs \<noteq> []" using m assms(3) by auto
  moreover have "render_rules rs \<noteq> []"
    using assms(3) by (cases rs; cases "tl rs") (auto simp: render_rules_def render_rule_def split: prod.splits)
  ultimately have "loadTTLRules sorter (render_rules rs) = Inr (calcRules ?rs)"
    using ruleLoop_render [OF assms(2), of "[]"] by (simp add: loadTTLRules_def parseTTLRules_def)
  moreover have "case calcRules ?rs ttl of
      Inl e \<Rightarrow> e = Error ''no matching TTL rule'' \<and> (\<forall>r \<in> set rs. ttl < rule_threshold (rule_of r))
    | Inr x \<Rightarrow> \<exists>r \<in> set rs. rule_threshold (rule_of r) \<le> ttl \<and> x = applied (rule_of r) ttl
        \<and> (\<forall>r' \<in> set rs. rule_threshold (rule_of r') \<le> ttl \<longrightarrow> rule_threshold (rule_of r') \<le> rule_threshold (rule_of r))" for ttl
    using calcRules_sorted [OF s, of ttl] unfolding set by (cases "calcRules ?rs ttl") auto
  ultimately show ?thesis by (intro exI [of _ "calcRules ?rs"] conjI allI)
qed

text \<open>A single number is not a list of rules: the branch of \<^verbatim>\<open>loadTTLRules\<close> for it is never taken.\<close>

lemma ruleLoop_nonempty: "ruleLoop b acc = Inr rules \<Longrightarrow> b \<noteq> [] \<or> acc \<noteq> [] \<Longrightarrow> rules \<noteq> []"
proof (induction b acc rule: ruleLoop.induct)
  case (1 b acc)
  show ?case
  proof (cases "b = []")
    case False
    then show ?thesis using "1.IH" "1.prems"(1) unfolding ruleLoop.simps [of b acc] by (auto simp: Let_def split: if_splits list.splits)
  qed (use 1 in \<open>simp add: ruleLoop.simps\<close>)
qed

lemma integer_config_refused:
  assumes "list_all is_digit conf" "conf \<noteq> []"
  shows "loadTTLRules sorter conf = Inl (Error ''invalid rule: missing operator'')"
proof -
  have d: "takeWhile is_digit conf = conf" "dropWhile is_digit conf = []" using assms(1) by (auto simp: list_all_iff)
  have "ruleLoop conf [] = Inl (Error ''invalid rule: missing operator'')"
    unfolding ruleLoop.simps [of conf] Let_def d using assms(2) by simp
  then show ?thesis using assms(2) by (simp add: loadTTLRules_def parseTTLRules_def)
qed

section \<open>The binary search finds the distance\<close>

definition at_distance :: "int \<Rightarrow> int \<Rightarrow> (int \<Rightarrow> nat \<Rightarrow> dial_outcome) \<Rightarrow> bool" where
  "at_distance dist maxTTL dial \<longleftrightarrow> (\<forall>mid n. mid \<le> maxTTL \<longrightarrow> dial mid n = (if dist \<le> mid then Connected else TimedOut))"

lemma attemptLoop_at_distance:
  assumes "at_distance dist maxTTL dial" "mid \<le> maxTTL" "0 < n"
  shows "\<exists>s'. attemptLoop dial mid n s = (s', Inr (dist \<le> mid)) \<and> ts_ttlCache s' = ts_ttlCache s"
  using assms(3)
proof (induction n arbitrary: s)
  case (Suc n)
  have d: "dial mid (ts_dials s) = (if dist \<le> mid then Connected else TimedOut)" using assms(1,2) by (simp add: at_distance_def)
  show ?case
  proof (cases "dist \<le> mid \<or> n = 0")
    case True
    then show ?thesis using d by (auto simp: Let_def)
  next
    case False
    then obtain s' where "attemptLoop dial mid n (s\<lparr>ts_dials := Suc (ts_dials s)\<rparr>) = (s', Inr (dist \<le> mid))" "ts_ttlCache s' = ts_ttlCache s"
      using Suc.IH [of "s\<lparr>ts_dials := Suc (ts_dials s)\<rparr>"] by auto
    then show ?thesis using d False by (simp add: Let_def)
  qed
qed simp

lemma ttlSearch_distance:
  assumes "at_distance dist maxTTL dial" "1 \<le> attempts" "low \<le> dist" "high \<le> maxTTL"
  shows "\<exists>s'. ttlSearch dial attempts low high found s = (s', Inr (if dist \<le> high then dist else found))
    \<and> ts_ttlCache s' = ts_ttlCache s"
  using assms
proof (induction dial attempts low high found s rule: ttlSearch.induct)
  case (1 dial attempts low high found s)
  show ?case
  proof (cases "low \<le> high")
    case False
    then show ?thesis using "1.prems"(3) by (simp add: ttlSearch.simps [of dial])
  next
    case True
    let ?mid = "go_div (low + high) 2"
    obtain s1 where a: "attemptLoop dial ?mid (nat attempts) s = (s1, Inr (dist \<le> ?mid))" "ts_ttlCache s1 = ts_ttlCache s"
      using attemptLoop_at_distance [OF "1.prems"(1), of ?mid "nat attempts" s] "1.prems"(2,4) go_div_mid(2) [OF True] by auto
    have step: "ttlSearch dial attempts low high found s =
      (if dist \<le> ?mid then ttlSearch dial attempts low (?mid - 1) ?mid s1 else ttlSearch dial attempts (?mid + 1) high found s1)"
      using True a(1) by (simp add: ttlSearch.simps [of dial attempts low high] Let_def)
    show ?thesis
    proof (cases "dist \<le> ?mid")
      case d: True
      from "1.IH"(1) [OF True refl a(1) [symmetric] refl d] "1.prems" a(2) step d go_div_mid(2) [OF True] show ?thesis
        by (auto split: if_splits)
    next
      case d: False
      from "1.IH"(2) [OF True refl a(1) [symmetric] refl d] "1.prems" a(2) step d show ?thesis by auto
    qed
  qed
qed

text \<open>Whatever the network does, what is found is a hop limit that was tried, or nothing.\<close>

lemma ttlSearch_bounds:
  "snd (ttlSearch dial attempts low high found s) = Inr r \<Longrightarrow> r = found \<or> low \<le> r \<and> r \<le> high"
proof (induction dial attempts low high found s rule: ttlSearch.induct)
  case (1 dial attempts low high found s)
  show ?case
  proof (cases "low \<le> high")
    case False
    then show ?thesis using "1.prems" by (simp add: ttlSearch.simps [of dial])
  next
    case True
    let ?mid = "go_div (low + high) 2"
    note m = go_div_mid [OF True]
    obtain s1 x where a: "attemptLoop dial ?mid (nat attempts) s = (s1, x)" by (cases "attemptLoop dial ?mid (nat attempts) s")
    show ?thesis
    proof (cases x)
      case (Inl e)
      then show ?thesis using "1.prems" True a by (simp add: ttlSearch.simps [of dial attempts low high] Let_def)
    next
      case (Inr ok)
      show ?thesis
      proof (cases ok)
        case ok: True
        then have "snd (ttlSearch dial attempts low (?mid - 1) ?mid s1) = Inr r"
          using "1.prems" True a Inr by (simp add: ttlSearch.simps [of dial attempts low high] Let_def)
        from "1.IH"(1) [OF True refl a [unfolded Inr, symmetric] refl ok this] m show ?thesis by linarith
      next
        case ok: False
        then have "snd (ttlSearch dial attempts (?mid + 1) high found s1) = Inr r"
          using "1.prems" True a Inr by (simp add: ttlSearch.simps [of dial attempts low high] Let_def)
        from "1.IH"(2) [OF True refl a [unfolded Inr, symmetric] refl ok this] m show ?thesis by linarith
      qed
    qed
  qed
qed

text \<open>
  C27: The detection finds the distance of the server: if dials reach it exactly from some hop limit on, the binary search
  over the limits returns that limit when it is within the configured maximum, and the fake TTL is
  one hop less, or what the configured rules make of it; a server beyond the maximum is reported
  as not found.  With an unset timeout, \<open>-1\<close>, every dial is past its deadline, so no server is ever found.
\<close>

theorem getFakeTTL_correct:
  assumes "\<And>n mid. te_dial env n addr ipv6 mid = (if dist \<le> mid then Connected else TimedOut)"
    and "1 \<le> dist" "1 \<le> p_Attempts p" "p_FakeTTL p \<in> {0, -1}" "ts_ttlCache s = None"
  shows "snd (getFakeTTL env now p addr ipv6 s) =
    (if p_SingleTimeout p < 0 \<or> p_MaxTTL p < dist then Inl (Error ''reachable TTL not found'')
     else case te_calcTTL env of
       None \<Rightarrow> Inr (dist - 1)
     | Some calc \<Rightarrow> (case calc dist of Inl e \<Rightarrow> Inl (wrap ''calculate fake TTL'' e) | Inr x \<Rightarrow> Inr x))"
proof -
  let ?dial = "ttlDial env addr ipv6 (p_SingleTimeout p)"
  let ?d = "if p_SingleTimeout p < 0 then max dist (p_MaxTTL p + 1) else dist"
  have "at_distance ?d (p_MaxTTL p) ?dial" using assms(1) by (auto simp: at_distance_def ttlDial_def)
  moreover have "1 \<le> ?d" using assms(2) by auto
  ultimately obtain s' where "ttlSearch ?dial (p_Attempts p) 1 (p_MaxTTL p) (-1) s = (s', Inr (if ?d \<le> p_MaxTTL p then ?d else -1))"
    using ttlSearch_distance [OF _ assms(3) _ order.refl] by metis
  moreover have "(if ?d \<le> p_MaxTTL p then ?d else -1) = (if p_SingleTimeout p < 0 \<or> p_MaxTTL p < dist then -1 else dist)" by auto
  ultimately have "ttlSearch ?dial (p_Attempts p) 1 (p_MaxTTL p) (-1) s =
    (s', Inr (if p_SingleTimeout p < 0 \<or> p_MaxTTL p < dist then -1 else dist))" by simp
  then show ?thesis using assms(2,4,5)
    by (auto simp: getFakeTTL_def getMinimalReachableTTL_def detectMinimalReachableTTL_def split: option.split)
qed

section \<open>Sending with a fake packet delivers the packet\<close>

definition sys_ok :: "noise_sys \<Rightarrow> bool" where
  "sys_ok sys \<longleftrightarrow> (\<forall>stage. ns_fault sys stage = None) \<and> (\<exists>t. ns_defaultTTL sys = Inr t)"

lemma yields_event [yields_intros]: "emits (io_event e) [e]"
  by (simp add: yields_def io_event_def log_event_def)

lemma yields_stage: "sys_ok sys \<Longrightarrow> emits (sys_stage sys stage) []"
  by (simp add: sys_ok_def sys_stage_def yields_lift)

lemma sendWithNoise_emits:
  assumes "sys_ok sys" "fake \<noteq> []" "length real = length fake"
  shows "emits (sendWithNoise sys fake real ttl t) [Noise ttl fake real t]"
proof -
  have "ns_fault sys x = None" for x using assms(1) by (simp add: sys_ok_def)
  then have "sendWithNoise sys fake real ttl t =
    io_then (sys_stage sys ''create pipe'') (io_then (sys_stage sys ''mmap'') (io_then (sys_stage sys ''set fake TTL'')
      (io_then (sys_stage sys ''vmsplice'') (io_then (io_event (Noise ttl fake real t))
      (io_then (sys_stage sys ''set default TTL'') (io_then (sys_stage sys ''raw write (splice)'') (sys_stage sys ''splice'')))))))"
    using assms(2,3) by (simp add: sendWithNoise_def Let_def)
  moreover have "emits \<dots> ([] @ [] @ [] @ [] @ [Noise ttl fake real t] @ [] @ [] @ [])"
    by (intro yields_then yields_event yields_stage assms(1))
  ultimately show ?thesis by simp
qed

text \<open>The first packet: zeros from the name on if the name has a dot.\<close>

definition fakeBytes :: "bytes \<Rightarrow> int \<Rightarrow> int \<Rightarrow> bool \<Rightarrow> bytes" where
  "fakeBytes packet pos pivot found =
     (if found then take (nat pos) packet @ replicate (nat (pivot - pos)) 0 else take (nat pivot) packet)"

lemma desyncSend_emits:
  assumes "sys_ok sys" "0 < pos" "0 \<le> len" "pos + len < int (length packet)"
    and "findLastDot packet pos len = Inr (pivot, found)"
  shows "emits (desyncSend sys packet pos len ttl fakeSleep)
      [Noise ttl (fakeBytes packet pos pivot found) (take (nat pivot) packet) (max fakeSleep minInterval), Write (drop (nat pivot) packet)]"
    and "length (fakeBytes packet pos pivot found) = nat pivot"
proof -
  obtain pivot' found' where f: "findLastDot packet pos len = Inr (pivot', found')" "pos \<le> pivot'" "pivot' \<le> pos + len"
    using findLastDot_bounds [of pos len packet] assms(2-4) by auto
  then have pivot: "pos \<le> pivot" "pivot \<le> pos + len" using assms(5) by auto
  let ?real = "take (nat pivot) packet" and ?rest = "drop (nat pivot) packet" and ?t = "max fakeSleep minInterval"
  let ?f = "fakeBytes packet pos pivot found"
  have s: "go_slice packet 0 pivot = Inr ?real" "go_slice packet pivot (int (length packet)) = Inr ?rest" "go_slice packet 0 pos = Inr (take (nat pos) packet)"
    using pivot assms(2-4) by (auto simp: go_slice_ok)
  have len: "length ?f = nat pivot" "length ?real = nat pivot" "?f \<noteq> []"
    using pivot assms(2-4) by (auto simp: fakeBytes_def)
  have fk: "take (nat pivot) (take (nat pos) packet @ replicate (nat pivot - length (take (nat pos) packet)) 0) = take (nat pos) packet @ replicate (nat (pivot - pos)) 0"
  proof -
    have l: "length (take (nat pos) packet) = nat pos" using pivot assms(2-4) by simp
    have n: "nat (pivot - pos) = nat pivot - nat pos" "nat pos \<le> nat pivot" using pivot assms(2) by auto
    show ?thesis unfolding l n(1) by (rule take_all) (use l n(2) in simp)
  qed
  obtain d where d: "ns_defaultTTL sys = Inr d" using assms(1) by (auto simp: sys_ok_def)
  have fake: "yields (if found then io_bind (io_lift (go_slice packet 0 pos)) (\<lambda>pre.
                 io_return (take (nat pivot) (pre @ replicate (nat pivot - length pre) 0)))
               else io_return ?real) ?f []"
    using yields_lift_bind [OF s(3), where f = "\<lambda>pre. io_return (take (nat pivot) (pre @ replicate (nat pivot - length pre) 0))"] fk
    by (auto simp: fakeBytes_def intro: yields_return)
  let ?es = "[Noise ttl ?f ?real ?t, Write ?rest]"
  let ?tail = "\<lambda>fakeData. io_then (io_wrap ''send data with noise'' (sendWithNoise sys fakeData ?real ttl ?t))
      (io_bind (io_lift (go_slice packet pivot (int (length packet)))) (\<lambda>rest. io_wrap ''send remaining data'' (conn_Write rest)))"
  have "emits (?tail ?f) ([Noise ttl ?f ?real ?t] @ [Write ?rest])"
    by (rule yields_then, rule yields_wrap, rule sendWithNoise_emits [OF assms(1) len(3) trans [OF len(2) len(1) [symmetric]]], rule yields_lift_bind [OF s(2)],
        rule yields_wrap, rule yields_Write)
  from yields_bind [where f = ?tail, OF fake this]
  have "emits (io_bind (if found then io_bind (io_lift (go_slice packet 0 pos)) (\<lambda>pre.
                 io_return (take (nat pivot) (pre @ replicate (nat pivot - length pre) 0))) else io_return ?real) ?tail) ?es" by (simp only: append_Nil append_Cons)
  from yields_lift_bind [where f = "\<lambda>realData. io_bind (if found then io_bind (io_lift (go_slice packet 0 pos)) (\<lambda>pre.
                 io_return (take (nat pivot) (pre @ replicate (nat pivot - length pre) 0))) else io_return realData) (\<lambda>fakeData.
      io_then (io_wrap ''send data with noise'' (sendWithNoise sys fakeData realData ttl ?t))
      (io_bind (io_lift (go_slice packet pivot (int (length packet)))) (\<lambda>rest. io_wrap ''send remaining data'' (conn_Write rest))))", OF s(1) this]
  have "emits (desyncSend sys packet pos len ttl fakeSleep) ([] @ [] @ [] @ ?es)"
    unfolding desyncSend_def Let_def
    by - (rule yields_then [OF yields_stage [OF assms(1)]], rule yields_then [OF yields_stage [OF assms(1)]],
        rule yields_bind [OF yields_wrap [OF yields_lift [OF d]]], rule yields_lift_bind [OF assms(5)], simp only: prod.case)
  then show "emits (desyncSend sys packet pos len ttl fakeSleep) ?es" by (simp only: append_Nil)
  show "length ?f = nat pivot" by (rule len(1))
qed


section \<open>A server seven hops away\<close>

definition sampleTTL :: ttl_env where
  "sampleTTL = \<lparr>te_dial = (\<lambda>n addr ipv6 mid. if 7 \<le> mid then Connected else TimedOut), te_evict = (\<lambda>k c. c),
     te_ttlCacheTTL = 0, te_calcTTL = None\<rparr>"

theorem getFakeTTL_correct_witness:
  "snd (getFakeTTL sampleTTL 0 (zeroPolicy\<lparr>p_MaxTTL := 32, p_Attempts := 3\<rparr>) ''1.1.1.1:443'' False \<lparr>ts_ttlCache = None, ts_dials = 0\<rparr>) = Inr 6"
proof -
  let ?p = "zeroPolicy\<lparr>p_MaxTTL := 32, p_Attempts := 3\<rparr>"
  have "snd (getFakeTTL sampleTTL 0 ?p ''1.1.1.1:443'' False \<lparr>ts_ttlCache = None, ts_dials = 0\<rparr>) =
    (if p_SingleTimeout ?p < 0 \<or> p_MaxTTL ?p < 7 then Inl (Error ''reachable TTL not found'')
     else case te_calcTTL sampleTTL of
       None \<Rightarrow> Inr (7 - 1)
     | Some calc \<Rightarrow> (case calc 7 of Inl e \<Rightarrow> Inl (wrap ''calculate fake TTL'' e) | Inr x \<Rightarrow> Inr x))"
    by (rule getFakeTTL_correct) (simp_all add: sampleTTL_def zeroPolicy_def)
  then show ?thesis by (simp add: sampleTTL_def zeroPolicy_def)
qed

definition samplePacket :: bytes where
  "samplePacket = [1, 97, 46, 98, 0]"

lemma samplePacket_dot: "findLastDot samplePacket 1 3 = Inr (2, True)"
  by (simp add: findLastDot_def findLastDotLoop.simps samplePacket_def go_index_def char_byte_def)


end
