(* ===== verification/Tunnel.thy ===== *)
theory Tunnel
  imports Desync Dial_Plan
begin

text \<open>
  The tunnel, \<^verbatim>\<open>src/internal/tunnel.go\<close>: a client connection is relayed to a destination after its first packet
  has been handled by protocol, TLS, HTTP or unknown, and by policy.

  The state \<open>tun_state\<close> has what the reads of the client return, chunk by chunk, the buffer of the buffered reader,
  what is written to the client, and the numbered destinations with their logs, so that a test can
  see what was sent, what was dialled and what stays open.  Parsing and printing of HTTP messages is a parameter.
  The two copying goroutines after \<open>startRelay\<close> are not modelled.

  \<open>handleTunnel_TLS\<close>, \<open>handleHello_denied\<close> and \<open>handleHello_allowed\<close> reduce the tunnel to its cases;
  \<open>sendHello_reassembles\<close> collects what the modes send from the theories of fragmentation and of fake packets.
\<close>

section \<open>Connections of a tunnel\<close>

text \<open>
  A request as \<^verbatim>\<open>http.ReadRequest\<close> reads it; \<open>rq_wire\<close> is what \<^verbatim>\<open>req.Write\<close> sends.
\<close>

record http_request =
  rq_Host :: string
  rq_URLHost :: string
  rq_RequestURI :: string
  rq_wire :: bytes

text \<open>
  The client is the list of what the reads of its connection return, the bytes the buffered reader
  holds, what was written to it, and the error, if any, of each write.  The connections dialled so
  far are numbered, each with whether it is open.
\<close>

record tun_state =
  tn_core :: core_state
  tn_ttl :: ttl_state
  tn_in :: "bytes list"
  tn_buf :: bytes
  tn_out :: "bytes list"
  tn_cliFault :: "nat \<Rightarrow> string option"
  tn_cliOpen :: bool
  tn_conns :: "(conn \<times> bool) list"

record tun_env =
  tv_dial_env :: dial_env
  tv_ttl :: ttl_env
  tv_sys :: noise_sys
  tv_dial :: "string \<Rightarrow> conn go"
  tv_ReadRequest :: "bytes \<Rightarrow> bytes list \<Rightarrow> http_request go \<times> bytes \<times> bytes list"
  tv_response :: "int \<Rightarrow> string option \<Rightarrow> bytes"

type_synonym 'a tun = "(tun_state, 'a) comp"

definition on_core :: "'a core \<Rightarrow> 'a tun" where
  "on_core = c_zoom tn_core (\<lambda>t s. s\<lparr>tn_core := t\<rparr>)"

definition cli_Write :: "bytes \<Rightarrow> unit tun" where
  "cli_Write data = (\<lambda>s. case tn_cliFault s (length (tn_out s)) of
     Some e \<Rightarrow> Some (s, Inl (Error e))
   | None \<Rightarrow> Some (s\<lparr>tn_out := tn_out s @ [data]\<rparr>, Inr ()))"

text \<open>\<^verbatim>\<open>net.DialTimeout\<close>: the deadline of a negative timeout has passed before the dial.\<close>

definition DialTimeout :: "tun_env \<Rightarrow> string \<Rightarrow> duration \<Rightarrow> nat tun" where
  "DialTimeout env target timeout = (\<lambda>s.
     if timeout < 0 then Some (s, Inl (Error (''dial tcp '' @ target @ '': i/o timeout'')))
     else case tv_dial env target of
       Inl e \<Rightarrow> Some (s, Inl e)
     | Inr c \<Rightarrow> Some (s\<lparr>tn_conns := tn_conns s @ [(c, True)]\<rparr>, Inr (length (tn_conns s))))"

text \<open>An operation on the destination, which is \<^verbatim>\<open>nil\<close> before it is dialled.\<close>

definition dst_io :: "nat option \<Rightarrow> 'a io \<Rightarrow> 'a tun" where
  "dst_io dst m = (\<lambda>s. case dst of
     None \<Rightarrow> Some (s, Inl (Panic ''nil pointer dereference''))
   | Some i \<Rightarrow>
       let (c, opened) = tn_conns s ! i; (r, c1) = m c
       in Some (s\<lparr>tn_conns := (tn_conns s)[i := (c1, opened)]\<rparr>, r))"

text \<open>\<^verbatim>\<open>bufio.Reader\<close> with its buffer of 4096 bytes.\<close>

definition bufSize :: nat where "bufSize = 4096"

fun fillTo :: "nat \<Rightarrow> bytes \<Rightarrow> bytes list \<Rightarrow> bytes \<times> bytes list" where
  "fillTo n buf [] = (buf, [])"
| "fillTo n buf (c # cs) =
     (if n \<le> length buf then (buf, c # cs)
      else
        let room = bufSize - length buf in
        if length c \<le> room then fillTo n (buf @ c) cs
        else (buf @ take room c, drop room c # cs))"

definition br_Peek :: "nat \<Rightarrow> bytes tun" where
  "br_Peek n = (\<lambda>s.
     let (buf, cs) = fillTo n (tn_buf s) (tn_in s); s1 = s\<lparr>tn_buf := buf, tn_in := cs\<rparr> in
     Some (s1, if n \<le> length buf then Inr (take n buf) else Inl (Error ''EOF'')))"

text \<open>One read: what is buffered, at most; the connection is read only if that is nothing.\<close>

definition br_Read :: "nat \<Rightarrow> bytes tun" where
  "br_Read n = (\<lambda>s.
     if tn_buf s \<noteq> [] then Some (s\<lparr>tn_buf := drop n (tn_buf s)\<rparr>, Inr (take n (tn_buf s)))
     else case tn_in s of
       [] \<Rightarrow> Some (s, Inl (Error ''EOF''))
     | c # cs \<Rightarrow>
         let k = max n bufSize; got = take k c; rest = drop k c in
         Some (s\<lparr>tn_buf := drop n got, tn_in := (if rest = [] then cs else rest # cs)\<rparr>, Inr (take n got)))"

section \<open>Handling the first packet\<close>

definition tlsAlertLevelFatal :: byte where "tlsAlertLevelFatal = 2"
definition tlsAlertAccessDenied :: byte where "tlsAlertAccessDenied = 70"
definition tlsAlertProtocolVersion :: byte where "tlsAlertProtocolVersion = 49"

definition sendTLSAlert :: "bytes option \<Rightarrow> byte \<Rightarrow> byte \<Rightarrow> unit tun" where
  "sendTLSAlert ver desc level =
     (let v = (case ver of None \<Rightarrow> [] | Some v \<Rightarrow> v) in
      c_bind (c_lift (go_index v 0)) (\<lambda>v0.
      c_bind (c_lift (go_index v 1)) (\<lambda>v1.
      c_bind (c_try (cli_Write [0x15, v0, v1, 0x00, 0x02, level, desc])) (\<lambda>_. c_return ()))))"

text \<open>
  The handlers return the destination and whether the tunnel goes on; every other return gives no destination.  \<open>c_or\<close>
  is a call whose error is logged and ends the handler.
\<close>

type_synonym handled = "nat option \<times> bool"

abbreviation stop :: handled where "stop \<equiv> (None, False)"

definition c_or :: "'b \<Rightarrow> 'a tun \<Rightarrow> ('a \<Rightarrow> 'b tun) \<Rightarrow> 'b tun" where
  "c_or done m f = c_bind (c_try m) (\<lambda>r. case r of Inl e \<Rightarrow> c_return done | Inr x \<Rightarrow> f x)"

definition dialFirst :: "tun_env \<Rightarrow> bool \<Rightarrow> string \<Rightarrow> duration \<Rightarrow> nat option \<Rightarrow> nat option tun" where
  "dialFirst env replyFirst target timeout dst =
     (if replyFirst then c_bind (DialTimeout env target timeout) (\<lambda>i. c_return (Some i)) else c_return dst)"

definition findPolicy :: "tun_env \<Rightarrow> string \<Rightarrow> Policy" where
  "findPolicy env host =
     (case Option.bind (env_domainMatcher (de_dns (tv_dial_env env))) (\<lambda>m. DomainMatcher_Find m host) of
        Some dp \<Rightarrow> mergePolicies [dp, de_defaultPolicy (tv_dial_env env)]
      | None \<Rightarrow> de_defaultPolicy (tv_dial_env env))"

text \<open>Sending the ClientHello in the mode of the policy; any other mode sends nothing.\<close>

definition sendHello :: "tun_env \<Rightarrow> instant \<Rightarrow> Policy \<Rightarrow> string \<Rightarrow> bytes \<Rightarrow> int \<Rightarrow> int \<Rightarrow> nat option \<Rightarrow> unit tun" where
  "sendHello env now p target packet pos len dst =
     (case p_Mode p of
        ModeDirect \<Rightarrow> dst_io dst (conn_Write packet)
      | ModeTLSRF \<Rightarrow>
          dst_io dst (sendRecords packet pos len (p_NumRecords p) (p_NumSegments p) (p_OOB p = BoolTrue) (p_OOBEx p = BoolTrue)
            (p_ModMinorVer p = BoolTrue) (p_SendInterval p))
      | ModeTTLD \<Rightarrow>
          c_bind (c_lift (go_index target 0)) (\<lambda>c0.
          c_bind (\<lambda>s. let (t, r) = getFakeTTL (tv_ttl env) now p target (c0 = CHR ''['') (tn_ttl s)
                      in Some (s\<lparr>tn_ttl := t\<rparr>, case r of Inl (Panic e) \<Rightarrow> Inl (Panic e) | Inl (Error e) \<Rightarrow> Inr (-1) | Inr ttl \<Rightarrow> Inr ttl)) (\<lambda>ttl.
          dst_io dst (desyncSend (tv_sys env) packet pos len ttl (p_FakeSleep p))))
      | _ \<Rightarrow> c_return ())"

text \<open>The part of \<^verbatim>\<open>handleTLS\<close> after the record has been read.\<close>

definition handleHello :: "tun_env \<Rightarrow> instant \<Rightarrow> Policy \<Rightarrow> bool \<Rightarrow> string \<Rightarrow> string \<Rightarrow> nat option \<Rightarrow> bytes \<Rightarrow> handled tun" where
  "handleHello env now p replyFirst originHost target dst record =
     c_bind (c_lift (parseClientHello record)) (\<lambda>info.
     if hello_err info \<noteq> None then c_return stop
     else if p_Mode p = ModeTLSAlert then
       c_bind (sendTLSAlert (prtVer info) tlsAlertAccessDenied tlsAlertLevelFatal) (\<lambda>_. c_return stop)
     else if p_TLS13Only p = BoolTrue \<and> \<not> hasKeyShare info then
       c_bind (sendTLSAlert (prtVer info) tlsAlertProtocolVersion tlsAlertLevelFatal) (\<lambda>_. c_return stop)
     else if sniPos info \<le> 0 \<or> sniLen info \<le> 0 then
       c_or stop (dialFirst env replyFirst target (p_ConnectTimeout p) dst) (\<lambda>dst1.
       c_or stop (dst_io dst1 (conn_Write record)) (\<lambda>_. c_return (dst1, True)))
     else
       c_bind (c_lift (go_slice record (sniPos info) (sniPos info + sniLen info))) (\<lambda>sni.
       let sniStr = string_of_bytes sni; sniMode = p_Mode (findPolicy env sniStr) in
       if originHost \<noteq> sniStr \<and> sniMode = ModeBlock then c_return stop
       else if originHost \<noteq> sniStr \<and> sniMode = ModeTLSAlert then
         c_bind (sendTLSAlert (prtVer info) tlsAlertAccessDenied tlsAlertLevelFatal) (\<lambda>_. c_return stop)
       else
         c_or stop (dialFirst env replyFirst target (p_ConnectTimeout p) dst) (\<lambda>dst1.
         c_or stop (sendHello env now p target record (sniPos info) (sniLen info) dst1) (\<lambda>_. c_return (dst1, True)))))"

definition handleTLS :: "tun_env \<Rightarrow> instant \<Rightarrow> nat \<Rightarrow> Policy \<Rightarrow> bool \<Rightarrow> string \<Rightarrow> string \<Rightarrow> nat option \<Rightarrow> handled tun" where
  "handleTLS env now recordLen p replyFirst originHost target dst =
     c_or stop (br_Read recordLen) (\<lambda>record.
     if length record < recordLen then c_return stop
     else handleHello env now p replyFirst originHost target dst record)"

definition httpPolicy :: "tun_env \<Rightarrow> instant \<Rightarrow> string \<Rightarrow> Policy tun" where
  "httpPolicy env now host =
     (let p = findPolicy env host in
      case p_Host p of
        None \<Rightarrow> c_return p
      | Some h \<Rightarrow>
          if h = [] \<or> hd h = CHR ''^'' then c_return p
          else
            c_bind (on_core (ipRedirect (tv_dial_env env) now True h)) (\<lambda>(dstHost, ipPolicy).
            c_return (case ipPolicy of
                None \<Rightarrow> p
              | Some ipp \<Rightarrow> mergePolicies [p, ipp, de_defaultPolicy (tv_dial_env env)])))"

definition handleHTTP :: "tun_env \<Rightarrow> instant \<Rightarrow> http_request \<Rightarrow> bool \<Rightarrow> string \<Rightarrow> string \<Rightarrow> nat option \<Rightarrow> handled tun" where
  "handleHTTP env now req replyFirst originHost target dst =
     (let host = (if rq_Host req \<noteq> [] then rq_Host req else if rq_URLHost req \<noteq> [] then rq_URLHost req else originHost) in
      c_or stop (httpPolicy env now host) (\<lambda>p.
      if p_HttpStatus p = 0 \<or> p_HttpStatus p = -1 then
        c_bind (c_try (dialFirst env replyFirst target (p_ConnectTimeout p) dst)) (\<lambda>r.
        case r of
          Inl e \<Rightarrow> c_bind (c_try (cli_Write (tv_response env 502 None))) (\<lambda>_. c_return stop)
        | Inr dst1 \<Rightarrow> c_or stop (dst_io dst1 (conn_Write (rq_wire req))) (\<lambda>_. c_return (dst1, True)))
      else
        let loc = (if p_HttpStatus p = 301 \<or> p_HttpStatus p = 302 then Some (''https://'' @ host @ rq_RequestURI req) else None) in
        c_bind (c_try (cli_Write (tv_response env (p_HttpStatus p) loc))) (\<lambda>_. c_return stop)))"

section \<open>The tunnel\<close>

text \<open>A tunnel ends, or goes on to copy between the client and a destination.\<close>

datatype tunnel_end = Ended | Relaying nat

definition bytesHasPrefix :: "bytes \<Rightarrow> string list \<Rightarrow> bool" where
  "bytesHasPrefix b prefixes = list_ex (\<lambda>prefix. string_of_bytes (take (length prefix) b) = prefix) prefixes"

definition httpMethods :: "string list" where
  "httpMethods = [''GET '', ''POST '', ''HEAD '', ''PUT '', ''DELETE '', ''OPTIONS '', ''TRACE '', ''PATCH '']"

definition closeBoth :: "nat option \<Rightarrow> tunnel_end tun" where
  "closeBoth dst =
     c_bind (c_modify (\<lambda>s. s\<lparr>tn_cliOpen := False, tn_conns := (case dst of
        None \<Rightarrow> tn_conns s
      | Some i \<Rightarrow> (tn_conns s)[i := (fst (tn_conns s ! i), False)])\<rparr>)) (\<lambda>_. c_return Ended)"

text \<open>The conversion of the destination to a TCP connection, which panics on \<^verbatim>\<open>nil\<close>.\<close>

definition startRelay :: "nat option \<Rightarrow> tunnel_end tun" where
  "startRelay dst =
     (case dst of
        None \<Rightarrow> c_lift (Inl (Panic ''interface conversion: net.Conn is nil, not *net.TCPConn''))
      | Some i \<Rightarrow> c_return (Relaying i))"

definition continueWith :: "handled tun \<Rightarrow> tunnel_end tun" where
  "continueWith m = c_bind m (\<lambda>(dst, ok). if ok then startRelay dst else closeBoth dst)"

definition readRequest :: "tun_env \<Rightarrow> http_request go tun" where
  "readRequest env = (\<lambda>s.
     let (r, buf, cs) = tv_ReadRequest env (tn_buf s) (tn_in s) in Some (s\<lparr>tn_buf := buf, tn_in := cs\<rparr>, Inr r))"

definition handleTunnel :: "tun_env \<Rightarrow> instant \<Rightarrow> Policy \<Rightarrow> bool \<Rightarrow> nat option \<Rightarrow> string \<Rightarrow> string \<Rightarrow> tunnel_end tun" where
  "handleTunnel env now p replyFirst dst target originHost =
     (if p_Mode p = ModeRaw then
        c_bind (c_try (dialFirst env replyFirst target (p_ConnectTimeout p) dst)) (\<lambda>r.
        case r of Inl e \<Rightarrow> closeBoth None | Inr dst1 \<Rightarrow> startRelay dst1)
      else
        c_bind (c_try (br_Peek 10)) (\<lambda>r.
        case r of
          Inl e \<Rightarrow> closeBoth dst
        | Inr peekBytes \<Rightarrow>
            if peekBytes ! 0 = 0x16 \<and> peekBytes ! 1 = 0x03 then
              continueWith (handleTLS env now (5 + be16 (peekBytes ! 3) (peekBytes ! 4)) p replyFirst originHost target dst)
            else if bytesHasPrefix peekBytes httpMethods then
              c_bind (readRequest env) (\<lambda>q.
              case q of
                Inl e \<Rightarrow> startRelay dst
              | Inr req \<Rightarrow> continueWith (handleHTTP env now req replyFirst originHost target dst))
            else startRelay dst))"

section \<open>The first packet of a client\<close>

text \<open>The client sends \<open>packet\<close> and whatever else one read returns with it; \<open>s\<close> has not read anything yet.\<close>

definition first_read :: "bytes \<Rightarrow> tun_state \<Rightarrow> bool" where
  "first_read c s \<longleftrightarrow> tn_buf s = [] \<and> (\<exists>cs. tn_in s = c # cs) \<and> 10 \<le> length c \<and> length c \<le> bufSize"

lemma first_peek:
  assumes "first_read c s"
  shows "c_try (br_Peek 10) s = Some (s\<lparr>tn_in := tl (tn_in s), tn_buf := c\<rparr>, Inr (Inr (take 10 c)))"
proof -
  obtain cs where "tn_in s = c # cs" using assms by (auto simp: first_read_def)
  moreover have "fillTo 10 c cs = (c, cs)" using assms by (cases cs) (auto simp: first_read_def)
  ultimately show ?thesis using assms by (auto simp: first_read_def c_try_def br_Peek_def)
qed

definition tls_record :: "bytes \<Rightarrow> bool" where
  "tls_record c \<longleftrightarrow> c ! 0 = 0x16 \<and> c ! 1 = 0x03"

definition record_length :: "bytes \<Rightarrow> nat" where
  "record_length c = 5 + be16 (c ! 3) (c ! 4)"

lemma handleTunnel_TLS:
  assumes "first_read c s" "tls_record c" "p_Mode p \<noteq> ModeRaw"
  shows "handleTunnel env now p replyFirst dst target originHost s =
    continueWith (handleTLS env now (record_length c) p replyFirst originHost target dst) (s\<lparr>tn_in := tl (tn_in s), tn_buf := c\<rparr>)"
proof -
  have "take 10 c ! i = c ! i" if "i < 10" for i using that by simp
  then show ?thesis
    unfolding handleTunnel_def if_not_P [OF assms(3)] c_bind_eval(1) [where m = "c_try (br_Peek 10)", OF first_peek [OF assms(1)]]
    using assms(2) by (simp add: tls_record_def record_length_def)
qed

lemma handleTLS_buffered:
  assumes "c \<noteq> []"
  shows "handleTLS env now n p replyFirst originHost target dst (s\<lparr>tn_buf := c\<rparr>) =
    (if length c < n then Some (s\<lparr>tn_buf := drop n c\<rparr>, Inr stop)
     else handleHello env now p replyFirst originHost target dst (take n c) (s\<lparr>tn_buf := drop n c\<rparr>))"
  using assms by (simp add: handleTLS_def c_or_def c_bind_def c_try_def br_Read_def)

text \<open>
  A ClientHello that one read does not return in full is dropped, whatever the client sends
  next: the tunnel ends and the destination gets nothing.
\<close>

lemma split_hello_dropped:
  assumes "first_read c s" "tls_record c" "p_Mode p \<noteq> ModeRaw" "length c < record_length c"
  shows "\<exists>s'. handleTunnel env now p replyFirst dst target originHost s = Some (s', Inr Ended) \<and>
    tn_conns s' = tn_conns s \<and> tn_out s' = tn_out s \<and> \<not> tn_cliOpen s'"
proof -
  have "c \<noteq> []" using assms(1) by (auto simp: first_read_def)
  then show ?thesis using assms(4) unfolding handleTunnel_TLS [OF assms(1-3)]
    by (simp add: continueWith_def handleTLS_buffered c_bind_def closeBoth_def c_modify_def)
qed

section \<open>What the policies deny is not sent\<close>

lemma sendTLSAlert_conns:
  "\<exists>s'. sendTLSAlert (Some [a, b]) desc level s = Some (s', Inr ()) \<and> tn_conns s' = tn_conns s \<and> tn_cliOpen s' = tn_cliOpen s
    \<and> tn_out s' = tn_out s @ (if tn_cliFault s (length (tn_out s)) = None then [[0x15, a, b, 0, 2, level, desc]] else [])"
  by (auto simp: sendTLSAlert_def go_index_def c_bind_def c_try_def cli_Write_def split: option.split)

text \<open>
  The server name of a parsed ClientHello, if there is one, and what the policy of the host and the policy of another
  server name deny.
\<close>

definition sni_of :: "bytes \<Rightarrow> helloInfo \<Rightarrow> string" where
  "sni_of packet info = string_of_bytes (take (nat (sniLen info)) (drop (nat (sniPos info)) packet))"

definition denied :: "tun_env \<Rightarrow> Policy \<Rightarrow> string \<Rightarrow> bytes \<Rightarrow> helloInfo \<Rightarrow> bool" where
  "denied env p originHost packet info \<longleftrightarrow>
     p_Mode p = ModeTLSAlert \<or> p_TLS13Only p = BoolTrue \<and> \<not> hasKeyShare info
     \<or> 0 < sniLen info \<and> originHost \<noteq> sni_of packet info \<and> p_Mode (findPolicy env (sni_of packet info)) \<in> {ModeBlock, ModeTLSAlert}"

lemma hello_parsed:
  assumes "5 \<le> length packet" "parseClientHello packet = Inr info"
  shows "hello_err info = None \<Longrightarrow> \<exists>a b. prtVer info = Some [a, b]"
    and "0 < sniLen info \<Longrightarrow> 58 \<le> sniPos info \<and> sniPos info + sniLen info \<le> int (length packet)"
    and "0 < sniLen info \<Longrightarrow> go_slice packet (sniPos info) (sniPos info + sniLen info) =
      Inr (take (nat (sniLen info)) (drop (nat (sniPos info)) packet))"
proof -
  have g: "hello_good (int (length packet)) (Inr info)" using parseClientHello_good [OF assms(1)] assms(2) by simp
  then show "hello_err info = None \<Longrightarrow> \<exists>a b. prtVer info = Some [a, b]" by (auto simp: hello_good_def)
  show b: "0 < sniLen info \<Longrightarrow> 58 \<le> sniPos info \<and> sniPos info + sniLen info \<le> int (length packet)"
    using g by (auto simp: hello_good_def sni_ok_def)
  assume l: "0 < sniLen info"
  then have "nat (sniPos info + sniLen info) = nat (sniPos info) + nat (sniLen info)" using b by (simp add: nat_add_distrib)
  then show "go_slice packet (sniPos info) (sniPos info + sniLen info) =
      Inr (take (nat (sniLen info)) (drop (nat (sniPos info)) packet))"
    using b [OF l] l by (simp add: go_slice_ok take_drop add.commute)
qed

lemma handleHello_denied:
  assumes "5 \<le> length packet" "parseClientHello packet = Inr info" "hello_err info = None"
    and "denied env p originHost packet info"
  shows "\<exists>s'. handleHello env now p replyFirst originHost target dst packet s = Some (s', Inr stop) \<and> tn_conns s' = tn_conns s"
proof -
  obtain a b where v: "prtVer info = Some [a, b]" using hello_parsed(1) [OF assms(1,2,3)] by blast
  have alert: "\<exists>s'. c_bind (sendTLSAlert (Some [a, b]) desc level) (\<lambda>_. c_return stop) s = Some (s', Inr stop) \<and>
      tn_conns s' = tn_conns s" for desc level
    using sendTLSAlert_conns [of a b desc level s] by (auto simp: c_bind_def)
  show ?thesis
  proof (cases "p_Mode p = ModeTLSAlert \<or> p_TLS13Only p = BoolTrue \<and> \<not> hasKeyShare info")
    case True
    then show ?thesis using alert by (auto simp: handleHello_def assms(2,3) v)
  next
    case False
    then have l: "0 < sniLen info" and n: "originHost \<noteq> sni_of packet info"
      "p_Mode (findPolicy env (sni_of packet info)) \<in> {ModeBlock, ModeTLSAlert}"
      using assms(4) by (auto simp: denied_def)
    then show ?thesis using False alert hello_parsed(2,3) [OF assms(1,2) l]
      by (auto simp: handleHello_def assms(2,3) v sni_of_def Let_def)
  qed
qed

section \<open>What the policies let through arrives\<close>

lemma delivers_oneRecord:
  assumes "35 \<le> pos" "0 \<le> len" "pos + len < int (length d)" "1 \<le> segs" "\<not> (oob \<and> oobex)"
  shows "delivers (sendRecords d pos len 1 segs oob oobex v t) (minorVersion v d) (oob \<or> oobex)"
  unfolding sendRecords_def
  by (rule delivers_minor) (use assms delivers_sendWhole [of pos len "minorVersion v d"] in auto)

text \<open>The peer's record layer gets the payload of the packet out of what it receives.\<close>

definition reassembles :: "send_event list \<Rightarrow> bytes \<Rightarrow> bool" where
  "reassembles es packet \<longleftrightarrow> (\<exists>payloads. deframe (received es) = Some payloads \<and> concat payloads = drop 5 packet)"

lemma minorVersion_payload: "drop 5 (minorVersion v d) = drop 5 d" "drop (5 + n) (minorVersion v d) = drop (5 + n) d"
  by (simp_all add: minorVersion_def)

lemma minorVersion_nth: "i \<noteq> 2 \<Longrightarrow> minorVersion v d ! i = d ! i"
  by (simp add: minorVersion_def)

lemma deframe_whole:
  assumes "length d = record_length d"
  shows "deframe (minorVersion v d) = Some [drop 5 d]"
proof -
  have l: "5 \<le> length d" "length d = 5 + be16 (d ! 3) (d ! 4)" using assms by (simp_all add: record_length_def)
  then have n: "be16 (minorVersion v d ! 3) (minorVersion v d ! 4) = length d - 5" by (simp add: minorVersion_nth)
  have "minorVersion v d \<noteq> []" "drop (length d) (minorVersion v d) = []" using l(1) by (auto simp flip: length_0_conv)
  then show ?thesis
    using l(1) by (subst deframe.simps) (simp add: n Let_def minorVersion_payload deframe.simps [of "[]"])
qed

lemma delivers_reassembles:
  assumes "58 \<le> pos" "0 \<le> len" "pos + len < int (length d)" "length d = record_length d" "length d < 65536"
    and "1 \<le> records" "1 \<le> segs" "\<not> (oob \<and> oobex)"
  obtains es where "emits (sendRecords d pos len records segs oob oobex v t) es" "reassembles es d"
proof (cases "records = 1")
  case True
  obtain es where "emits (sendRecords d pos len 1 segs oob oobex v t) es" "received es = minorVersion v d"
    using delivers_oneRecord [of pos len d segs oob oobex v t] assms by (auto simp: delivers_def)
  then show thesis using that True deframe_whole [OF assms(4)] by (auto simp: reassembles_def)
next
  case False
  then have "2 \<le> records" using assms(6) by simp
  from delivers_sendRecords [OF assms(1-3) this, of segs oob oobex v t] assms(7,8)
  obtain pivot ps qs where dv: "delivers (sendRecords d pos len records segs oob oobex v t)
       (concat (map (makeRecord (take 3 (minorVersion v d))) (ps @ qs))) (oob \<or> oobex)"
    and c: "pos \<le> int pivot" "concat ps = drop 5 (take pivot (minorVersion v d))" "concat qs = drop pivot (minorVersion v d)"
    by blast
  have "length x < 65536" if "x \<in> set (ps @ qs)" for x
    using concat_part_length [OF that] c(2,3) assms(1,5) by simp
  then have df: "deframe (concat (map (makeRecord (take 3 (minorVersion v d))) (ps @ qs))) = Some (ps @ qs)"
    using assms(1-3) by (intro deframe_records) auto
  have z: "5 - length (take pivot (minorVersion v d)) = 0" using c(1) assms(1-3) by auto
  have "concat (ps @ qs) = drop 5 (take pivot (minorVersion v d) @ drop pivot (minorVersion v d))"
    unfolding drop_append z using c(2,3) by simp
  also have "\<dots> = drop 5 d" by (simp add: minorVersion_payload)
  finally have cc: "concat (ps @ qs) = drop 5 d" .
  obtain es where "emits (sendRecords d pos len records segs oob oobex v t) es"
    "received es = concat (map (makeRecord (take 3 (minorVersion v d))) (ps @ qs))"
    using dv by (auto simp: delivers_def)
  then show thesis using that df cc by (auto simp: reassembles_def)
qed

text \<open>The settings with which every mode sends the ClientHello in full.\<close>

definition sends_all :: "tun_env \<Rightarrow> instant \<Rightarrow> Policy \<Rightarrow> string \<Rightarrow> ttl_state \<Rightarrow> bool" where
  "sends_all env now p target t \<longleftrightarrow>
     (case p_Mode p of
        ModeDirect \<Rightarrow> True
      | ModeTLSRF \<Rightarrow> 1 \<le> p_NumRecords p \<and> 1 \<le> p_NumSegments p \<and> \<not> (p_OOB p = BoolTrue \<and> p_OOBEx p = BoolTrue)
      | ModeTTLD \<Rightarrow> target \<noteq> [] \<and> sys_ok (tv_sys env) \<and>
          (\<exists>ttl. snd (getFakeTTL (tv_ttl env) now p target (hd target = CHR ''['') t) = Inr ttl)
      | _ \<Rightarrow> False)"

lemma dst_io_emits:
  assumes "emits m es" "i < length (tn_conns s)" "tn_conns s ! i = (c, opened)" "healthy c"
  shows "dst_io (Some i) m s = Some (s\<lparr>tn_conns := (tn_conns s)[i := (c\<lparr>conn_log := conn_log c @ es\<rparr>, opened)]\<rparr>, Inr ())"
  using yields_healthy [OF assms(1,4)] assms(3) by (simp add: dst_io_def)

lemma sendHello_reassembles:
  assumes "sends_all env now p target (tn_ttl s)" "58 \<le> pos" "0 \<le> len" "pos + len < int (length d)"
    and "length d = record_length d" "length d < 65536"
    and "i < length (tn_conns s)" "tn_conns s ! i = (c, opened)" "healthy c"
  shows "\<exists>s' es. sendHello env now p target d pos len (Some i) s = Some (s', Inr ()) \<and> reassembles es d \<and>
    tn_conns s' = (tn_conns s)[i := (c\<lparr>conn_log := conn_log c @ es\<rparr>, opened)] \<and> tn_buf s' = tn_buf s"
proof -
  have whole: "reassembles es d" if "received es = d" for es
    using deframe_whole [OF assms(5), of False] that by (auto simp: reassembles_def minorVersion_def)
  consider "p_Mode p = ModeDirect" | "p_Mode p = ModeTLSRF" | "p_Mode p = ModeTTLD"
    using assms(1) by (auto simp: sends_all_def split: Mode.splits)
  then show ?thesis
  proof cases
    case 1
    then show ?thesis using dst_io_emits [OF yields_Write assms(7-9)] whole [of "[Write d]"] by (auto simp: sendHello_def)
  next
    case 2
    then have r: "1 \<le> p_NumRecords p" "1 \<le> p_NumSegments p" "\<not> (p_OOB p = BoolTrue \<and> p_OOBEx p = BoolTrue)"
      using assms(1) by (auto simp: sends_all_def)
    obtain es where "emits (sendRecords d pos len (p_NumRecords p) (p_NumSegments p) (p_OOB p = BoolTrue) (p_OOBEx p = BoolTrue)
            (p_ModMinorVer p = BoolTrue) (p_SendInterval p)) es" "reassembles es d"
      by (rule delivers_reassembles [OF assms(2-6) r])
    then show ?thesis using 2 dst_io_emits [OF _ assms(7-9)] by (auto simp: sendHello_def)
  next
    case 3
    then obtain ttl where t: "target \<noteq> []" "sys_ok (tv_sys env)"
      "snd (getFakeTTL (tv_ttl env) now p target (hd target = CHR ''['') (tn_ttl s)) = Inr ttl"
      using assms(1) by (auto simp: sends_all_def)
    obtain pivot found where f: "findLastDot d pos len = Inr (pivot, found)" "pos \<le> pivot" "pivot \<le> pos + len"
      using findLastDot_bounds [of pos len d] assms(2-4) by auto
    let ?es = "[Noise ttl (fakeBytes d pos pivot found) (take (nat pivot) d) (max (p_FakeSleep p) minInterval), Write (drop (nat pivot) d)]"
    have e: "emits (desyncSend (tv_sys env) d pos len ttl (p_FakeSleep p)) ?es"
      by (rule desyncSend_emits [OF t(2) _ assms(3,4) f(1)]) (use assms(2) in simp)
    obtain t' where g: "getFakeTTL (tv_ttl env) now p target (hd target = CHR ''['') (tn_ttl s) = (t', Inr ttl)"
      using t(3) by (cases "getFakeTTL (tv_ttl env) now p target (hd target = CHR ''['') (tn_ttl s)") simp
    have i0: "go_index target 0 = Inr (hd target)" using t(1) by (simp add: go_index_def hd_conv_nth)
    have "sendHello env now p target d pos len (Some i) s = dst_io (Some i) (desyncSend (tv_sys env) d pos len ttl (p_FakeSleep p)) (s\<lparr>tn_ttl := t'\<rparr>)"
      using 3 by (simp add: sendHello_def i0 c_bind_def g)
    then show ?thesis using dst_io_emits [OF e, of i "s\<lparr>tn_ttl := t'\<rparr>" c opened] assms(7-9) whole [of ?es]
      by (intro exI [of _ "s\<lparr>tn_ttl := t', tn_conns := (tn_conns s)[i := (c\<lparr>conn_log := conn_log c @ ?es\<rparr>, opened)]\<rparr>"] exI [of _ ?es]) simp
  qed
qed

lemma handleHello_allowed:
  assumes "5 \<le> length packet" "parseClientHello packet = Inr info" "hello_err info = None" "0 < sniLen info"
    and "\<not> denied env p originHost packet info"
  shows "handleHello env now p False originHost target dst packet s =
    c_bind (c_try (sendHello env now p target packet (sniPos info) (sniLen info) dst))
      (\<lambda>r. case r of Inl e \<Rightarrow> c_return stop | Inr x \<Rightarrow> c_return (dst, True)) s"
proof -
  have d: "p_Mode p \<noteq> ModeTLSAlert" "\<not> (p_TLS13Only p = BoolTrue \<and> \<not> hasKeyShare info)" "\<not> sniPos info \<le> 0" "\<not> sniLen info \<le> 0"
    using assms(5) hello_parsed(2) [OF assms(1,2,4)] assms(4) by (auto simp: denied_def)
  have m: "p_Mode (findPolicy env (sni_of packet info)) \<noteq> ModeBlock" "p_Mode (findPolicy env (sni_of packet info)) \<noteq> ModeTLSAlert"
    if "originHost \<noteq> sni_of packet info" using assms(4,5) that by (auto simp: denied_def)
  have tried: "c_try (c_lift (Inr x)) t = Some (t, Inr (Inr x))" for x :: "nat option" and t :: tun_state
    by (simp add: c_try_def)
  show ?thesis
    using d m hello_parsed(3) [OF assms(1,2,4)] unfolding handleHello_def c_or_def dialFirst_def
    by (auto simp: assms(2,3) sni_of_def Let_def c_bind_eval(1) [where m = "c_try (c_lift (Inr dst))", OF tried])
qed

section \<open>Properties\<close>



text \<open>
  With \<^verbatim>\<open>reply_first\<close> the destination is dialled only for TLS, HTTP and raw connections: a client that starts with anything
  else makes the tunnel panic.
\<close>

lemma reply_first_panics:
  assumes "first_read c s" "\<not> tls_record c" "\<not> bytesHasPrefix (take 10 c) httpMethods" "p_Mode p \<noteq> ModeRaw"
  shows "\<exists>s' msg. handleTunnel env now p True None target originHost s = Some (s', Inl (Panic msg))"
proof -
  have "take 10 c ! i = c ! i" if "i < 10" for i using that by simp
  then show ?thesis
    unfolding handleTunnel_def if_not_P [OF assms(4)] c_bind_eval(1) [where m = "c_try (br_Peek 10)", OF first_peek [OF assms(1)]]
    using assms(2,3) by (auto simp: tls_record_def startRelay_def)
qed

section \<open>A sample tunnel\<close>

definition sampleHello :: clientHello where
  "sampleHello = exampleHello\<lparr>ch_extensions := [(extTypeSNI, sni_data [97, 46, 98]), (extTypeKeyShare, [])]\<rparr>"

abbreviation samplePacket1 :: bytes where "samplePacket1 \<equiv> encode_hello sampleHello"

definition sampleTunEnv :: tun_env where
  "sampleTunEnv = \<lparr>tv_dial_env = sampleDial, tv_ttl = sampleTTL, tv_sys = \<lparr>ns_defaultTTL = Inr 64, ns_fault = (\<lambda>_. None)\<rparr>,
     tv_dial = (\<lambda>t. Inr \<lparr>conn_log = [], conn_fault = (\<lambda>_. None)\<rparr>), tv_ReadRequest = (\<lambda>b cs. (Inl (Error ''bad''), [], [])),
     tv_response = (\<lambda>n l. [])\<rparr>"

definition sampleTun :: "bytes \<Rightarrow> tun_state" where
  "sampleTun c = \<lparr>tn_core = sampleCore, tn_ttl = \<lparr>ts_ttlCache = None, ts_dials = 0\<rparr>, tn_in = [c], tn_buf = [], tn_out = [],
     tn_cliFault = (\<lambda>_. None), tn_cliOpen = True, tn_conns = [(\<lparr>conn_log = [], conn_fault = (\<lambda>_. None)\<rparr>, True)]\<rparr>"

lemma sampleHello_wf: "hello_wf sampleHello"
  by (simp add: hello_wf_def sampleHello_def exampleHello_def encode_body_def encode_fixed_def sni_data_def
      extTypeSNI_def extTypeKeyShare_def encode_ext_def)

lemma samplePacket1_length: "length samplePacket1 = 68"
  by (simp add: encode_hello_def sampleHello_def exampleHello_def encode_body_def encode_fixed_def sni_data_def
      extTypeSNI_def extTypeKeyShare_def encode_ext_def Let_def)

lemma samplePacket1_record:
  "tls_record samplePacket1" "record_length samplePacket1 = 68"
proof -
  have n: "length (encode_body sampleHello) = 59"
    by (simp add: sampleHello_def exampleHello_def encode_body_def encode_fixed_def sni_data_def
      extTypeSNI_def extTypeKeyShare_def encode_ext_def)
  show "tls_record samplePacket1" "record_length samplePacket1 = 68"
    by (simp_all add: tls_record_def record_length_def encode_hello_def n put16_def be16_def)
qed

lemma samplePacket1_first: "first_read samplePacket1 (sampleTun samplePacket1)"
  by (simp add: first_read_def sampleTun_def samplePacket1_length bufSize_def)

lemma samplePacket1_parse:
  obtains info where "parseClientHello samplePacket1 = Inr info" "hello_err info = None" "hasKeyShare info" "sniLen info = 3"
    "sniPos info + sniLen info < int (length samplePacket1)" "sni_of samplePacket1 info = ''a.b''"
proof -
  obtain pos where p: "parseClientHello samplePacket1 = Inr \<lparr>prtVer = Some (ch_version sampleHello), sniPos = pos, sniLen = 3,
      hasKeyShare = True, hello_err = None\<rparr>"
    and "go_slice samplePacket1 pos (pos + 3) = Inr [97, 46, 98]" "pos + 3 + int (length (encode_exts [(extTypeKeyShare, [])])) = int (length samplePacket1)"
    using parse_encoded_hello [OF sampleHello_wf, of "[]" "[97, 46, 98]" "[(extTypeKeyShare, [])]"]
    by (auto simp: sampleHello_def)
  moreover from this have "take 3 (drop (nat pos) samplePacket1) = [97, 46, 98]"
    using hello_parsed(3) [OF encode_hello_length p] by simp
  then have "sni_of samplePacket1 \<lparr>prtVer = Some (ch_version sampleHello), sniPos = pos, sniLen = 3,
      hasKeyShare = True, hello_err = None\<rparr> = ''a.b''"
    by (simp add: sni_of_def string_of_bytes_def byte_char_def char_of_def bit_0)
  ultimately show thesis using that [OF p] by simp
qed

definition rfPolicy :: Policy where
  "rfPolicy = zeroPolicy\<lparr>p_Mode := ModeTLSRF, p_NumRecords := 3, p_NumSegments := 1\<rparr>"



end
