(* ===== verification/Socks5_Server.thy ===== *)
theory Socks5_Server
  imports Socks_Codec Tunnel
begin

text \<open>
  The SOCKS5 server, \<^verbatim>\<open>src/internal/socks5.go\<close>, on the state of the tunnel it hands its connections to: the
  negotiation, the request, the plan and the reply, and the association that relays datagrams.
  The system resolver for datagrams and the outcome of listening are parameters; the datagrams of an association are
  the list of those that arrive while its connection is open.

  \<open>socks5Handler_connect\<close> reads a request from whatever chunks it arrives in, \<open>socksConnect_verdict\<close> gives the
  reply and what is left to do; \<open>udpRelay_sends\<close> says that the relay sends nothing but what it was
  asked to.
\<close>

section \<open>Listening\<close>

text \<open>What \<^verbatim>\<open>SOCKS5Accept\<close> does with the address of the command line and that of the configuration.\<close>

datatype listening = NotSpecified | Disabled | ListenOn string string

definition SOCKS5Accept :: "string \<Rightarrow> string \<Rightarrow> listening" where
  "SOCKS5Accept flag serverAddr =
     (let listenAddr = (if flag = [] then serverAddr else flag) in
      if listenAddr = [] then NotSpecified
      else if listenAddr = ''none'' then Disabled
      else ListenOn listenAddr (if hd listenAddr = CHR '':'' then ''0.0.0.0'' @ listenAddr else listenAddr))"

text \<open>The number of the next connection.\<close>

definition nextConnID :: "32 word \<Rightarrow> 32 word" where
  "nextConnID connID = (let connID = connID + 1 in if connID > 0xFFFFF then 0 else connID)"

section \<open>Reading from the client and replying to it\<close>

text \<open>
  \<^verbatim>\<open>io.ReadFull\<close> on what the reads of the connection return; of a longer chunk the rest stays for the
  next read.
\<close>

fun readFull :: "nat \<Rightarrow> bytes list \<Rightarrow> bytes \<times> bytes list" where
  "readFull n [] = ([], [])"
| "readFull n (c # cs) =
     (if n = 0 then ([], c # cs)
      else if n < length c then (take n c, drop n c # cs)
      else let (a, rest) = readFull (n - length c) cs in (c @ a, rest))"

definition readN :: "nat \<Rightarrow> bytes tun" where
  "readN n = (\<lambda>s.
     let (buf, cs) = readFull n (tn_in s) in
     Some (s\<lparr>tn_in := cs\<rparr>,
       if length buf = n then Inr buf else Inl (Error (if buf = [] then ''EOF'' else ''unexpected EOF''))))"

definition socks5RepSuccess :: byte where "socks5RepSuccess = 0x00"
definition socks5RepServerFailure :: byte where "socks5RepServerFailure = 0x01"
definition socks5RepConnNotAllowed :: byte where "socks5RepConnNotAllowed = 0x02"
definition socks5RepCmdNotSupported :: byte where "socks5RepCmdNotSupported = 0x07"
definition socks5RepAtypNotSupported :: byte where "socks5RepAtypNotSupported = 0x08"
definition socks5CmdConnect :: byte where "socks5CmdConnect = 0x01"
definition socks5CmdUDPAssociate :: byte where "socks5CmdUDPAssociate = 0x03"

lemmas socks5_codes = socks5RepSuccess_def socks5RepServerFailure_def socks5RepConnNotAllowed_def
  socks5RepCmdNotSupported_def socks5RepAtypNotSupported_def socks5CmdConnect_def socks5CmdUDPAssociate_def

text \<open>The address of a UDP or TCP endpoint; its IP may be \<^verbatim>\<open>nil\<close>.\<close>

type_synonym endpoint = "addr option \<times> nat"

text \<open>The address to reply: none, an endpoint, or a \<^verbatim>\<open>net.Addr\<close> of another type.\<close>

datatype reply_addr = NoAddr | Endpoint endpoint | Unknown

definition zeroAddr :: bytes where "zeroAddr = [0x01, 0x00, 0x00, 0x00, 0x00, 0x00, 0x00]"

definition replyBytes :: "byte \<Rightarrow> reply_addr \<Rightarrow> bytes" where
  "replyBytes rep a =
     [0x05, rep, 0x00] @
     (case a of
        NoAddr \<Rightarrow> zeroAddr
      | Unknown \<Rightarrow> zeroAddr
      | Endpoint (None, port) \<Rightarrow> zeroAddr
      | Endpoint (Some ip, port) \<Rightarrow>
          (case To4 ip of
             Some w \<Rightarrow> [0x01] @ to_bytes 4 w @ put16 port
           | None \<Rightarrow> [0x04] @ AsSlice (Some ip) @ put16 port))"

definition sendReplyWithAddr :: "byte \<Rightarrow> reply_addr \<Rightarrow> unit tun" where
  "sendReplyWithAddr rep a = c_bind (c_try (cli_Write (replyBytes rep a))) (\<lambda>_. c_return ())"

definition sendReply :: "byte \<Rightarrow> unit tun" where
  "sendReply rep = sendReplyWithAddr rep NoAddr"

definition readSocksAddr :: "byte \<Rightarrow> string tun" where
  "readSocksAddr atyp =
     (if atyp = 0x01 then c_bind (readN 4) (\<lambda>ipBytes. c_return (IP_String (ip_of_bytes ipBytes)))
      else if atyp = 0x04 then c_bind (readN 16) (\<lambda>ipBytes. c_return (IP_String (ip_of_bytes ipBytes)))
      else if atyp = 0x03 then
        c_bind (readN 1) (\<lambda>lenByte.
        c_bind (readN (unat (lenByte ! 0))) (\<lambda>domainBytes. c_return (string_of_bytes domainBytes)))
      else c_fail (''invalid address type: '' @ Itoa (uint atyp)))"

section \<open>Datagrams of an association\<close>

definition Endpoint_String :: "endpoint \<Rightarrow> string" where
  "Endpoint_String e = JoinHostPort (case fst e of None \<Rightarrow> [] | Some ip \<Rightarrow> IP_String ip) (Itoa (int (snd e)))"

text \<open>\<^verbatim>\<open>strconv.Atoi\<close>.\<close>

definition Atoi :: "string \<Rightarrow> int go" where
  "Atoi s =
     (let (neg, ds) = (case s of [] \<Rightarrow> (False, []) | c # r \<Rightarrow>
            if c = CHR ''-'' then (True, r) else if c = CHR ''+'' then (False, r) else (False, s));
          n = (if neg then - int (nat_of_digits ds) else int (nat_of_digits ds))
      in if ds = [] \<or> \<not> list_all is_digit ds then Inl (Error ''invalid syntax'')
         else if n < - (2 ^ 63) \<or> 2 ^ 63 \<le> n then Inl (Error ''value out of range'')
         else Inr n)"

definition encodeSocksUDPAddr :: "endpoint \<Rightarrow> bytes go" where
  "encodeSocksUDPAddr e =
     (case SplitHostPort (Endpoint_String e) of
        Inl err \<Rightarrow> Inl err
      | Inr (host, portStr) \<Rightarrow>
          (case Atoi portStr of
             Inl err \<Rightarrow> Inl err
           | Inr port \<Rightarrow>
               let suffix = put16 (nat (port mod 65536)) in
               (case ParseIP host of
                  Some ip \<Rightarrow>
                    (case To4 ip of
                       Some w \<Rightarrow> Inr ([0x01] @ to_bytes 4 w @ suffix)
                     | None \<Rightarrow> Inr ([0x04] @ AsSlice (Some ip) @ suffix))
                | None \<Rightarrow>
                    if 255 < length host then Inl (Error (''host too long: '' @ host))
                    else Inr ([0x03, word_of_nat (length host)] @ bytes_of_string host @ suffix))))"

text \<open>
  The host of a datagram and the offset of its port, and then the datagram: \<open>resolve\<close> is \<^verbatim>\<open>net.ResolveUDPAddr\<close> for
  the network \<^verbatim>\<open>udp\<close>.
\<close>

definition udpHost :: "bytes \<Rightarrow> (string \<times> nat) go" where
  "udpHost packet =
     (let offset = 3; atyp = packet ! offset in
      if atyp = 0x01 then
        if length packet < offset + 1 + 4 + 2 then Inl (Error ''udp ipv4 packet too short'')
        else Inr (IP_String (ip_of_bytes (take 4 (drop (offset + 1) packet))), offset + 5)
      else if atyp = 0x04 then
        if length packet < offset + 1 + 16 + 2 then Inl (Error ''udp ipv6 packet too short'')
        else Inr (IP_String (ip_of_bytes (take 16 (drop (offset + 1) packet))), offset + 17)
      else if atyp = 0x03 then
        if length packet < offset + 2 then Inl (Error ''udp domain packet too short'')
        else
          let hostLen = unat (packet ! (offset + 1)) in
          if length packet < offset + 2 + hostLen + 2 then Inl (Error ''udp domain packet too short'')
          else Inr (string_of_bytes (take hostLen (drop (offset + 2) packet)), offset + (2 + hostLen))
      else Inl (Error (''unsupported udp atyp: '' @ Itoa (uint atyp))))"

definition decodeSocksUDPPacket :: "(string \<Rightarrow> endpoint go) \<Rightarrow> bytes \<Rightarrow> (endpoint \<times> bytes) go" where
  "decodeSocksUDPPacket resolve packet =
     (if length packet < 4 then Inl (Error ''udp packet too short'')
      else if packet ! 2 \<noteq> 0x00 then Inl (Error ''fragmented udp packets are not supported'')
      else case udpHost packet of
        Inl e \<Rightarrow> Inl e
      | Inr (host, offset) \<Rightarrow>
          (case resolve (JoinHostPort host (Itoa (int (port_at packet offset)))) of
             Inl e \<Rightarrow> Inl e
           | Inr a \<Rightarrow> Inr (a, drop (offset + 2) packet)))"

text \<open>
  One turn of the relay: a datagram from an address, with the address of the client known so far; the result is
  the new address of the client and the datagram sent, if any.
\<close>

definition udpRelayStep ::
  "(string \<Rightarrow> endpoint go) \<Rightarrow> endpoint option \<Rightarrow> endpoint \<times> bytes \<Rightarrow> endpoint option \<times> (bytes \<times> endpoint) option" where
  "udpRelayStep resolve clientAddr datagram =
     (let (a, data) = datagram; buf = take (64 * 1024) data in
      if (case clientAddr of None \<Rightarrow> True | Some c \<Rightarrow> Endpoint_String a = Endpoint_String c) then
        (Some a, case decodeSocksUDPPacket resolve buf of Inl e \<Rightarrow> None | Inr (targetAddr, payload) \<Rightarrow> Some (payload, targetAddr))
      else
        (clientAddr,
         case (clientAddr, encodeSocksUDPAddr a) of
           (Some c, Inr addrBytes) \<Rightarrow> Some ([0x00, 0x00, 0x00] @ addrBytes @ buf, c)
         | _ \<Rightarrow> None))"

fun udpRelay ::
  "(string \<Rightarrow> endpoint go) \<Rightarrow> endpoint option \<Rightarrow> (endpoint \<times> bytes) list \<Rightarrow> (bytes \<times> endpoint) list" where
  "udpRelay resolve clientAddr [] = []"
| "udpRelay resolve clientAddr (d # ds) =
     (let (c, sent) = udpRelayStep resolve clientAddr d in
      (case sent of None \<Rightarrow> [] | Some x \<Rightarrow> [x]) @ udpRelay resolve c ds)"

section \<open>The handler of a connection\<close>

text \<open>
  The surroundings of the server: the outcome of listening on \<^verbatim>\<open>127.0.0.1:0\<close>, the resolver of
  datagrams and the datagrams that arrive on that socket until the client closes the connection.
\<close>

record socks_env =
  sv_tun :: tun_env
  sv_listen :: "endpoint go"
  sv_resolve :: "string \<Rightarrow> endpoint go"
  sv_datagrams :: "(endpoint \<times> bytes) list"

text \<open>
  What became of a connection: it was closed here, having relayed some datagrams, or it was handed to
  the tunnel.
\<close>

datatype socks_end = Closed "(bytes \<times> endpoint) list" | Tunnelled tunnel_end

definition handleUDPAssociate :: "socks_env \<Rightarrow> socks_end tun" where
  "handleUDPAssociate env =
     (case sv_listen env of
        Inl e \<Rightarrow> c_bind (sendReply socks5RepServerFailure) (\<lambda>_. c_return (Closed []))
      | Inr localAddr \<Rightarrow>
          c_bind (sendReplyWithAddr socks5RepSuccess (Endpoint localAddr)) (\<lambda>_.
          c_bind (c_modify (\<lambda>s. s\<lparr>tn_in := []\<rparr>)) (\<lambda>_.
          c_return (Closed (udpRelay (sv_resolve env) None (sv_datagrams env))))))"

text \<open>The handler after the request has been planned, and after it has been read.\<close>

definition socksDial :: "tun_env \<Rightarrow> DialPlan \<Rightarrow> nat option tun" where
  "socksDial tv plan =
     (if p_ReplyFirst (dp_Policy plan) = BoolTrue then c_return None
      else c_bind (DialTimeout tv (TargetAddress plan) (p_ConnectTimeout (dp_Policy plan))) (\<lambda>i. c_return (Some i)))"

definition socksPlanned :: "tun_env \<Rightarrow> instant \<Rightarrow> byte \<Rightarrow> string \<Rightarrow> DialPlan \<Rightarrow> socks_end tun" where
  "socksPlanned tv now atyp originHost plan =
     (let p = dp_Policy plan in
      if dp_Blocked plan then
        c_bind (sendReply (if atyp = 0x03 \<and> p_ReplyFirst p = BoolTrue then socks5RepSuccess else socks5RepConnNotAllowed))
          (\<lambda>_. c_return (Closed []))
      else if p_Mode p = ModeBlock then c_bind (sendReply socks5RepConnNotAllowed) (\<lambda>_. c_return (Closed []))
      else
        c_bind (c_try (socksDial tv plan)) (\<lambda>d.
        case d of
          Inl e \<Rightarrow> c_bind (sendReply socks5RepServerFailure) (\<lambda>_. c_return (Closed []))
        | Inr dstConn \<Rightarrow>
            c_bind (sendReply socks5RepSuccess) (\<lambda>_.
            c_bind (handleTunnel tv now p (p_ReplyFirst p = BoolTrue) dstConn (TargetAddress plan) originHost) (\<lambda>t. c_return (Tunnelled t)))))"

definition socksConnect :: "tun_env \<Rightarrow> instant \<Rightarrow> byte \<Rightarrow> string \<Rightarrow> nat \<Rightarrow> socks_end tun" where
  "socksConnect tv now atyp originHost dstPort =
     c_bind (c_try (on_core (PlanRequest (tv_dial_env tv) now True
       \<lparr>rc_Source = RequestSourceSOCKS5, rc_Host = originHost, rc_Port = int dstPort, rc_DomainTargetMode = ResolveDomainTarget\<rparr>))) (\<lambda>r.
     case r of
       Inl e \<Rightarrow> c_bind (sendReply socks5RepServerFailure) (\<lambda>_. c_return (Closed []))
     | Inr plan \<Rightarrow> socksPlanned tv now atyp originHost plan)"

fun err_text :: "gerr \<Rightarrow> string" where
  "err_text (Error e) = e"
| "err_text (Panic e) = e"

definition socksRequest :: "socks_env \<Rightarrow> instant \<Rightarrow> bytes \<Rightarrow> socks_end tun" where
  "socksRequest env now header =
     (if header ! 0 \<noteq> 0x05 then c_return (Closed [])
      else
        let cmd = header ! 1; atyp = header ! 3 in
        if cmd \<noteq> socks5CmdConnect \<and> cmd \<noteq> socks5CmdUDPAssociate then
          c_bind (sendReply socks5RepCmdNotSupported) (\<lambda>_. c_return (Closed []))
        else
          c_bind (c_try (readSocksAddr atyp)) (\<lambda>r.
          case r of
            Inl e \<Rightarrow>
              c_bind (if ContainsSub (err_text e) ''invalid address type'' then sendReply socks5RepAtypNotSupported else c_return ())
                (\<lambda>_. c_return (Closed []))
          | Inr originHost \<Rightarrow>
              if cmd = socks5CmdUDPAssociate then
                c_or (Closed []) (readN 2) (\<lambda>_. handleUDPAssociate env)
              else if atyp \<notin> {0x01, 0x03, 0x04} then
                c_bind (sendReply socks5RepAtypNotSupported) (\<lambda>_. c_return (Closed []))
              else
                c_or (Closed []) (readN 2) (\<lambda>portBytes. socksConnect (sv_tun env) now atyp originHost (port_at portBytes 0))))"

text \<open>The deferred function closes the client unless the tunnel has taken it.\<close>

definition closeHere :: "socks_end \<Rightarrow> socks_end tun" where
  "closeHere e =
     (case e of
        Closed ds \<Rightarrow> c_bind (c_modify (\<lambda>s. s\<lparr>tn_cliOpen := False\<rparr>)) (\<lambda>_. c_return e)
      | Tunnelled t \<Rightarrow> c_return e)"

definition socks5Handler :: "socks_env \<Rightarrow> instant \<Rightarrow> socks_end tun" where
  "socks5Handler env now =
     c_bind
       (c_or (Closed []) (readN 2) (\<lambda>header.
        if header ! 0 \<noteq> 0x05 then c_return (Closed [])
        else
          c_or (Closed []) (readN (unat (header ! 1))) (\<lambda>methods.
          let authMethod = (if (0x00 :: byte) \<in> set methods then 0x00 else 0xFF) in
          c_or (Closed []) (cli_Write [0x05, authMethod]) (\<lambda>_.
          if authMethod = 0xFF then c_return (Closed [])
          else c_or (Closed []) (readN 4) (socksRequest env now)))))
       closeHere"

section \<open>The server's view of datagrams\<close>

lemma Atoi_Itoa: "n < 2 ^ 63 \<Longrightarrow> Atoi (string_of_nat n) = Inr (int n)"
proof -
  assume n: "n < 2 ^ 63"
  obtain c r where s: "string_of_nat n = c # r" by (cases "string_of_nat n") (auto simp: string_of_nat_nonempty)
  then have "is_digit c" using string_of_nat_digits [of c n] by simp
  then have "c \<noteq> CHR ''-''" "c \<noteq> CHR ''+''" by auto
  moreover have "list_all is_digit (string_of_nat n)" using string_of_nat_digits by (auto simp: list_all_iff)
  moreover have "nat_of_digits (c # r) = n" using nat_of_digits_string_of_nat [of n] unfolding s .
  ultimately show ?thesis using n s by (simp add: Atoi_def)
qed

lemma udpHost_Serialize:
  assumes "target_ok domain ip"
  shows "udpHost ([0, 0, 0] @ SerializeAddr domain ip port @ payload) =
    Inr (target_host domain ip, length (SerializeAddr domain ip port) + 1)"
  using assms by (cases rule: target_cases [where port = port]) (simp_all add: udpHost_def)

lemma decode_Serialize:
  assumes "target_ok domain ip" "port < 65536"
  shows "decodeSocksUDPPacket resolve ([0, 0, 0] @ SerializeAddr domain ip port @ payload) =
    (case resolve (JoinHostPort (target_host domain ip) (Itoa (int port))) of Inl e \<Rightarrow> Inl e | Inr a \<Rightarrow> Inr (a, payload))"
proof -
  obtain xs where x: "SerializeAddr domain ip port = xs @ put16 port" "3 \<le> length xs"
    by (rule SerializeAddr_port [OF assms(1)])
  have "port_at (([0, 0, 0] @ xs) @ put16 port @ payload) (Suc (Suc (Suc (length xs)))) = port"
    by (rule port_at_put16 [OF assms(2)]) simp
  then show ?thesis using x(2) udpHost_Serialize [OF assms(1), of port payload] unfolding x(1)
    by (simp add: decodeSocksUDPPacket_def split: sum.split)
qed

text \<open>An address as \<^verbatim>\<open>encodeSocksUDPAddr\<close> encodes it, for an endpoint without a zone.\<close>

lemma encodeSocksUDPAddr_endpoint:
  assumes "addr_zone a = []" "port < 65536"
  shows "encodeSocksUDPAddr (Some a, port) = Inr (SerializeAddr [] (Some (Unmap a)) port)"
proof -
  have "SplitHostPort (Endpoint_String (Some a, port)) = Inr (IP_String a, string_of_nat port)"
    unfolding Endpoint_String_def Itoa_nat using IP_String_brackets [OF assms(1)]
    by (simp add: SplitHostPort_JoinHostPort Itoa_nat_chars)
  moreover have "Atoi (string_of_nat port) = Inr (int port)" using assms(2) by (intro Atoi_Itoa) simp
  ultimately show ?thesis using assms
    by (cases a) (auto simp: encodeSocksUDPAddr_def ParseIP_IP_String SerializeAddr_def socks_consts To4_def Let_def)
qed

lemma nextConnID_bound: "nextConnID c \<le> 0xFFFFF"
  by (simp add: nextConnID_def Let_def not_less)

section \<open>Datagrams of client and server\<close>

lemma relay_to_target:
  assumes "target_ok domain ip" "port < 65536" "length (SerializeAddr domain ip port @ payload) + 3 \<le> 64 * 1024"
  shows "udpRelayStep resolve None (client, [0, 0, 0] @ SerializeAddr domain ip port @ payload) =
    (Some client, case resolve (JoinHostPort (target_host domain ip) (Itoa (int port))) of Inl e \<Rightarrow> None | Inr t \<Rightarrow> Some (payload, t))"
proof -
  let ?p = "[0, 0, 0] @ SerializeAddr domain ip port @ payload"
  have "take (64 * 1024) ?p = ?p" using assms(3) by simp
  then show ?thesis
    unfolding udpRelayStep_def by (simp only: Let_def prod.case option.case if_True decode_Serialize [OF assms(1,2)]) (simp split: sum.split)
qed

lemma relay_to_client:
  assumes "addr_zone a = []" "port < 65536" "length data \<le> 64 * 1024" "Endpoint_String (Some a, port) \<noteq> Endpoint_String client"
  shows "udpRelayStep resolve (Some client) ((Some a, port), data) =
    (Some client, Some ([0, 0, 0] @ SerializeAddr [] (Some (Unmap a)) port @ data, client))"
  using assms(3,4) by (simp add: udpRelayStep_def encodeSocksUDPAddr_endpoint [OF assms(1,2)])

text \<open>
  C32: Client and server understand each other's datagrams.  What the client encodes for a target, the server sends on to the
  address its resolver has for that host and port, with the payload unchanged, and the sender becomes the
  client of the association.  What the server gets from any other endpoint it encodes for the client so that
  the client decodes the sender's address and port and the same data.
\<close>

theorem socks_udp_roundtrip:
  assumes "target_ok domain ip" "port < 65536" "length (SerializeAddr domain ip port @ payload) + 3 \<le> 64 * 1024"
    and "addr_zone a = []" "port' < 65536" "length data \<le> 64 * 1024" "Endpoint_String (Some a, port') \<noteq> Endpoint_String client"
  shows "(\<exists>packet. EncodeUDPPacket (Some (SerializeAddr domain ip port)) payload = Inr packet \<and>
      udpRelayStep resolve None (client, packet) =
        (Some client, case resolve (JoinHostPort (target_host domain ip) (Itoa (int port))) of Inl e \<Rightarrow> None | Inr t \<Rightarrow> Some (payload, t))) \<and>
    (\<exists>packet addr. udpRelayStep resolve (Some client) ((Some a, port'), data) = (Some client, Some (packet, client)) \<and>
      DecodeUDPPacket packet = (Some addr, data, None) \<and> Addr_UDPAddr addr = Some (Some (Unmap a), port'))"
proof -
  have "addr_zone (Unmap a) = []" using assms(4) by (cases a) simp_all
  then have "Addr_UDPAddr (SerializeAddr [] (Some (Unmap a)) port') = Some (Some (Unmap a), port')"
    using assms(5) by (rule Addr_UDPAddr_Serialize)
  moreover have "target_ok [] (Some (Unmap a))" by (simp add: target_ok_def)
  moreover have "EncodeUDPPacket (Some (SerializeAddr domain ip port)) payload = Inr ([0, 0, 0] @ SerializeAddr domain ip port @ payload)"
    by (simp add: EncodeUDPPacket_def)
  ultimately show ?thesis
    using relay_to_target [OF assms(1-3)] relay_to_client [OF assms(4-7)] DecodeUDPPacket_Serialize by blast
qed

text \<open>
  The relay sends nothing else: every datagram it sends carries to its client what another endpoint sent, or
  goes where a datagram of the client says.
\<close>

definition relayed :: "(string \<Rightarrow> endpoint go) \<Rightarrow> string \<Rightarrow> bytes \<times> endpoint \<Rightarrow> endpoint \<times> bytes \<Rightarrow> bool" where
  "relayed resolve c sent got \<longleftrightarrow>
     (if Endpoint_String (fst got) = c
      then decodeSocksUDPPacket resolve (take (64 * 1024) (snd got)) = Inr (snd sent, fst sent)
      else Endpoint_String (snd sent) = c \<and>
        (\<exists>pre. encodeSocksUDPAddr (fst got) = Inr pre \<and> fst sent = [0, 0, 0] @ pre @ take (64 * 1024) (snd got)))"

lemma udpRelay_sends: "x \<in> set (udpRelay resolve (Some c) ds) \<Longrightarrow> \<exists>d \<in> set ds. relayed resolve (Endpoint_String c) x d"
proof (induction ds arbitrary: c)
  case (Cons d ds)
  obtain c' where c': "fst (udpRelayStep resolve (Some c) d) = Some c'" "Endpoint_String c' = Endpoint_String c"
    by (cases d; cases "Endpoint_String (fst d) = Endpoint_String c") (auto simp: udpRelayStep_def Let_def)
  have "snd (udpRelayStep resolve (Some c) d) = Some x \<or> x \<in> set (udpRelay resolve (Some c') ds)"
    using Cons.prems c'(1) by (cases "udpRelayStep resolve (Some c) d") (auto split: option.splits)
  moreover have "relayed resolve (Endpoint_String c) x d" if "snd (udpRelayStep resolve (Some c) d) = Some x"
    using that by (cases d) (auto simp: udpRelayStep_def relayed_def Let_def split: if_splits sum.splits)
  ultimately show ?case using Cons.IH [of c'] c'(2) by auto
qed simp

section \<open>Requests of client and server\<close>

lemma readFull_concat: "fst (readFull n cs) = take n (concat cs)" "concat (snd (readFull n cs)) = drop n (concat cs)"
  by (induction n cs rule: readFull.induct) (auto simp: split_beta)

text \<open>How what the connection delivers is cut into chunks does not matter to \<open>readN\<close>.\<close>

lemma readN_received:
  assumes "concat (tn_in s) = bs @ rest" "length bs = n"
  obtains cs where "readN n s = Some (s\<lparr>tn_in := cs\<rparr>, Inr bs)" "concat cs = rest"
proof
  show "readN n s = Some (s\<lparr>tn_in := snd (readFull n (tn_in s))\<rparr>, Inr bs)"
    using assms readFull_concat(1) [of n "tn_in s"] by (cases "readFull n (tn_in s)") (simp add: readN_def)
  show "concat (snd (readFull n (tn_in s))) = rest" using assms by (simp add: readFull_concat)
qed

lemma c_or_eval: "m s = Some (s1, Inr x) \<Longrightarrow> c_or d m f s = f x s1"
  by (simp add: c_or_def c_bind_def c_try_def)

lemma c_try_eval: "m s = Some (s1, Inr x) \<Longrightarrow> c_try m s = Some (s1, Inr (Inr x))"
  by (simp add: c_try_def)

lemma readSocksAddr_received:
  assumes "target_ok domain ip" "concat (tn_in s) = tl (SerializeAddr domain ip port) @ rest"
  shows "\<exists>cs. readSocksAddr (hd (SerializeAddr domain ip port)) s = Some (s\<lparr>tn_in := cs\<rparr>, Inr (target_host domain ip)) \<and> concat cs = put16 port @ rest"
  using assms(1)
proof (cases rule: target_cases [where port = port])
  case Domain
  then obtain cs where r: "readN 1 s = Some (s\<lparr>tn_in := cs\<rparr>, Inr [word_of_nat (length domain)])" "concat cs = bytes_of_string domain @ put16 port @ rest"
    using readN_received [of s "[word_of_nat (length domain)]" "bytes_of_string domain @ put16 port @ rest" 1] assms(2) by auto
  then obtain cs' where "readN (length domain) (s\<lparr>tn_in := cs\<rparr>) = Some (s\<lparr>tn_in := cs'\<rparr>, Inr (bytes_of_string domain))" "concat cs' = put16 port @ rest"
    using readN_received [of "s\<lparr>tn_in := cs\<rparr>" "bytes_of_string domain" "put16 port @ rest"] by auto
  with r Domain show ?thesis by (auto simp: readSocksAddr_def c_bind_def)
next
  case (V4 w)
  then obtain cs where "readN 4 s = Some (s\<lparr>tn_in := cs\<rparr>, Inr (to_bytes 4 w))" "concat cs = put16 port @ rest"
    using readN_received [of s "to_bytes 4 w" "put16 port @ rest" 4] assms(2) by auto
  with V4 show ?thesis by (auto simp: readSocksAddr_def c_bind_def)
next
  case (V6 v)
  then obtain cs where "readN 16 s = Some (s\<lparr>tn_in := cs\<rparr>, Inr (to_bytes 16 v))" "concat cs = put16 port @ rest"
    using readN_received [of s "to_bytes 16 v" "put16 port @ rest" 16] assms(2) by auto
  with V6 show ?thesis by (auto simp: readSocksAddr_def c_bind_def)
qed

text \<open>What a client without credentials writes to connect to a target.\<close>

definition connect_writes :: "string \<Rightarrow> addr option \<Rightarrow> nat \<Rightarrow> bytes list" where
  "connect_writes domain ip port = [[0x05, 0x01, 0x00], [0x05, 0x01, 0x00] @ SerializeAddr domain ip port]"

lemma SerializeAddr_atyp: "target_ok domain ip \<Longrightarrow> hd (SerializeAddr domain ip port) \<in> {0x01, 0x03, 0x04} \<and> SerializeAddr domain ip port \<noteq> []"
  by (erule target_cases [where port = port]) simp_all

lemma socksRequest_connect:
  assumes "target_ok domain ip" "port < 65536" "concat (tn_in s) = tl (SerializeAddr domain ip port) @ rest"
  obtains cs where "socksRequest env now [0x05, 0x01, 0x00, hd (SerializeAddr domain ip port)] s =
      socksConnect (sv_tun env) now (hd (SerializeAddr domain ip port)) (target_host domain ip) port (s\<lparr>tn_in := cs\<rparr>)" "concat cs = rest"
proof -
  let ?t = "hd (SerializeAddr domain ip port)"
  obtain cs where 1: "readSocksAddr ?t s = Some (s\<lparr>tn_in := cs\<rparr>, Inr (target_host domain ip))" "concat cs = put16 port @ rest"
    using readSocksAddr_received [OF assms(1,3)] by (elim exE conjE)
  obtain cs' where 2: "readN 2 (s\<lparr>tn_in := cs\<rparr>) = Some (s\<lparr>tn_in := cs'\<rparr>, Inr (put16 port))" "concat cs' = rest"
    using readN_received [of "s\<lparr>tn_in := cs\<rparr>" "put16 port" rest 2] 1(2) by auto
  have p: "port_at (put16 port) 0 = port" using be16_put16 [OF assms(2)] by (simp add: port_at_def)
  have h: "[0x05, 0x01, 0x00, ?t] ! 0 = 0x05" "[0x05, 0x01, 0x00, ?t] ! 1 = 0x01" "[0x05, 0x01, 0x00, ?t] ! 3 = ?t" by simp_all
  have k: "(0x05 :: byte) \<noteq> 0x05 \<longleftrightarrow> False" "(0x01 :: byte) \<noteq> 0x01 \<and> \<not> False \<longleftrightarrow> False" "(0x01 :: byte) = 0x03 \<longleftrightarrow> False"
    "?t \<notin> {0x01, 0x03, 0x04} \<longleftrightarrow> False" using SerializeAddr_atyp [OF assms(1), of port] by auto
  have "socksRequest env now [0x05, 0x01, 0x00, ?t] s = socksConnect (sv_tun env) now ?t (target_host domain ip) port (s\<lparr>tn_in := cs'\<rparr>)"
    unfolding socksRequest_def h Let_def socks5_codes k if_False c_bind_eval(1) [where m = "c_try (readSocksAddr ?t)", OF c_try_eval, OF 1(1)]
      sum.case c_or_eval [where m = "readN 2", OF 2(1)] p by (rule refl)
  then show thesis using that 2(2) by blast
qed

lemma tun_swap: "s\<lparr>tn_out := out, tn_in := cs\<rparr> = s\<lparr>tn_in := cs, tn_out := out\<rparr>"
  by (cases s) simp

lemma socks5Handler_connect:
  assumes "target_ok domain ip" "port < 65536" "concat (tn_in s) = concat (connect_writes domain ip port) @ rest"
    and "tn_cliFault s (length (tn_out s)) = None"
  obtains cs where "socks5Handler env now s =
      c_bind (socksConnect (sv_tun env) now (hd (SerializeAddr domain ip port)) (target_host domain ip) port) closeHere
        (s\<lparr>tn_in := cs, tn_out := tn_out s @ [[0x05, 0x00]]\<rparr>)" "concat cs = rest"
proof -
  let ?a = "SerializeAddr domain ip port"
  obtain c1 where 1: "readN 2 s = Some (s\<lparr>tn_in := c1\<rparr>, Inr [0x05, 0x01])" "concat c1 = [0x00, 0x05, 0x01, 0x00] @ ?a @ rest"
    using readN_received [of s "[0x05, 0x01]" "[0x00, 0x05, 0x01, 0x00] @ ?a @ rest" 2] assms(3) by (auto simp: connect_writes_def)
  obtain c2 where 2: "readN 1 (s\<lparr>tn_in := c1\<rparr>) = Some (s\<lparr>tn_in := c2\<rparr>, Inr [0x00])" "concat c2 = [0x05, 0x01, 0x00] @ ?a @ rest"
    using readN_received [of "s\<lparr>tn_in := c1\<rparr>" "[0x00]" "[0x05, 0x01, 0x00] @ ?a @ rest" 1] 1(2) by auto
  let ?s = "s\<lparr>tn_in := c2, tn_out := tn_out s @ [[0x05, 0x00]]\<rparr>"
  have 3: "cli_Write [0x05, 0x00] (s\<lparr>tn_in := c2\<rparr>) = Some (?s, Inr ())" using assms(4) by (simp add: cli_Write_def)
  have "concat (tn_in ?s) = [0x05, 0x01, 0x00, hd ?a] @ tl ?a @ rest"
    using 2(2) SerializeAddr_atyp [OF assms(1), of port] by (cases ?a) simp_all
  then obtain c4 where 4: "readN 4 ?s = Some (?s\<lparr>tn_in := c4\<rparr>, Inr [0x05, 0x01, 0x00, hd ?a])" "concat c4 = tl ?a @ rest"
    by (rule readN_received [where n = 4]) simp_all
  obtain cs where 5: "socksRequest env now [0x05, 0x01, 0x00, hd ?a] (?s\<lparr>tn_in := c4\<rparr>) =
      socksConnect (sv_tun env) now (hd ?a) (target_host domain ip) port (?s\<lparr>tn_in := c4, tn_in := cs\<rparr>)" "concat cs = rest"
    using socksRequest_connect [OF assms(1,2), of "?s\<lparr>tn_in := c4\<rparr>" rest env now] 4(2) by auto
  have k: "(0x00 :: byte) \<in> set [0x00] \<longleftrightarrow> True" "(0x05 :: byte) \<noteq> 0x05 \<longleftrightarrow> False" "(0x00 :: byte) = 0xFF \<longleftrightarrow> False"
    "[0x05 :: byte, 0x01] ! 0 = 0x05" "unat ([0x05 :: byte, 0x01] ! 1) = 1" by simp_all
  have "socks5Handler env now s = c_bind (socksRequest env now [0x05, 0x01, 0x00, hd ?a]) closeHere (?s\<lparr>tn_in := c4\<rparr>)"
    unfolding socks5Handler_def c_bind_def [of _ closeHere] c_or_eval [where m = "readN 2", OF 1(1)] k if_False if_True
      c_or_eval [where m = "readN 1", OF 2(1)] Let_def c_or_eval [where m = "cli_Write [0x05, 0x00]", OF 3]
      c_or_eval [where m = "readN 4", OF 4(1)] by (rule refl)
  also have "\<dots> = c_bind (socksConnect (sv_tun env) now (hd ?a) (target_host domain ip) port) closeHere (s\<lparr>tn_in := cs, tn_out := tn_out s @ [[0x05, 0x00]]\<rparr>)"
    unfolding c_bind_def [of _ closeHere] 5(1) by (simp add: tun_swap)
  finally show thesis using that 5(2) by blast
qed

text \<open>The reply a plan leads to, the connection made for it, and what the client makes of the reply.\<close>

definition socks_verdict :: "tun_env \<Rightarrow> DialPlan go \<Rightarrow> byte" where
  "socks_verdict tv r =
     (case r of
        Inl e \<Rightarrow> socks5RepServerFailure
      | Inr plan \<Rightarrow>
          if dp_Blocked plan \<or> p_Mode (dp_Policy plan) = ModeBlock then socks5RepConnNotAllowed
          else if p_ReplyFirst (dp_Policy plan) = BoolTrue then socks5RepSuccess
          else if p_ConnectTimeout (dp_Policy plan) < 0 then socks5RepServerFailure
          else case tv_dial tv (TargetAddress plan) of Inl e \<Rightarrow> socks5RepServerFailure | Inr c \<Rightarrow> socks5RepSuccess)"

definition socks_dialled :: "tun_env \<Rightarrow> DialPlan go \<Rightarrow> (conn \<times> bool) list" where
  "socks_dialled tv r =
     (case r of
        Inr plan \<Rightarrow>
          if socks_verdict tv r = socks5RepSuccess \<and> p_ReplyFirst (dp_Policy plan) \<noteq> BoolTrue
          then (case tv_dial tv (TargetAddress plan) of Inl e \<Rightarrow> [] | Inr c \<Rightarrow> [(c, True)]) else []
      | _ \<Rightarrow> [])"

definition client_verdict :: "byte \<Rightarrow> bytes go" where
  "client_verdict rep = (if rep = 0 then Inr zeroAddr else Inl (Error (''CONNECT: '' @ Reply_String rep)))"

lemma ClientHandshake_reply:
  "\<exists>k. ClientHandshake a CmdConnect None \<lparr>sk_in = concat [[0x05, 0x00], replyBytes rep NoAddr], sk_out = [], sk_fault = (\<lambda>_. None)\<rparr> =
    Some (k, client_verdict rep) \<and> sk_out k = [[0x05, 0x01, 0x00], [0x05, 0x01, 0x00] @ a]"
  by (simp add: ClientHandshake_def c_bind_def sk_Write_def sk_ReadFull_def ReadAddr_def client_verdict_def replyBytes_def zeroAddr_def
      socks_consts Command_String_def MaxAddrLen_def)

abbreviation socks_request :: "string \<Rightarrow> nat \<Rightarrow> RequestContext" where
  "socks_request host port \<equiv>
     \<lparr>rc_Source = RequestSourceSOCKS5, rc_Host = host, rc_Port = int port, rc_DomainTargetMode = ResolveDomainTarget\<rparr>"

lemma sendReply_eval:
  "tn_cliFault s (length (tn_out s)) = None \<Longrightarrow> sendReply rep s = Some (s\<lparr>tn_out := tn_out s @ [replyBytes rep NoAddr]\<rparr>, Inr ())"
  by (simp add: sendReply_def sendReplyWithAddr_def c_bind_def c_try_def cli_Write_def)

lemma socksDial_eval:
  "socksDial tv plan s =
    (if p_ReplyFirst (dp_Policy plan) = BoolTrue then Some (s, Inr None)
     else if p_ConnectTimeout (dp_Policy plan) < 0 then Some (s, Inl (Error (''dial tcp '' @ TargetAddress plan @ '': i/o timeout'')))
     else case tv_dial tv (TargetAddress plan) of
       Inl e \<Rightarrow> Some (s, Inl e)
     | Inr c \<Rightarrow> Some (s\<lparr>tn_conns := tn_conns s @ [(c, True)]\<rparr>, Inr (Some (length (tn_conns s)))))"
  by (simp add: socksDial_def DialTimeout_def c_bind_def split: sum.split)

text \<open>The tunnel that serves a plan, on the connection number \<open>n\<close> unless it has yet to be dialled.\<close>

definition socks_tunnel :: "tun_env \<Rightarrow> instant \<Rightarrow> string \<Rightarrow> DialPlan \<Rightarrow> nat \<Rightarrow> socks_end tun" where
  "socks_tunnel tv now host plan n =
     (let first = (p_ReplyFirst (dp_Policy plan) = BoolTrue) in
      c_bind (handleTunnel tv now (dp_Policy plan) first (if first then None else Some n) (TargetAddress plan) host) (\<lambda>t. c_return (Tunnelled t)))"

lemma socksPlanned_verdict:
  assumes "dp_Blocked plan \<Longrightarrow> p_ReplyFirst (dp_Policy plan) \<noteq> BoolTrue" "\<not> is_panic (tv_dial tv (TargetAddress plan))" "tn_cliFault s = (\<lambda>_. None)"
  shows "socksPlanned tv now atyp host plan s =
    (if socks_verdict tv (Inr plan) = socks5RepSuccess then socks_tunnel tv now host plan (length (tn_conns s)) else c_return (Closed []))
      (s\<lparr>tn_conns := tn_conns s @ socks_dialled tv (Inr plan), tn_out := tn_out s @ [replyBytes (socks_verdict tv (Inr plan)) NoAddr]\<rparr>)"
proof -
  let ?p = "dp_Policy plan"
  have r: "c_bind (sendReply rep) f s' = f () (s'\<lparr>tn_out := tn_out s' @ [replyBytes rep NoAddr]\<rparr>)" if "tn_cliFault s' = (\<lambda>_. None)" for rep f s'
    by (rule c_bind_eval(1) [OF sendReply_eval]) (simp add: that)
  consider (refused) "dp_Blocked plan \<or> p_Mode ?p = ModeBlock"
    | (first) "\<not> dp_Blocked plan" "p_Mode ?p \<noteq> ModeBlock" "p_ReplyFirst ?p = BoolTrue"
    | (late) "\<not> dp_Blocked plan" "p_Mode ?p \<noteq> ModeBlock" "p_ReplyFirst ?p \<noteq> BoolTrue" "p_ConnectTimeout ?p < 0"
    | (failed) m where "\<not> dp_Blocked plan" "p_Mode ?p \<noteq> ModeBlock" "p_ReplyFirst ?p \<noteq> BoolTrue" "\<not> p_ConnectTimeout ?p < 0"
        "tv_dial tv (TargetAddress plan) = Inl (Error m)"
    | (dialled) c where "\<not> dp_Blocked plan" "p_Mode ?p \<noteq> ModeBlock" "p_ReplyFirst ?p \<noteq> BoolTrue" "\<not> p_ConnectTimeout ?p < 0"
        "tv_dial tv (TargetAddress plan) = Inr c"
    using assms(2) by (cases "tv_dial tv (TargetAddress plan)" rule: is_panic.cases) auto
  then show ?thesis
  proof cases
    case refused
    then show ?thesis using assms(1) by (cases "dp_Blocked plan") (auto simp: socksPlanned_def Let_def r [OF assms(3)] socks_verdict_def socks_dialled_def socks5_codes)
  next
    case first
    then have "c_try (socksDial tv plan) s = Some (s, Inr (Inr None))" by (simp add: c_try_def socksDial_eval)
    with first show ?thesis
      by (simp add: socksPlanned_def c_bind_eval(1) [where m = "c_try (socksDial tv plan)"] r [OF assms(3)] socks_verdict_def socks_dialled_def socks_tunnel_def Let_def)
  next
    case late
    then have "\<exists>m. c_try (socksDial tv plan) s = Some (s, Inr (Inl (Error m)))" by (simp add: c_try_def socksDial_eval)
    with late show ?thesis
      by (auto simp: socksPlanned_def Let_def c_bind_eval(1) [where m = "c_try (socksDial tv plan)"] r [OF assms(3)] socks_verdict_def socks_dialled_def socks5_codes)
  next
    case (failed m)
    then have "c_try (socksDial tv plan) s = Some (s, Inr (Inl (Error m)))" by (simp add: c_try_def socksDial_eval)
    with failed show ?thesis
      by (auto simp: socksPlanned_def Let_def c_bind_eval(1) [where m = "c_try (socksDial tv plan)"] r [OF assms(3)] socks_verdict_def socks_dialled_def socks5_codes)
  next
    case (dialled c)
    then have "c_try (socksDial tv plan) s = Some (s\<lparr>tn_conns := tn_conns s @ [(c, True)]\<rparr>, Inr (Inr (Some (length (tn_conns s)))))"
      by (simp add: c_try_def socksDial_eval)
    with dialled assms(3) show ?thesis
      by (simp add: socksPlanned_def c_bind_eval(1) [where m = "c_try (socksDial tv plan)"] r socks_verdict_def socks_dialled_def socks_tunnel_def Let_def)
  qed
qed

lemma socksConnect_verdict:
  assumes "PlanRequest (tv_dial_env tv) now True (socks_request host port) (tn_core s) = Some (core, r)" "\<not> is_panic r"
    and "\<And>plan. r = Inr plan \<Longrightarrow> plan_wf (socks_request host port) plan" "\<And>t. \<not> is_panic (tv_dial tv t)" "tn_cliFault s = (\<lambda>_. None)"
  shows "socksConnect tv now atyp host port s =
    (if socks_verdict tv r = socks5RepSuccess then socks_tunnel tv now host (projr r) (length (tn_conns s)) else c_return (Closed []))
      (s\<lparr>tn_core := core, tn_out := tn_out s @ [replyBytes (socks_verdict tv r) NoAddr], tn_conns := tn_conns s @ socks_dialled tv r\<rparr>)"
proof (cases r)
  case (Inl e)
  then obtain m where "e = Error m" using assms(2) by (cases e) auto
  then have "c_try (on_core (PlanRequest (tv_dial_env tv) now True (socks_request host port))) s = Some (s\<lparr>tn_core := core\<rparr>, Inr (Inl (Error m)))"
    using assms(1) Inl by (simp add: c_try_def on_core_def c_zoom_def)
  then show ?thesis unfolding socksConnect_def using assms(5) Inl
    by (simp add: c_bind_eval(1) c_bind_eval(1) [OF sendReply_eval] socks_verdict_def socks_dialled_def socks5_codes)
next
  case (Inr plan)
  then have t: "c_try (on_core (PlanRequest (tv_dial_env tv) now True (socks_request host port))) s = Some (s\<lparr>tn_core := core\<rparr>, Inr (Inr plan))"
    using assms(1) by (simp add: c_try_def on_core_def c_zoom_def)
  have b: "p_ReplyFirst (dp_Policy plan) \<noteq> BoolTrue" if "dp_Blocked plan"
    using assms(3) [OF Inr] that by (simp add: plan_wf_def zeroPolicy_def)
  have "socksConnect tv now atyp host port s = socksPlanned tv now atyp host plan (s\<lparr>tn_core := core\<rparr>)"
    unfolding socksConnect_def c_bind_eval(1) [where m = "c_try (on_core _)", OF t] by simp
  also have "\<dots> = (if socks_verdict tv r = socks5RepSuccess then socks_tunnel tv now host plan (length (tn_conns s)) else c_return (Closed []))
    (s\<lparr>tn_core := core, tn_conns := tn_conns s @ socks_dialled tv r, tn_out := tn_out s @ [replyBytes (socks_verdict tv r) NoAddr]\<rparr>)"
    using socksPlanned_verdict [of plan tv "s\<lparr>tn_core := core\<rparr>" now atyp host] b Inr assms(4,5) by simp
  also have "s\<lparr>tn_core := core, tn_conns := tn_conns s @ socks_dialled tv r, tn_out := tn_out s @ [replyBytes (socks_verdict tv r) NoAddr]\<rparr> =
      s\<lparr>tn_core := core, tn_out := tn_out s @ [replyBytes (socks_verdict tv r) NoAddr], tn_conns := tn_conns s @ socks_dialled tv r\<rparr>"
    by (cases s) simp
  finally show ?thesis using Inr by simp
qed

lemma closeHere_tunnel: "c_bind (socks_tunnel tv now host plan n) closeHere = socks_tunnel tv now host plan n"
  by (rule ext) (auto simp: socks_tunnel_def c_bind_def closeHere_def Let_def split: option.split sum.split prod.split)

text \<open>
  C31: A SOCKS connection, with the client of tun2socks at one end and the server at the other.  When the
  server reads what the client writes to reach a target, in whatever chunks it arrives and whatever follows, it plans
  exactly that host and port, and the client that reads what the server writes has sent just those bytes and returns the
  server's verdict.  A request that cannot be planned or dialled, or that the rules do not allow, is
  refused with the reply for it and closed, without a destination; any other is acknowledged, after the connection to the
  target of the plan was made unless the policy says to reply first, and is handed to
  the tunnel with the bytes that follow the request unread.
\<close>

theorem socks_connect_interop:
  assumes "dial_env_ok (tv_dial_env (sv_tun env))" "core_inv (tn_core s)" "\<And>t. \<not> is_panic (tv_dial (sv_tun env) t)"
    and "target_ok domain ip" "port < 65536" "tn_cliFault s = (\<lambda>_. None)" "tn_out s = []"
    and "concat (tn_in s) = concat (connect_writes domain ip port) @ rest"
  shows "\<exists>core r cs. PlanRequest (tv_dial_env (sv_tun env)) now True (socks_request (target_host domain ip) port) (tn_core s) = Some (core, r) \<and>
    concat cs = rest \<and>
    (let rep = socks_verdict (sv_tun env) r; out = [[0x05, 0x00], replyBytes rep NoAddr];
         s1 = s\<lparr>tn_core := core, tn_in := cs, tn_out := out, tn_conns := tn_conns s @ socks_dialled (sv_tun env) r\<rparr>
     in (\<exists>k. ClientHandshake (SerializeAddr domain ip port) CmdConnect None \<lparr>sk_in = concat out, sk_out = [], sk_fault = (\<lambda>_. None)\<rparr> =
           Some (k, client_verdict rep) \<and> sk_out k = connect_writes domain ip port) \<and>
        socks5Handler env now s =
          (if rep = socks5RepSuccess then socks_tunnel (sv_tun env) now (target_host domain ip) (projr r) (length (tn_conns s)) s1
           else Some (s1\<lparr>tn_cliOpen := False\<rparr>, Inr (Closed []))))"
proof -
  let ?tv = "sv_tun env" and ?host = "target_host domain ip" and ?a = "SerializeAddr domain ip port"
  obtain core r where p: "PlanRequest (tv_dial_env ?tv) now True (socks_request ?host port) (tn_core s) = Some (core, r)" "\<not> is_panic r"
      "\<And>plan. r = Inr plan \<Longrightarrow> plan_wf (socks_request ?host port) plan"
    by (rule c_safeD [OF PlanRequest_safe [OF assms(1)] assms(2), of now "socks_request ?host port"]) fastforce+
  obtain cs where h: "socks5Handler env now s = c_bind (socksConnect ?tv now (hd ?a) ?host port) closeHere (s\<lparr>tn_in := cs, tn_out := [[0x05, 0x00]]\<rparr>)"
      "concat cs = rest"
    using socks5Handler_connect [OF assms(4,5,8), of env now] assms(6,7) by auto
  let ?s = "s\<lparr>tn_in := cs, tn_out := [[0x05, 0x00]]\<rparr>"
  let ?rep = "socks_verdict ?tv r"
  let ?s1 = "s\<lparr>tn_core := core, tn_in := cs, tn_out := [[0x05, 0x00], replyBytes ?rep NoAddr], tn_conns := tn_conns s @ socks_dialled ?tv r\<rparr>"
  have "socksConnect ?tv now (hd ?a) ?host port ?s =
      (if ?rep = socks5RepSuccess then socks_tunnel ?tv now ?host (projr r) (length (tn_conns s)) else c_return (Closed []))
        (?s\<lparr>tn_core := core, tn_out := [[0x05, 0x00], replyBytes ?rep NoAddr], tn_conns := tn_conns s @ socks_dialled ?tv r\<rparr>)"
    using socksConnect_verdict [of ?tv now ?host port ?s core r "hd ?a"] p assms(3,6) by simp
  also have "?s\<lparr>tn_core := core, tn_out := [[0x05, 0x00], replyBytes ?rep NoAddr], tn_conns := tn_conns s @ socks_dialled ?tv r\<rparr> = ?s1"
    by (cases s) simp
  finally have c: "socksConnect ?tv now (hd ?a) ?host port ?s =
      (if ?rep = socks5RepSuccess then socks_tunnel ?tv now ?host (projr r) (length (tn_conns s)) else c_return (Closed [])) ?s1" .
  have "c_bind (socksConnect ?tv now (hd ?a) ?host port) closeHere ?s =
      (if ?rep = socks5RepSuccess then c_bind (socks_tunnel ?tv now ?host (projr r) (length (tn_conns s))) closeHere ?s1
       else c_bind (c_return (Closed [])) closeHere ?s1)"
    unfolding c_bind_def [of "socksConnect ?tv now (hd ?a) ?host port"] c by (simp add: c_bind_def)
  then have "socks5Handler env now s = (if ?rep = socks5RepSuccess then socks_tunnel ?tv now ?host (projr r) (length (tn_conns s)) ?s1
       else Some (?s1\<lparr>tn_cliOpen := False\<rparr>, Inr (Closed [])))"
    unfolding h(1) closeHere_tunnel by (simp add: closeHere_def)
  then show ?thesis using p(1) h(2) ClientHandshake_reply [of ?a ?rep] unfolding Let_def connect_writes_def by blast
qed


section \<open>A sample server\<close>

definition sampleSocks :: socks_env where
  "sampleSocks = \<lparr>sv_tun = sampleTunEnv, sv_listen = Inr (Some (IP4 0x7F000001), 1080), sv_resolve = (\<lambda>_. Inr (Some (IP4 0x08080808), 53)),
     sv_datagrams = []\<rparr>"

theorem socks_udp_roundtrip_witness:
  "(\<exists>packet. EncodeUDPPacket (Some (SerializeAddr ''a.b'' None 53)) [1, 2] = Inr packet \<and>
      udpRelayStep (sv_resolve sampleSocks) None ((Some (IP4 0x7F000001), 1000), packet) =
        (Some (Some (IP4 0x7F000001), 1000), Some ([1, 2], (Some (IP4 0x08080808), 53)))) \<and>
    (\<exists>packet addr. udpRelayStep (sv_resolve sampleSocks) (Some (Some (IP4 0x7F000001), 1000)) ((Some (IP4 0x08080808), 53), [3]) =
        (Some (Some (IP4 0x7F000001), 1000), Some (packet, (Some (IP4 0x7F000001), 1000))) \<and>
      DecodeUDPPacket packet = (Some addr, [3], None) \<and> Addr_UDPAddr addr = Some (Some (IP4 0x08080808), 53))"
proof -
  have "Endpoint_String (Some (IP4 0x08080808), 53) \<noteq> Endpoint_String (Some (IP4 0x7F000001), 1000)"
    using encodeSocksUDPAddr_endpoint [of "IP4 0x08080808" 53] encodeSocksUDPAddr_endpoint [of "IP4 0x7F000001" 1000]
    by (auto simp: encodeSocksUDPAddr_def SerializeAddr_def put16_def)
  then show ?thesis
    using socks_udp_roundtrip [of "''a.b''" None 53 "[1, 2]" "IP4 0x08080808" 53 "[3]" "(Some (IP4 0x7F000001), 1000)" "sv_resolve sampleSocks"]
    by (simp add: target_ok_def SerializeAddr_def sampleSocks_def)
qed

theorem socks_connect_interop_witness:
  "\<exists>cs. socks5Handler sampleSocks 0 (sampleTun (concat (connect_writes ''a.b'' None 443))) =
      Some ((sampleTun [])\<lparr>tn_in := cs, tn_out := [[0x05, 0x00], replyBytes 2 NoAddr], tn_cliOpen := False\<rparr>, Inr (Closed [])) \<and> concat cs = [] \<and>
    (\<exists>k. ClientHandshake (SerializeAddr ''a.b'' None 443) CmdConnect None
        \<lparr>sk_in = concat [[0x05, 0x00], replyBytes 2 NoAddr], sk_out = [], sk_fault = (\<lambda>_. None)\<rparr> =
      Some (k, Inl (Error ''CONNECT: connection not allowed by ruleset'')))"
proof -
  let ?s = "sampleTun (concat (connect_writes ''a.b'' None 443))" and ?r = "socks_request ''a.b'' 443"
  have "domainRule sampleDial ''a.b'' = Some blockPolicy"
    by (simp add: domainRule_def classifyDomainRoute_def sampleDial_def sampleEnv_def sample_find ToLower_def lower_eval)
  moreover have "ParseIP ''a.b'' = None" by (simp add: ParseIP_def ParseAddr_def parseIPv4_def netip_eval)
  ultimately obtain plan where p: "PlanRequest sampleDial 0 True ?r sampleCore = Some (sampleCore, Inr plan)" "dp_Blocked plan"
    using PlanRequest_blocked [of ?r sampleDial blockPolicy 0 True sampleCore] by (auto simp: blockPolicy_def)
  have v: "socks_verdict sampleTunEnv (Inr plan) = 2" "socks_dialled sampleTunEnv (Inr plan) = []"
    using p(2) by (simp_all add: socks_verdict_def socks_dialled_def socks5_codes)
  have f: "sv_tun sampleSocks = sampleTunEnv" "tv_dial_env sampleTunEnv = sampleDial" "tn_core ?s = sampleCore" "target_host ''a.b'' None = ''a.b''"
    "tn_cliFault ?s = (\<lambda>_. None)" "tn_out ?s = []" "concat (tn_in ?s) = concat (connect_writes ''a.b'' None 443) @ []"
    "\<And>t. \<not> is_panic (tv_dial sampleTunEnv t)" "target_ok ''a.b'' None"
    by (simp_all add: sampleSocks_def sampleTunEnv_def sampleTun_def target_host_def target_ok_def)
  show ?thesis
    using socks_connect_interop [of sampleSocks ?s "''a.b''" None 443 "[]" 0, unfolded f(1-4,6), OF sampleDial_ok sampleCore_inv f(8,9) _ f(5) refl f(7)] p
    by (auto simp: v Let_def socks5_codes client_verdict_def Reply_String_def sampleTun_def)
qed

end
