(* ===== verification/Http_Proxy.thy ===== *)
theory Http_Proxy
  imports Socks5_Server
begin

text \<open>
  The HTTP proxy, \<^verbatim>\<open>src/internal/http.go\<close>: CONNECT requests, which take over the client's connection and hand it to
  the tunnel, and other requests, which are sent on by an HTTP transport.  The transport and whether a connection can be taken over are
  parameters; a request and a response are given by their parts.  Of the header fields of an error response only
  those the code sets are kept.
\<close>

section \<open>Requests and responses\<close>

text \<open>Header fields by canonical name, each with its values.\<close>

type_synonym http_header = "(string, string list) gomap"

definition Header_Del :: "string \<Rightarrow> http_header \<Rightarrow> http_header" where
  "Header_Del k h = AList.delete k h"

definition Header_Get :: "string \<Rightarrow> http_header \<Rightarrow> string" where
  "Header_Get k h = (case map_of h k of Some (v # vs) \<Rightarrow> v | _ \<Rightarrow> [])"

definition Header_Set :: "string \<Rightarrow> string \<Rightarrow> http_header \<Rightarrow> http_header" where
  "Header_Set k v h = AList.update k [v] h"

text \<open>
  A request to the proxy; \<open>pr_RequestURI\<close> is \<^verbatim>\<open>URL.RequestURI()\<close>.  A response is its status, header and body.
\<close>

record proxy_request =
  pr_Method :: string
  pr_Host :: string
  pr_Scheme :: string
  pr_URLHost :: string
  pr_RequestURI :: string
  pr_Header :: http_header
  pr_Body :: bytes

record http_response =
  resp_Status :: int
  resp_Header :: http_header
  resp_Body :: bytes

text \<open>
  The surroundings: whether the connection of the client can be taken over, and the transport, which sends a
  request with a timeout for the dial, if one is set.
\<close>

record http_env =
  hv_tun :: tun_env
  hv_hijack :: "unit go"
  hv_RoundTrip :: "duration option \<Rightarrow> proxy_request \<Rightarrow> http_response go"

text \<open>
  What became of a request: nothing was answered, for which the server sends an empty response with the status 200; it was
  answered here; it was sent on and its response was returned; the connection was taken over
  and closed, or handed to the tunnel.
\<close>

datatype http_end =
    NoAnswer
  | Answered http_response
  | Forwarded "duration option" proxy_request http_response
  | Hijacked
  | HTTPTunnelled tunnel_end

definition http_Error :: "string \<Rightarrow> int \<Rightarrow> http_end" where
  "http_Error text code = Answered \<lparr>resp_Status = code, resp_Header = [], resp_Body = bytes_of_string (text @ [CHR 0x0A])\<rparr>"

text \<open>\<^verbatim>\<open>WriteHeader\<close> panics on a status that does not have three digits.\<close>

definition WriteHeader :: "int \<Rightarrow> unit go" where
  "WriteHeader code = (if 100 \<le> code \<and> code \<le> 999 then Inr () else Inl (Panic (''invalid WriteHeader code '' @ Itoa code)))"

definition status500 :: string where "status500 = ''500 Internal Server Error''"
definition status403 :: string where "status403 = ''403 Forbidden''"

section \<open>CONNECT\<close>

definition badGateway :: bytes where "badGateway = bytes_of_string (''HTTP/1.1 502 Bad Gateway'' @ [CHR 0x0D, CHR 0x0A, CHR 0x0D, CHR 0x0A])"

definition established :: bytes where
  "established = bytes_of_string (''HTTP/1.1 200 Connection Established'' @ [CHR 0x0D, CHR 0x0A, CHR 0x0D, CHR 0x0A])"

text \<open>The deferred function closes the client.\<close>

definition closeClient :: "http_end tun" where
  "closeClient = c_bind (c_modify (\<lambda>s. s\<lparr>tn_cliOpen := False\<rparr>)) (\<lambda>_. c_return Hijacked)"

definition connectPlanned :: "http_env \<Rightarrow> instant \<Rightarrow> string \<Rightarrow> DialPlan \<Rightarrow> http_end tun" where
  "connectPlanned env now originHost plan =
     (let tv = hv_tun env; p = dp_Policy plan; dest = TargetAddress plan; replyFirst = (p_ReplyFirst p = BoolTrue) in
      if dp_Blocked plan then c_return (http_Error status403 403)
      else if p_Mode p = ModeBlock then c_return (http_Error [] 403)
      else case hv_hijack env of
        Inl e \<Rightarrow> c_return (http_Error status500 500)
      | Inr _ \<Rightarrow>
          c_bind (c_try (if replyFirst then c_return None
                         else c_bind (DialTimeout tv dest (p_ConnectTimeout p)) (\<lambda>i. c_return (Some i)))) (\<lambda>d.
          case d of
            Inl e \<Rightarrow> c_bind (c_try (cli_Write badGateway)) (\<lambda>_. closeClient)
          | Inr dstConn \<Rightarrow>
              c_bind (c_try (cli_Write established)) (\<lambda>w.
              case w of
                Inl e \<Rightarrow> closeClient
              | Inr _ \<Rightarrow> c_bind (handleTunnel tv now p replyFirst dstConn dest originHost) (\<lambda>t. c_return (HTTPTunnelled t)))))"

definition handleConnect :: "http_env \<Rightarrow> instant \<Rightarrow> proxy_request \<Rightarrow> http_end tun" where
  "handleConnect env now req =
     (if pr_Host req = [] then c_return (http_Error [] 400)
      else case SplitHostPort (pr_Host req) of
        Inl e \<Rightarrow> c_return NoAnswer
      | Inr (originHost, dstPort) \<Rightarrow>
          (case Atoi dstPort of
             Inl e \<Rightarrow> c_return NoAnswer
           | Inr port \<Rightarrow>
               c_bind (c_try (on_core (PlanRequest (tv_dial_env (hv_tun env)) now True
                 \<lparr>rc_Source = RequestSourceHTTP, rc_Host = originHost, rc_Port = port, rc_DomainTargetMode = ResolveDomainTarget\<rparr>))) (\<lambda>r.
               case r of
                 Inl e \<Rightarrow> c_return (http_Error status500 500)
               | Inr plan \<Rightarrow> connectPlanned env now originHost plan)))"

section \<open>Other requests\<close>

text \<open>The host and port a request is for.\<close>

definition forwardHost :: "proxy_request \<Rightarrow> string" where
  "forwardHost req = (if pr_Host req \<noteq> [] then pr_Host req else pr_URLHost req)"

definition forwardTarget :: "proxy_request \<Rightarrow> string \<Rightarrow> string \<times> string" where
  "forwardTarget req host =
     (case SplitHostPort host of
        Inr (h, port) \<Rightarrow> (h, port)
      | Inl e \<Rightarrow> (host, if pr_Scheme req = ''https'' then ''443'' else ''80''))"

text \<open>The request that is sent on.\<close>

definition outRequest :: "proxy_request \<Rightarrow> string \<Rightarrow> proxy_request" where
  "outRequest req targetAddr =
     (let h = Header_Del ''Proxy-Connection'' (Header_Del ''Proxy-Authorization'' (pr_Header req)) in
      req\<lparr>pr_URLHost := targetAddr, pr_Host := targetAddr,
        pr_Scheme := (if pr_Scheme req = [] then ''http'' else pr_Scheme req),
        pr_Header := (if Header_Get ''Connection'' h = [] then Header_Set ''Connection'' ''close'' h else h)\<rparr>)"

definition forwardPlanned :: "http_env \<Rightarrow> proxy_request \<Rightarrow> string \<Rightarrow> DialPlan \<Rightarrow> http_end go" where
  "forwardPlanned env req host plan =
     (let p = dp_Policy plan in
      if p_HttpStatus p \<noteq> 0 \<and> p_HttpStatus p \<noteq> -1 then
        let scheme = (if pr_Scheme req = [] then ''https'' else pr_Scheme req);
            location = scheme @ ''://'' @ host @ pr_RequestURI req
        in go_bind (WriteHeader (p_HttpStatus p)) (\<lambda>_. Inr (Answered \<lparr>resp_Status = p_HttpStatus p,
             resp_Header = (if p_HttpStatus p = 301 \<or> p_HttpStatus p = 302 then [(''Location'', [location])] else []), resp_Body = []\<rparr>))
      else if p_Mode p = ModeBlock then Inr (http_Error status403 403)
      else
        let out = outRequest req (TargetAddress plan);
            timeout = (if p_ConnectTimeout p > 0 then Some (p_ConnectTimeout p) else None)
        in case hv_RoundTrip env timeout out of
             Inl e \<Rightarrow> Inr (http_Error ''502 Bad Gateway'' 502)
           | Inr resp \<Rightarrow> go_bind (WriteHeader (resp_Status resp)) (\<lambda>_. Inr (Forwarded timeout out resp)))"

definition forwardHTTPRequest :: "http_env \<Rightarrow> instant \<Rightarrow> proxy_request \<Rightarrow> http_end tun" where
  "forwardHTTPRequest env now req =
     (let host = forwardHost req in
      if host = [] then c_return (http_Error ''400 Bad Request'' 400)
      else
        let (originHost, port) = forwardTarget req host in
        case Atoi port of
          Inl e \<Rightarrow> c_return (http_Error ''400 Bad Request'' 400)
        | Inr portNum \<Rightarrow>
            c_bind (c_try (on_core (PlanRequest (tv_dial_env (hv_tun env)) now True
              \<lparr>rc_Source = RequestSourceHTTP, rc_Host = originHost, rc_Port = portNum, rc_DomainTargetMode = PreserveDomainTarget\<rparr>))) (\<lambda>r.
            case r of
              Inl e \<Rightarrow> c_return (http_Error status500 500)
            | Inr plan \<Rightarrow> c_lift (forwardPlanned env req host plan)))"

text \<open>The number of a request: the counter after it, and the number.\<close>

definition httpNextID :: "32 word \<Rightarrow> 32 word \<times> 32 word" where
  "httpNextID httpConnID = (let connID = httpConnID + 1 in if connID > 0xFFFFF then (0, 0) else (connID, connID))"

definition httpHandler :: "http_env \<Rightarrow> instant \<Rightarrow> proxy_request \<Rightarrow> http_end tun" where
  "httpHandler env now req =
     (if pr_Method req = ''CONNECT'' then handleConnect env now req
      else if pr_Scheme req = [] then c_return (http_Error ''403 Forbidden'' 403)
      else forwardHTTPRequest env now req)"

section \<open>Properties\<close>

lemma on_core_plan:
  assumes "PlanRequest env now logger req (tn_core s) = Some (tn_core s, Inr plan)"
  shows "c_try (on_core (PlanRequest env now logger req)) s = Some (s, Inr (Inr plan))"
  using assms by (simp add: on_core_def c_zoom_def c_try_def)

text \<open>
  C33: The HTTP proxy refuses to connect to a host that a rule blocks, but it does not refuse a plain request for it: the
  request is sent on, to the port it is for on the machine of the proxy itself, with that address as its host, and
  the response is returned as the host's.
\<close>

theorem http_blocked_host_forwarded:
  assumes "domainRule (tv_dial_env (hv_tun env)) host = Some rule" "p_Mode rule = ModeBlock" "host \<noteq> []" "ParseIP host = None"
    and "SplitHostPort (pr_Host req) = Inr (host, portText)" "Atoi portText = Inr port" "0 < port"
    and "pr_Method req \<noteq> ''CONNECT''" "pr_Scheme req \<noteq> []"
    and "hv_RoundTrip env None (outRequest req ('':'' @ formatInt port)) = Inr resp" "resp_Status resp \<in> {100..999}"
  shows "httpHandler env now (req\<lparr>pr_Method := ''CONNECT''\<rparr>) s = Some (s, Inr (http_Error status403 403)) \<and>
    httpHandler env now req s = Some (s, Inr (Forwarded None (outRequest req ('':'' @ formatInt port)) resp))"
proof -
  let ?r = "\<lambda>m. \<lparr>rc_Source = RequestSourceHTTP, rc_Host = host, rc_Port = port, rc_DomainTargetMode = m\<rparr>"
  have h: "pr_Host req \<noteq> []" using assms(5) by (auto simp: SplitHostPort_def)
  let ?plan = "\<lparr>dp_Source = RequestSourceHTTP, dp_OriginHost = host, dp_OriginPort = port, dp_RecoveredDomain = [], dp_MatchedDomain = True,
    dp_MatchedIP = False, dp_TargetHost = [], dp_TargetPort = port, dp_Policy = zeroPolicy, dp_Blocked = True\<rparr>"
  have p: "c_try (on_core (PlanRequest (tv_dial_env (hv_tun env)) now True (?r m))) s = Some (s, Inr (Inr ?plan))" for m
    using PlanRequest_blocked [of "?r m" "tv_dial_env (hv_tun env)" rule now True "tn_core s"] assms(1-4) by (intro on_core_plan) simp
  have z: "p_HttpStatus zeroPolicy = 0" "p_Mode zeroPolicy = ModeUnknown" "p_ConnectTimeout zeroPolicy = 0" by (simp_all add: zeroPolicy_def)
  have q: "c_bind (c_try (on_core (PlanRequest (tv_dial_env (hv_tun env)) now True (?r m)))) f s = f (Inr ?plan) s"
    for m and f :: "DialPlan go \<Rightarrow> http_end tun" by (rule c_bind_eval(1)) (rule p)
  have t: "TargetAddress ?plan = '':'' @ formatInt port" using assms(7) by (simp add: TargetAddress_def JoinHostPort_def)
  have "httpHandler env now (req\<lparr>pr_Method := ''CONNECT''\<rparr>) s = Some (s, Inr (http_Error status403 403))"
    using h unfolding httpHandler_def handleConnect_def
    by (simp add: assms(5,6) q connectPlanned_def)
  moreover have "httpHandler env now req s = Some (s, Inr (Forwarded None (outRequest req ('':'' @ formatInt port)) resp))"
    using h assms(8-11) unfolding httpHandler_def forwardHTTPRequest_def
    by (simp add: forwardHost_def forwardTarget_def assms(5,6) q forwardPlanned_def t z Let_def WriteHeader_def)
  ultimately show ?thesis by blast
qed


section \<open>A sample request\<close>

definition sampleHttpEnv :: http_env where
  "sampleHttpEnv = \<lparr>hv_tun = sampleTunEnv, hv_hijack = Inr (),
     hv_RoundTrip = (\<lambda>timeout req. Inr \<lparr>resp_Status = 200, resp_Header = [], resp_Body = [1]\<rparr>)\<rparr>"

definition sampleProxyRequest :: proxy_request where
  "sampleProxyRequest = \<lparr>pr_Method = ''GET'', pr_Host = ''a.b:80'', pr_Scheme = ''http'', pr_URLHost = ''a.b:80'', pr_RequestURI = ''/'',
     pr_Header = [(''Proxy-Authorization'', [''x''])], pr_Body = []\<rparr>"

theorem http_blocked_host_forwarded_witness:
  "httpHandler sampleHttpEnv 0 sampleProxyRequest (sampleTun []) = Some (sampleTun [], Inr (Forwarded None
     \<lparr>pr_Method = ''GET'', pr_Host = '':80'', pr_Scheme = ''http'', pr_URLHost = '':80'', pr_RequestURI = ''/'',
       pr_Header = [(''Connection'', [''close''])], pr_Body = []\<rparr>
     \<lparr>resp_Status = 200, resp_Header = [], resp_Body = [1]\<rparr>))"
proof -
  have r: "domainRule (tv_dial_env (hv_tun sampleHttpEnv)) ''a.b'' = Some blockPolicy" "p_Mode blockPolicy = ModeBlock"
    by (simp_all add: sampleHttpEnv_def sampleTunEnv_def domainRule_def classifyDomainRoute_def sampleDial_def sampleEnv_def sample_find ToLower_def lower_eval)
      (simp add: blockPolicy_def)
  have i: "ParseIP ''a.b'' = None" by (simp add: ParseIP_def ParseAddr_def parseIPv4_def netip_eval)
  have "SplitHostPort (JoinHostPort ''a.b'' ''80'') = Inr (''a.b'', ''80'')" by (rule SplitHostPort_JoinHostPort) simp_all
  then have h: "SplitHostPort (pr_Host sampleProxyRequest) = Inr (''a.b'', ''80'')" by (simp add: JoinHostPort_def sampleProxyRequest_def)
  have a: "Atoi ''80'' = Inr 80" by (simp add: Atoi_def netip_eval)
  have f: "formatInt 80 = ''80''" by (simp add: formatInt_def Itoa_def string_of_nat.simps)
  have "httpHandler sampleHttpEnv 0 sampleProxyRequest (sampleTun []) = Some (sampleTun [], Inr (Forwarded None (outRequest sampleProxyRequest ('':'' @ formatInt 80))
     \<lparr>resp_Status = 200, resp_Header = [], resp_Body = [1]\<rparr>))"
    using http_blocked_host_forwarded [OF r _ i h a, of "\<lparr>resp_Status = 200, resp_Header = [], resp_Body = [1]\<rparr>" 0 "sampleTun []"]
    by (simp add: sampleProxyRequest_def sampleHttpEnv_def)
  then show ?thesis unfolding f
    by (simp add: outRequest_def sampleProxyRequest_def Header_Del_def Header_Get_def Header_Set_def)
qed

end
