(* ===== verification/Policy_Conn.thy ===== *)
theory Policy_Conn
  imports Tunnel
begin

text \<open>
  The wrapped connection of the VPN, \<^verbatim>\<open>src/internal/tun_bridge.go\<close>: what an application writes is held back until its first
  TLS record is complete, and the record is sent as the plan of the connection says.

  The state \<open>policyConn\<close> has the fields of the struct, the log of the connection to the destination and the state of the search
  for hop limits.  \<open>Write_incomplete\<close>, \<open>Write_complete\<close> and \<open>Writes_handled\<close> are the three phases of
  such a connection; \<open>pc_send_reassembles\<close> collects what the modes send.  \<open>unparsed_tail_repeated\<close> and
  \<open>alert_to_destination\<close> are two of its faults.
\<close>

section \<open>The wrapped connection\<close>

text \<open>
  The connection to the destination with whether it is open, the flags, what was written but not yet handled, and the
  state of the search for hop limits.  The mutex makes the writes sequential.
\<close>

record policyConn =
  pc_Conn :: conn
  pc_open :: bool
  pc_handled :: bool
  pc_closed :: bool
  pc_pending :: bytes
  pc_ttl :: ttl_state

type_synonym 'a pco = "(policyConn, 'a) comp"

definition WrapTCPConn :: "conn \<Rightarrow> ttl_state \<Rightarrow> policyConn" where
  "WrapTCPConn c t = \<lparr>pc_Conn = c, pc_open = True, pc_handled = False, pc_closed = False, pc_pending = [], pc_ttl = t\<rparr>"

definition pc_io :: "'a io \<Rightarrow> 'a pco" where
  "pc_io m = (\<lambda>s. let (r, c) = m (pc_Conn s) in Some (s\<lparr>pc_Conn := c\<rparr>, r))"

definition flushPendingLocked :: "unit pco" where
  "flushPendingLocked = (\<lambda>s.
     (if pc_pending s = [] then c_modify (\<lambda>s. s\<lparr>pc_handled := True\<rparr>)
      else
        c_bind (pc_io (conn_Write (pc_pending s))) (\<lambda>_.
        c_modify (\<lambda>s. s\<lparr>pc_handled := True, pc_pending := []\<rparr>))) s)"

definition pc_sendTLSAlert :: "bytes option \<Rightarrow> byte \<Rightarrow> byte \<Rightarrow> unit pco" where
  "pc_sendTLSAlert ver desc level =
     (let v = (case ver of None \<Rightarrow> [] | Some v \<Rightarrow> v) in
      c_bind (c_lift (go_index v 0)) (\<lambda>v0.
      c_bind (c_lift (go_index v 1)) (\<lambda>v1.
      c_bind (c_try (pc_io (conn_Write [0x15, v0, v1, 0x00, 0x02, level, desc]))) (\<lambda>_. c_return ()))))"

text \<open>Closing the connection, after an alert or not, with the error \<^verbatim>\<open>io.EOF\<close>.\<close>

definition pc_deny :: "unit pco \<Rightarrow> 'a pco" where
  "pc_deny alert =
     c_bind (c_modify (\<lambda>s. s\<lparr>pc_closed := True\<rparr>)) (\<lambda>_.
     c_bind alert (\<lambda>_.
     c_bind (c_modify (\<lambda>s. s\<lparr>pc_open := False\<rparr>)) (\<lambda>_. c_fail ''EOF'')))"

text \<open>The mode of the rule for the server name, if there is one.\<close>

definition pc_sniMode :: "tun_env \<Rightarrow> bytes \<Rightarrow> helloInfo \<Rightarrow> Mode option pco" where
  "pc_sniMode env record info =
     (if sniPos info > 0 \<and> sniLen info > 0 then
        c_bind (c_lift (go_slice record (sniPos info) (sniPos info + sniLen info))) (\<lambda>sni.
        c_return (map_option (\<lambda>dp. p_Mode (mergePolicies [dp, de_defaultPolicy (tv_dial_env env)]))
          (Option.bind (env_domainMatcher (de_dns (tv_dial_env env))) (\<lambda>m. DomainMatcher_Find m (string_of_bytes sni)))))
      else c_return None)"

definition pc_fakeTTL :: "tun_env \<Rightarrow> instant \<Rightarrow> Policy \<Rightarrow> string \<Rightarrow> bool \<Rightarrow> int pco" where
  "pc_fakeTTL env now p host ipv6 =
     (if p_FakeTTL p = 0 \<or> p_FakeTTL p = unsetInt then
        (\<lambda>s. let (t, r) = getFakeTTL (tv_ttl env) now p host ipv6 (pc_ttl s) in Some (s\<lparr>pc_ttl := t\<rparr>, r))
      else c_return (p_FakeTTL p))"

definition pc_send :: "tun_env \<Rightarrow> instant \<Rightarrow> DialPlan \<Rightarrow> bytes \<Rightarrow> int \<Rightarrow> int \<Rightarrow> unit pco" where
  "pc_send env now plan record pos len =
     (let p = dp_Policy plan in
      case p_Mode p of
        ModeTLSRF \<Rightarrow>
          pc_io (sendRecords record pos len (p_NumRecords p) (p_NumSegments p) (p_OOB p = BoolTrue) (p_OOBEx p = BoolTrue)
            (p_ModMinorVer p = BoolTrue) (p_SendInterval p))
      | ModeTTLD \<Rightarrow>
          let ipv6 = (dp_TargetHost plan \<noteq> [] \<and> hd (dp_TargetHost plan) = CHR ''['') in
          c_bind (pc_fakeTTL env now p (dp_TargetHost plan) ipv6) (\<lambda>ttl.
          pc_io (desyncSend (tv_sys env) record pos len ttl (p_FakeSleep p)))
      | _ \<Rightarrow> pc_io (conn_Write record))"

definition handleTLSLocked :: "tun_env \<Rightarrow> instant \<Rightarrow> DialPlan \<Rightarrow> bytes \<Rightarrow> unit pco" where
  "handleTLSLocked env now plan record =
     c_bind (c_lift (parseClientHello record)) (\<lambda>info.
     if hello_err info \<noteq> None then flushPendingLocked
     else if p_Mode (dp_Policy plan) = ModeTLSAlert then
       pc_deny (pc_sendTLSAlert (prtVer info) tlsAlertAccessDenied tlsAlertLevelFatal)
     else if p_TLS13Only (dp_Policy plan) = BoolTrue \<and> \<not> hasKeyShare info then
       pc_deny (pc_sendTLSAlert (prtVer info) tlsAlertProtocolVersion tlsAlertLevelFatal)
     else
       c_bind (pc_sniMode env record info) (\<lambda>m.
       if m = Some ModeBlock then pc_deny (c_return ())
       else if m = Some ModeTLSAlert then pc_deny (pc_sendTLSAlert (prtVer info) tlsAlertAccessDenied tlsAlertLevelFatal)
       else pc_send env now plan record (sniPos info) (sniLen info)))"

definition closedOn :: "unit go \<Rightarrow> unit pco" where
  "closedOn r = c_modify (\<lambda>s. s\<lparr>pc_closed := (case r of Inl e \<Rightarrow> True | Inr _ \<Rightarrow> False)\<rparr>)"

text \<open>A complete TLS record at the beginning of what is pending, and what follows it.\<close>

definition handleRecord :: "tun_env \<Rightarrow> instant \<Rightarrow> DialPlan \<Rightarrow> bytes \<Rightarrow> bytes \<Rightarrow> bool pco" where
  "handleRecord env now plan record tail =
     c_bind (c_try (handleTLSLocked env now plan record)) (\<lambda>r.
     case r of
       Inl e \<Rightarrow> c_bind (c_modify (\<lambda>s. s\<lparr>pc_closed := True\<rparr>)) (\<lambda>_. c_return True)
     | Inr _ \<Rightarrow>
         c_bind (c_modify (\<lambda>s. s\<lparr>pc_handled := True, pc_pending := []\<rparr>)) (\<lambda>_.
         if tail \<noteq> [] then
           c_bind (c_try (pc_io (conn_Write tail))) (\<lambda>q.
           case q of
             Inl e \<Rightarrow> c_bind (c_modify (\<lambda>s. s\<lparr>pc_closed := True\<rparr>)) (\<lambda>_. c_return True)
           | Inr _ \<Rightarrow> c_return True)
         else c_return True))"

definition tryHandlePendingLocked :: "tun_env \<Rightarrow> instant \<Rightarrow> DialPlan \<Rightarrow> bool pco" where
  "tryHandlePendingLocked env now plan = (\<lambda>s.
     (let pending = pc_pending s; mode = p_Mode (dp_Policy plan) in
      if pending = [] then c_return False
      else if dp_Blocked plan \<or> mode = ModeBlock then
        c_bind (c_modify (\<lambda>s. s\<lparr>pc_closed := True, pc_open := False\<rparr>)) (\<lambda>_. c_return True)
      else if mode = ModeRaw then
        c_bind (c_try flushPendingLocked) (\<lambda>r. c_bind (closedOn r) (\<lambda>_. c_return True))
      else if length pending < 5 then c_return False
      else if pending ! 0 = 0x16 \<and> pending ! 1 = 0x03 then
        let recordLen = 5 + be16 (pending ! 3) (pending ! 4) in
        if length pending < recordLen then c_return False
        else handleRecord env now plan (take recordLen pending) (drop recordLen pending)
      else
        c_bind (c_modify (\<lambda>s. s\<lparr>pc_handled := True\<rparr>)) (\<lambda>_.
        c_bind (c_try flushPendingLocked) (\<lambda>r. c_bind (closedOn r) (\<lambda>_. c_return True)))) s)"

definition policyConn_Write :: "tun_env \<Rightarrow> instant \<Rightarrow> DialPlan \<Rightarrow> bytes \<Rightarrow> nat pco" where
  "policyConn_Write env now plan b = (\<lambda>s.
     (if pc_closed s then c_fail ''EOF''
      else if pc_handled s then c_bind (pc_io (conn_Write b)) (\<lambda>_. c_return (length b))
      else
        c_bind (c_modify (\<lambda>s. s\<lparr>pc_pending := pc_pending s @ b\<rparr>)) (\<lambda>_.
        c_bind (tryHandlePendingLocked env now plan) (\<lambda>_. c_return (length b)))) s)"

text \<open>\<^verbatim>\<open>DefaultDialTimeout\<close>.\<close>

definition DefaultDialTimeout :: "Policy \<Rightarrow> duration" where
  "DefaultDialTimeout p = (if p_ConnectTimeout p > 0 then p_ConnectTimeout p else 10 * second)"

section \<open>A sequence of writes\<close>

fun policyConn_Writes :: "tun_env \<Rightarrow> instant \<Rightarrow> DialPlan \<Rightarrow> bytes list \<Rightarrow> unit pco" where
  "policyConn_Writes env now plan [] = c_return ()"
| "policyConn_Writes env now plan (b # bs) = c_bind (policyConn_Write env now plan b) (\<lambda>_. policyConn_Writes env now plan bs)"

lemma pc_io_emits: "emits m es \<Longrightarrow> healthy (pc_Conn s) \<Longrightarrow> pc_io m s = Some (s\<lparr>pc_Conn := (pc_Conn s)\<lparr>conn_log := conn_log (pc_Conn s) @ es\<rparr>\<rparr>, Inr ())"
  by (simp add: pc_io_def yields_healthy)

text \<open>Once the first packet has been handled, the writes go through.\<close>

lemma Writes_handled:
  assumes "pc_handled s" "\<not> pc_closed s" "healthy (pc_Conn s)"
  shows "policyConn_Writes env now plan bs s =
    Some (s\<lparr>pc_Conn := (pc_Conn s)\<lparr>conn_log := conn_log (pc_Conn s) @ map Write bs\<rparr>\<rparr>, Inr ())"
  using assms
proof (induction bs arbitrary: s)
  case (Cons b bs)
  let ?s = "s\<lparr>pc_Conn := (pc_Conn s)\<lparr>conn_log := conn_log (pc_Conn s) @ [Write b]\<rparr>\<rparr>"
  have "policyConn_Write env now plan b s = Some (?s, Inr (length b))"
    using Cons.prems pc_io_emits [OF yields_Write, of s b] by (simp add: policyConn_Write_def c_bind_def c_modify_def)
  then show ?case using Cons.IH [of ?s] Cons.prems by (simp add: c_bind_def)
qed simp

text \<open>Until the record is complete, what is written is kept.\<close>

definition inspected :: "DialPlan \<Rightarrow> bool" where
  "inspected plan \<longleftrightarrow> \<not> dp_Blocked plan \<and> p_Mode (dp_Policy plan) \<notin> {ModeBlock, ModeRaw}"

lemma Write_incomplete:
  assumes "inspected plan" "tls_record packet" "length packet = record_length packet"
    and "pc_pending s @ b = take n packet" "n < length packet" "\<not> pc_closed s" "\<not> pc_handled s"
  shows "policyConn_Write env now plan b s = Some (s\<lparr>pc_pending := take n packet\<rparr>, Inr (length b))"
proof -
  have "take n packet ! i = packet ! i" if "5 \<le> n" "i < 5" for i using that by simp
  then have "tryHandlePendingLocked env now plan (s\<lparr>pc_pending := take n packet\<rparr>) = Some (s\<lparr>pc_pending := take n packet\<rparr>, Inr False)"
    using assms(1-3,5) by (auto simp: tryHandlePendingLocked_def inspected_def tls_record_def record_length_def Let_def)
  then show ?thesis using assms(4,6,7) by (simp add: policyConn_Write_def c_bind_def c_modify_def)
qed

lemma Write_complete:
  assumes "inspected plan" "tls_record packet" "length packet = record_length packet"
    and "pc_pending s @ b = packet @ tail" "\<not> pc_closed s" "\<not> pc_handled s"
  shows "policyConn_Write env now plan b s =
    c_bind (handleRecord env now plan packet tail) (\<lambda>_. c_return (length b)) (s\<lparr>pc_pending := packet @ tail\<rparr>)"
proof -
  have n: "5 \<le> length packet" using assms(3) by (simp add: record_length_def)
  then have "(packet @ tail) ! i = packet ! i" if "i < 5" for i using that by (simp add: nth_append)
  then have "tryHandlePendingLocked env now plan (s\<lparr>pc_pending := packet @ tail\<rparr>) = handleRecord env now plan packet tail (s\<lparr>pc_pending := packet @ tail\<rparr>)"
    using assms(1-3) n by (auto simp: tryHandlePendingLocked_def inspected_def tls_record_def record_length_def Let_def)
  then show ?thesis using assms(4-6) by (simp add: policyConn_Write_def c_bind_def c_modify_def)
qed

section \<open>What is allowed arrives\<close>

text \<open>What the plan, or the rule of the server name, denies.\<close>

definition pc_denied :: "tun_env \<Rightarrow> DialPlan \<Rightarrow> bytes \<Rightarrow> helloInfo \<Rightarrow> bool" where
  "pc_denied env plan packet info \<longleftrightarrow>
     p_Mode (dp_Policy plan) = ModeTLSAlert \<or> p_TLS13Only (dp_Policy plan) = BoolTrue \<and> \<not> hasKeyShare info
     \<or> 0 < sniLen info \<and> (\<exists>m dp. env_domainMatcher (de_dns (tv_dial_env env)) = Some m \<and> DomainMatcher_Find m (sni_of packet info) = Some dp
        \<and> p_Mode (mergePolicies [dp, de_defaultPolicy (tv_dial_env env)]) \<in> {ModeBlock, ModeTLSAlert})"

definition pc_sends_all :: "tun_env \<Rightarrow> instant \<Rightarrow> DialPlan \<Rightarrow> ttl_state \<Rightarrow> bool" where
  "pc_sends_all env now plan t \<longleftrightarrow>
     (let p = dp_Policy plan in
      case p_Mode p of
        ModeTLSRF \<Rightarrow> 1 \<le> p_NumRecords p \<and> 1 \<le> p_NumSegments p \<and> \<not> (p_OOB p = BoolTrue \<and> p_OOBEx p = BoolTrue)
      | ModeTTLD \<Rightarrow> sys_ok (tv_sys env) \<and>
          (p_FakeTTL p \<notin> {0, unsetInt} \<or>
           (\<exists>ttl. snd (getFakeTTL (tv_ttl env) now p (dp_TargetHost plan) (dp_TargetHost plan \<noteq> [] \<and> hd (dp_TargetHost plan) = CHR ''['') t) = Inr ttl))
      | _ \<Rightarrow> True)"

lemma pc_fakeTTL_known:
  assumes "p_FakeTTL p \<notin> {0, unsetInt} \<or> (\<exists>ttl. snd (getFakeTTL (tv_ttl env) now p host v6 (pc_ttl s)) = Inr ttl)"
  shows "\<exists>t ttl. pc_fakeTTL env now p host v6 s = Some (s\<lparr>pc_ttl := t\<rparr>, Inr ttl)"
proof (cases "p_FakeTTL p \<in> {0, unsetInt}")
  case True
  then show ?thesis using assms by (cases "getFakeTTL (tv_ttl env) now p host v6 (pc_ttl s)") (auto simp: pc_fakeTTL_def)
next
  case False
  then show ?thesis by (intro exI [of _ "pc_ttl s"] exI [of _ "p_FakeTTL p"]) (simp add: pc_fakeTTL_def)
qed

lemma pc_send_reassembles:
  assumes "pc_sends_all env now plan (pc_ttl s)" "58 \<le> pos" "0 \<le> len" "pos + len < int (length d)"
    and "length d = record_length d" "length d < 65536" "healthy (pc_Conn s)"
  shows "\<exists>t es. pc_send env now plan d pos len s =
    Some (s\<lparr>pc_ttl := t, pc_Conn := (pc_Conn s)\<lparr>conn_log := conn_log (pc_Conn s) @ es\<rparr>\<rparr>, Inr ()) \<and> reassembles es d"
proof -
  let ?p = "dp_Policy plan"
  have whole: "reassembles es d" if "received es = d" for es
    using deframe_whole [OF assms(5), of False] that by (auto simp: reassembles_def minorVersion_def)
  consider "p_Mode ?p = ModeTLSRF" | "p_Mode ?p = ModeTTLD" | "p_Mode ?p \<notin> {ModeTLSRF, ModeTTLD}" by auto
  then show ?thesis
  proof cases
    case 1
    then have r: "1 \<le> p_NumRecords ?p" "1 \<le> p_NumSegments ?p" "\<not> (p_OOB ?p = BoolTrue \<and> p_OOBEx ?p = BoolTrue)"
      using assms(1) by (auto simp: pc_sends_all_def Let_def)
    obtain es where "emits (sendRecords d pos len (p_NumRecords ?p) (p_NumSegments ?p) (p_OOB ?p = BoolTrue) (p_OOBEx ?p = BoolTrue)
            (p_ModMinorVer ?p = BoolTrue) (p_SendInterval ?p)) es" "reassembles es d"
      by (rule delivers_reassembles [OF assms(2-6) r])
    then show ?thesis using 1 pc_io_emits [OF _ assms(7)]
      by (intro exI [of _ "pc_ttl s"] exI [of _ es]) (simp add: pc_send_def Let_def)
  next
    case 2
    let ?v6 = "dp_TargetHost plan \<noteq> [] \<and> hd (dp_TargetHost plan) = CHR ''[''"
    have y: "sys_ok (tv_sys env)" using 2 assms(1) by (simp add: pc_sends_all_def Let_def)
    obtain t ttl where t: "pc_fakeTTL env now ?p (dp_TargetHost plan) ?v6 s = Some (s\<lparr>pc_ttl := t\<rparr>, Inr ttl)"
      using pc_fakeTTL_known [of ?p env now "dp_TargetHost plan" ?v6 s] 2 assms(1) by (auto simp: pc_sends_all_def Let_def)
    obtain pivot found where f: "findLastDot d pos len = Inr (pivot, found)" "pos \<le> pivot" "pivot \<le> pos + len"
      using findLastDot_bounds [of pos len d] assms(2-4) by auto
    let ?es = "[Noise ttl (fakeBytes d pos pivot found) (take (nat pivot) d) (max (p_FakeSleep ?p) minInterval), Write (drop (nat pivot) d)]"
    have e: "emits (desyncSend (tv_sys env) d pos len ttl (p_FakeSleep ?p)) ?es"
      by (rule desyncSend_emits [OF y _ assms(3,4) f(1)]) (use assms(2) in simp)
    then show ?thesis using 2 pc_io_emits [OF e, of "s\<lparr>pc_ttl := t\<rparr>"] assms(7) whole [of ?es]
      by (intro exI [of _ t] exI [of _ ?es]) (simp add: pc_send_def Let_def c_bind_eval(1) [where m = "pc_fakeTTL env now ?p (dp_TargetHost plan) ?v6", OF t])
  next
    case 3
    then show ?thesis using pc_io_emits [OF yields_Write assms(7)] whole [of "[Write d]"]
      by (intro exI [of _ "pc_ttl s"] exI [of _ "[Write d]"]) (auto simp: pc_send_def Let_def split: Mode.split)
  qed
qed

lemma handleTLSLocked_allowed:
  assumes "5 \<le> length packet" "parseClientHello packet = Inr info" "hello_err info = None" "0 < sniLen info"
    and "\<not> pc_denied env plan packet info"
  shows "handleTLSLocked env now plan packet s = pc_send env now plan packet (sniPos info) (sniLen info) s"
proof -
  obtain m where m: "m = map_option (\<lambda>dp. p_Mode (mergePolicies [dp, de_defaultPolicy (tv_dial_env env)]))
          (Option.bind (env_domainMatcher (de_dns (tv_dial_env env))) (\<lambda>m. DomainMatcher_Find m (sni_of packet info)))" by blast
  have d: "p_Mode (dp_Policy plan) \<noteq> ModeTLSAlert" "\<not> (p_TLS13Only (dp_Policy plan) = BoolTrue \<and> \<not> hasKeyShare info)" "0 < sniPos info"
    using assms(5) hello_parsed(2) [OF assms(1,2,4)] assms(4) by (auto simp: pc_denied_def)
  have n: "m \<noteq> Some ModeBlock" "m \<noteq> Some ModeTLSAlert"
    using assms(4,5) by (auto simp: m pc_denied_def bind_eq_Some_conv)
  have "pc_sniMode env packet info s = Some (s, Inr m)"
    using d(3) assms(4) hello_parsed(3) [OF assms(1,2,4)] by (simp add: pc_sniMode_def sni_of_def m)
  then have "c_bind (pc_sniMode env packet info) f s = f m s" for f :: "Mode option \<Rightarrow> unit pco" by (rule c_bind_eval(1))
  then show ?thesis using d n by (auto simp: handleTLSLocked_def assms(2,3))
qed

lemma handleRecord_sent:
  assumes "handleTLSLocked env now plan packet s = Some (s1, Inr ())" "healthy (pc_Conn s1)"
  shows "handleRecord env now plan packet tail s = Some (s1\<lparr>pc_handled := True, pc_pending := [],
    pc_Conn := (pc_Conn s1)\<lparr>conn_log := conn_log (pc_Conn s1) @ (if tail = [] then [] else [Write tail])\<rparr>\<rparr>, Inr True)"
proof -
  have t: "c_try (handleTLSLocked env now plan packet) s = Some (s1, Inr (Inr ()))" using assms(1) by (simp add: c_try_def)
  let ?s = "s1\<lparr>pc_handled := True, pc_pending := []\<rparr>"
  have "c_try (pc_io (conn_Write tail)) ?s = Some (?s\<lparr>pc_Conn := (pc_Conn ?s)\<lparr>conn_log := conn_log (pc_Conn ?s) @ [Write tail]\<rparr>\<rparr>, Inr (Inr ()))"
    using pc_io_emits [OF yields_Write, of ?s tail] assms(2) by (simp add: c_try_def)
  then show ?thesis unfolding handleRecord_def c_bind_eval(1) [where m = "c_try (handleTLSLocked env now plan packet)", OF t]
    by (simp add: c_bind_eval(1) [where m = "c_try (pc_io (conn_Write tail))"])
qed

lemma Writes_deliver:
  assumes "inspected plan" "tls_record packet" "length packet = record_length packet"
    and "parseClientHello packet = Inr info" "hello_err info = None" "0 < sniLen info" "sniPos info + sniLen info < int (length packet)"
    and "\<not> pc_denied env plan packet info" "length packet < 65536"
    and "pc_sends_all env now plan (pc_ttl s)" "healthy (pc_Conn s)"
    and "\<not> pc_closed s" "\<not> pc_handled s" "pc_pending s = take n packet" "n < length packet" "pc_pending s @ concat bs = packet @ rest"
  shows "\<exists>s' es ws. policyConn_Writes env now plan bs s = Some (s', Inr ()) \<and> reassembles es packet \<and> concat ws = rest
    \<and> pc_Conn s' = (pc_Conn s)\<lparr>conn_log := conn_log (pc_Conn s) @ es @ map Write ws\<rparr> \<and> pc_handled s' \<and> \<not> pc_closed s'"
  using assms(10-)
proof (induction bs arbitrary: s n)
  case Nil
  have "length (take n packet) = length (packet @ rest)" using Nil.prems(5,7) by (metis append_Nil2 concat.simps(1))
  then show ?case using Nil.prems(6) by simp
next
  case (Cons b bs)
  have pre: "pc_pending s @ b @ concat bs = packet @ rest" using Cons.prems(7) by simp
  show ?case
  proof (cases "length (pc_pending s @ b) < length packet")
    case True
    let ?n = "length (pc_pending s @ b)"
    have "pc_pending s @ b = take ?n ((pc_pending s @ b) @ concat bs)" by simp
    also have "\<dots> = take ?n packet" using True unfolding append_assoc pre by simp
    finally have eq: "pc_pending s @ b = take ?n packet" .
    have w: "policyConn_Write env now plan b s = Some (s\<lparr>pc_pending := take ?n packet\<rparr>, Inr (length b))"
      by (rule Write_incomplete [OF assms(1-3) eq True Cons.prems(3,4)])
    have "\<exists>s' es ws. policyConn_Writes env now plan bs (s\<lparr>pc_pending := take ?n packet\<rparr>) = Some (s', Inr ()) \<and> reassembles es packet \<and> concat ws = rest
        \<and> pc_Conn s' = (pc_Conn s)\<lparr>conn_log := conn_log (pc_Conn s) @ es @ map Write ws\<rparr> \<and> pc_handled s' \<and> \<not> pc_closed s'"
      using Cons.IH [of "s\<lparr>pc_pending := take ?n packet\<rparr>" ?n] Cons.prems(1-4) True pre unfolding eq [symmetric] by simp
    then show ?thesis using w by (simp add: c_bind_def)
  next
    case False
    then obtain tail where t: "pc_pending s @ b = packet @ tail" "rest = tail @ concat bs"
      using append_eq_append_conv2 [of "pc_pending s @ b" "concat bs" packet rest] pre by auto
    have n: "5 \<le> length packet" using assms(3) by (simp add: record_length_def)
    let ?s = "s\<lparr>pc_pending := packet @ tail\<rparr>"
    obtain u es where u: "handleTLSLocked env now plan packet ?s =
        Some (?s\<lparr>pc_ttl := u, pc_Conn := (pc_Conn ?s)\<lparr>conn_log := conn_log (pc_Conn ?s) @ es\<rparr>\<rparr>, Inr ())" "reassembles es packet"
      using pc_send_reassembles [of env now plan ?s "sniPos info" "sniLen info" packet] Cons.prems(1,2) assms(3,6,7) assms(9) hello_parsed(2) [OF n assms(4,6)]
      unfolding handleTLSLocked_allowed [OF n assms(4-6,8)] by auto
    let ?s1 = "s\<lparr>pc_ttl := u, pc_handled := True, pc_pending := [],
        pc_Conn := (pc_Conn s)\<lparr>conn_log := conn_log (pc_Conn s) @ es @ (if tail = [] then [] else [Write tail])\<rparr>\<rparr>"
    have "policyConn_Write env now plan b s = Some (?s1, Inr (length b))"
      unfolding Write_complete [OF assms(1-3) t(1) Cons.prems(3,4)]
      using handleRecord_sent [OF u(1), of tail] Cons.prems(2) by (simp add: c_bind_def)
    moreover have "policyConn_Writes env now plan bs ?s1 = Some (?s1\<lparr>pc_Conn := (pc_Conn ?s1)\<lparr>conn_log := conn_log (pc_Conn ?s1) @ map Write bs\<rparr>\<rparr>, Inr ())"
      by (rule Writes_handled) (use Cons.prems(2,3) in simp_all)
    ultimately have "policyConn_Writes env now plan (b # bs) s = Some (?s1\<lparr>pc_Conn := (pc_Conn ?s1)\<lparr>conn_log := conn_log (pc_Conn ?s1) @ map Write bs\<rparr>\<rparr>, Inr ())"
      by (simp add: c_bind_def)
    then show ?thesis using u(2) t(2) Cons.prems(3)
      by (intro exI [of _ "?s1\<lparr>pc_Conn := (pc_Conn ?s1)\<lparr>conn_log := conn_log (pc_Conn ?s1) @ map Write bs\<rparr>\<rparr>"] exI [of _ es]
          exI [of _ "(if tail = [] then [] else [tail]) @ bs"]) simp
  qed
qed


section \<open>Properties\<close>


lemma findLastDot_nowhere: "\<exists>msg. findLastDot d (-1) 0 = Inl (Panic msg)"
  by (simp add: findLastDot_def findLastDotLoop.simps go_index_def)

text \<open>The policies that cut the ClientHello at its server name.\<close>

definition cuts_at_name :: "tun_env \<Rightarrow> Policy \<Rightarrow> bool" where
  "cuts_at_name env p \<longleftrightarrow> p_Mode p = ModeTLSRF \<and> 2 \<le> p_NumRecords p
     \<or> p_Mode p = ModeTTLD \<and> p_FakeTTL p \<notin> {0, unsetInt} \<and> sys_ok (tv_sys env)"

lemma pc_send_nowhere:
  assumes "cuts_at_name env (dp_Policy plan)" "5 \<le> length d" "healthy (pc_Conn s)"
  shows "\<exists>s' msg. pc_send env now plan d (-1) 0 s = Some (s', Inl (Panic msg))"
proof -
  let ?p = "dp_Policy plan"
  obtain msg where m: "findLastDot x (-1) 0 = Inl (Panic (msg x))" for x using findLastDot_nowhere by metis
  have "\<exists>m c'. sendRecords d (-1) 0 (p_NumRecords ?p) a b e v t c = (Inl (Panic m), c')" if "2 \<le> p_NumRecords ?p" for a b e v t c
    using that assms(2) by (auto simp: sendRecords_def io_simps recordChunks_def m go_set_def Let_def go_bind_def)
  moreover have "\<exists>m c'. desyncSend (tv_sys env) d (-1) 0 ttl (p_FakeSleep ?p) (pc_Conn s) = (Inl (Panic m), c')" if "sys_ok (tv_sys env)" for ttl
    using that assms(3) by (auto simp: desyncSend_def io_simps m sys_ok_def sys_stage_def Let_def)
  ultimately show ?thesis using assms(1)
    by (auto simp: cuts_at_name_def pc_send_def pc_fakeTTL_def pc_io_def Let_def split: prod.splits) (metis prod.inject)+
qed

lemma encoded_record:
  assumes "hello_wf m"
  shows "tls_record (encode_hello m)" "length (encode_hello m) = record_length (encode_hello m)"
proof -
  let ?n = "length (encode_body m) + 4"
  have n: "?n < 65536" using assms by (simp add: hello_wf_def)
  have d: "encode_hello m ! 3 = put16 ?n ! 0" "encode_hello m ! 4 = put16 ?n ! 1"
    by (simp_all add: encode_hello_def put16_def Let_def)
  show "length (encode_hello m) = record_length (encode_hello m)"
    unfolding record_length_def d be16_put16 [OF n] by (simp add: encode_hello_def Let_def)
  show "tls_record (encode_hello m)" by (simp add: tls_record_def encode_hello_def Let_def)
qed

lemma parse_unnamed_hello:
  assumes wf: "hello_wf m" and none: "\<not> has_ext extTypeSNI (ch_extensions m)"
  shows "parseClientHello (encode_hello m) = Inr \<lparr>prtVer = Some (ch_version m), sniPos = -1, sniLen = 0,
    hasKeyShare = has_ext extTypeKeyShare (ch_extensions m), hello_err = None\<rparr>"
proof -
  obtain pfx where pfx: "encode_hello m = pfx @ encode_exts (ch_extensions m)"
    "length pfx = 9 + length (encode_fixed m) + 2" using encode_hello_split by blast
  let ?o = "int (length pfx)" and ?e = "int (length (encode_exts (ch_extensions m)))"
  have "parseClientHello (encode_hello m) = parseExtensions (encode_hello m) (Some (ch_version m)) (?o + ?e) (?o + ?e) (-1) 0
      (False \<or> has_ext extTypeKeyShare (ch_extensions m))"
    unfolding parse_fixed [OF wf, folded pfx(2)]
    by (rule parse_exts_before [OF hello_wf_exts [OF wf], of _ pfx "[]"]) (use none in \<open>simp_all add: pfx(1)\<close>)
  then show ?thesis by (subst (asm) parseExtensions.simps) (simp add: hello_def)
qed

text \<open>
  C35: A ClientHello without a server name brings the VPN down.  For a connection whose policy cuts the ClientHello into
  records or sends a fake packet with a fixed hop limit, the wrapped connection looks for the name at the
  position -1 and panics; the tunnel of the proxy servers sends such a ClientHello as it is.
\<close>

theorem policyConn_panics_without_name:
  assumes "inspected plan" "cuts_at_name env (dp_Policy plan)" "healthy c"
    and "hello_wf m" "\<not> has_ext extTypeSNI (ch_extensions m)"
    and "p_TLS13Only (dp_Policy plan) = BoolTrue \<Longrightarrow> has_ext extTypeKeyShare (ch_extensions m)"
  shows "\<exists>s' msg. policyConn_Write env now plan (encode_hello m) (WrapTCPConn c t) = Some (s', Inl (Panic msg))"
proof -
  let ?d = "encode_hello m" and ?s = "(WrapTCPConn c t)\<lparr>pc_pending := encode_hello m @ []\<rparr>"
  obtain s' msg where "pc_send env now plan ?d (-1) 0 ?s = Some (s', Inl (Panic msg))"
    using pc_send_nowhere [OF assms(2) encode_hello_length [of m], of ?s now] assms(3) by (auto simp: WrapTCPConn_def)
  moreover have "handleTLSLocked env now plan ?d ?s = pc_send env now plan ?d (-1) 0 ?s"
    using assms(2,6) by (auto simp: handleTLSLocked_def parse_unnamed_hello [OF assms(4,5)] pc_sniMode_def cuts_at_name_def)
  ultimately have "c_try (handleTLSLocked env now plan ?d) ?s = Some (s', Inl (Panic msg))" by (simp add: c_try_def)
  moreover have "pc_pending (WrapTCPConn c t) @ ?d = ?d @ []" "\<not> pc_closed (WrapTCPConn c t)" "\<not> pc_handled (WrapTCPConn c t)"
    by (simp_all add: WrapTCPConn_def)
  ultimately show ?thesis
    unfolding Write_complete [OF assms(1) encoded_record [OF assms(4)] \<open>pc_pending _ @ _ = _\<close> \<open>\<not> pc_closed _\<close> \<open>\<not> pc_handled _\<close>]
    by (simp add: handleRecord_def c_bind_def)
qed

text \<open>
  What follows a record that is not a ClientHello is sent twice: first with the record, then again by itself.
\<close>

lemma unparsed_tail_repeated:
  assumes "inspected plan" "tls_record packet" "length packet = record_length packet"
    and "parseClientHello packet = Inr info" "hello_err info \<noteq> None" "tail \<noteq> []" "healthy c"
  shows "\<exists>s'. policyConn_Write env now plan (packet @ tail) (WrapTCPConn c t) = Some (s', Inr (length (packet @ tail)))
    \<and> conn_log (pc_Conn s') = conn_log c @ [Write (packet @ tail), Write tail]"
proof -
  let ?s = "(WrapTCPConn c t)\<lparr>pc_pending := packet @ tail\<rparr>"
  let ?s1 = "?s\<lparr>pc_Conn := c\<lparr>conn_log := conn_log c @ [Write (packet @ tail)]\<rparr>, pc_handled := True, pc_pending := []\<rparr>"
  have "flushPendingLocked ?s = Some (?s1, Inr ())"
    using pc_io_emits [OF yields_Write, of ?s "packet @ tail"] assms(6,7) by (simp add: flushPendingLocked_def WrapTCPConn_def c_bind_def c_modify_def)
  then have h: "handleTLSLocked env now plan packet ?s = Some (?s1, Inr ())" using assms(4,5) by (simp add: handleTLSLocked_def)
  have w: "pc_pending (WrapTCPConn c t) @ packet @ tail = packet @ tail" "\<not> pc_closed (WrapTCPConn c t)" "\<not> pc_handled (WrapTCPConn c t)"
    by (simp_all add: WrapTCPConn_def)
  show ?thesis unfolding Write_complete [OF assms(1-3) w]
    using handleRecord_sent [OF h, of tail] assms(6,7) by (simp add: c_bind_def)
qed

text \<open>The alert that tells a client that it is denied is written to the destination.\<close>

lemma alert_to_destination:
  assumes "inspected plan" "tls_record packet" "length packet = record_length packet"
    and "parseClientHello packet = Inr info" "hello_err info = None" "p_Mode (dp_Policy plan) = ModeTLSAlert" "healthy c"
  shows "\<exists>s' a b. policyConn_Write env now plan packet (WrapTCPConn c t) = Some (s', Inr (length packet)) \<and> pc_closed s'
    \<and> conn_log (pc_Conn s') = conn_log c @ [Write [0x15, a, b, 0x00, 0x02, tlsAlertLevelFatal, tlsAlertAccessDenied]]"
proof -
  have "5 \<le> length packet" using assms(3) by (simp add: record_length_def)
  then obtain a b where v: "prtVer info = Some [a, b]" using hello_parsed(1) [OF _ assms(4,5)] by blast
  let ?s = "(WrapTCPConn c t)\<lparr>pc_pending := packet @ []\<rparr>"
  let ?s1 = "?s\<lparr>pc_closed := True, pc_Conn := c\<lparr>conn_log := conn_log c @ [Write [0x15, a, b, 0x00, 0x02, tlsAlertLevelFatal, tlsAlertAccessDenied]]\<rparr>, pc_open := False\<rparr>"
  have "c_try (handleTLSLocked env now plan packet) ?s = Some (?s1, Inr (Inl (Error ''EOF'')))"
    using assms(6,7) by (simp add: handleTLSLocked_def assms(4,5) v pc_deny_def pc_sendTLSAlert_def go_index_def c_bind_def c_modify_def c_try_def
        WrapTCPConn_def pc_io_emits [OF yields_Write])
  moreover have w: "pc_pending (WrapTCPConn c t) @ packet = packet @ []" "\<not> pc_closed (WrapTCPConn c t)" "\<not> pc_handled (WrapTCPConn c t)"
    by (simp_all add: WrapTCPConn_def)
  ultimately show ?thesis unfolding Write_complete [OF assms(1-3) w] by (simp add: handleRecord_def c_bind_def c_modify_def)
qed

section \<open>Samples\<close>

definition rfPlan :: DialPlan where
  "rfPlan = \<lparr>dp_Source = RequestSourceMobile, dp_OriginHost = ''a.b'', dp_OriginPort = 443, dp_RecoveredDomain = [], dp_MatchedDomain = True,
     dp_MatchedIP = False, dp_TargetHost = ''1.1.1.1'', dp_TargetPort = 443, dp_Policy = rfPolicy, dp_Blocked = False\<rparr>"

definition ruleless :: tun_env where
  "ruleless = sampleTunEnv\<lparr>tv_dial_env := sampleDial\<lparr>de_dns := sampleEnv None\<rparr>\<rparr>"

abbreviation freshConn :: conn where "freshConn \<equiv> \<lparr>conn_log = [], conn_fault = (\<lambda>_. None)\<rparr>"


theorem policyConn_panics_without_name_witness:
  "\<exists>s' msg. policyConn_Write ruleless 0 rfPlan (encode_hello (exampleHello\<lparr>ch_extensions := [(extTypeKeyShare, [])]\<rparr>))
    (WrapTCPConn freshConn \<lparr>ts_ttlCache = None, ts_dials = 0\<rparr>) = Some (s', Inl (Panic msg))"
proof -
  let ?m = "exampleHello\<lparr>ch_extensions := [(extTypeKeyShare, [])]\<rparr>"
  have "hello_wf ?m" by (simp add: hello_wf_def exampleHello_def encode_body_def encode_fixed_def extTypeKeyShare_def encode_ext_def)
  then show ?thesis
    by (intro policyConn_panics_without_name)
      (simp_all add: inspected_def cuts_at_name_def rfPlan_def rfPolicy_def zeroPolicy_def healthy_def extTypeSNI_def extTypeKeyShare_def)
qed

end
