(* ===== verification/Config_Load.thy ===== *)
theory Config_Load
  imports Http_Proxy Policy_Conn
begin

text \<open>
  Loading the configuration, \<^verbatim>\<open>src/internal/config.go\<close>: the file is decoded into \<open>Config\<close>, its parts are installed in the variables of the
  package, the record \<open>globals\<close>, and the way to the DNS server is set up, with \<open>genDialContext\<close> and the connection \<open>interceptConn\<close> when
  the server is reached over HTTPS.

  On the paths where loading fails the variables are those the code has assigned by then, except that \<open>gl_dohConnPolicy\<close> is set only when
  \<open>genDialContext\<close> succeeds, that \<open>cs_pools\<close> leaves out pools that are null and that a pool whose \<^verbatim>\<open>Init\<close> fails keeps its state from
  before.  The error of a document that does not decode is that of the first field of the struct with an
  error, where the decoder reports the first one of the document.

  \<open>LoadConfig_safe\<close> and \<open>LoadConfig_installs\<close> are what loading establishes; the section on surprising effects has the
  configurations whose effect is not the one their author would expect.
\<close>

section \<open>Decoding the configuration\<close>

text \<open>Values of the types the other structs do not have.\<close>

fun jbool :: "json \<Rightarrow> bool go" where
  "jbool (JBool b) = Inr b"
| "jbool _ = Inl (Error ''json: cannot unmarshal into Go value of type bool'')"

fun juint16 :: "json \<Rightarrow> nat go" where
  "juint16 (JInt i) = (if 0 \<le> i \<and> i < 65536 then Inr (nat i)
     else Inl (Error ''json: cannot unmarshal number into Go value of type uint16''))"
| "juint16 _ = Inl (Error ''json: cannot unmarshal into Go value of type uint16'')"

text \<open>A map: the members of an object are added to it, null makes it \<^verbatim>\<open>nil\<close>.\<close>

fun jentries :: "(json \<Rightarrow> 'a go) \<Rightarrow> (string, 'a) gomap \<Rightarrow> (string \<times> json) list \<Rightarrow> (string, 'a) gomap go" where
  "jentries dec m [] = Inr m"
| "jentries dec m ((k, v) # ms) = go_bind (dec v) (\<lambda>x. jentries dec (AList.update k x m) ms)"

fun jmap :: "(json \<Rightarrow> 'a go) \<Rightarrow> (string, 'a) gomap \<Rightarrow> json list \<Rightarrow> (string, 'a) gomap go" where
  "jmap dec m [] = Inr m"
| "jmap dec m (JNull # vs) = jmap dec [] vs"
| "jmap dec m (JObj ms # vs) = go_bind (jentries dec m ms) (\<lambda>m1. jmap dec m1 vs)"
| "jmap dec m (_ # vs) = Inl (Error ''json: cannot unmarshal into Go value of type map'')"

text \<open>A policy; null has the effect of an object without members.  A pool is a pointer, which null makes \<^verbatim>\<open>nil\<close>.\<close>

fun policyJSON :: "json \<Rightarrow> Policy go" where
  "policyJSON (JObj b) = Policy_UnmarshalJSON b"
| "policyJSON JNull = Policy_UnmarshalJSON []"
| "policyJSON _ = Inl (Error ''json: cannot unmarshal into Go value of type Policy'')"

fun poolJSON :: "(string \<Rightarrow> addr list go) \<Rightarrow> json \<Rightarrow> IPPool option go" where
  "poolJSON lookupIP (JObj b) = go_bind (IPPool_UnmarshalJSON lookupIP b) (\<lambda>p. Inr (Some p))"
| "poolJSON lookupIP JNull = Inr None"
| "poolJSON lookupIP _ = Inl (Error ''json: cannot unmarshal into Go value of type IPPool'')"

record Config =
  cf_LogLevel :: string
  cf_TransmitFileLimit :: int
  cf_Socks5Addr :: string
  cf_HttpAddr :: string
  cf_DNSAddr :: string
  cf_UDPSize :: nat
  cf_DoHProxy :: string
  cf_FakeTTLRules :: string
  cf_DNSSingleflight :: bool
  cf_DNSCacheTTL :: int
  cf_DNSCacheCapacity :: int
  cf_TTLSingleflight :: bool
  cf_TTLCacheTTL :: int
  cf_TTLCacheCapacity :: int
  cf_IPPools :: "(string, IPPool option) gomap"
  cf_DefaultPolicy :: Policy
  cf_DomainPolicies :: "(string, Policy) gomap"
  cf_IpPolicies :: "(string, Policy) gomap"

definition decodeFields :: "(string \<Rightarrow> addr list go) \<Rightarrow> (string \<times> json) list \<Rightarrow> Config go" where
  "decodeFields lookupIP b =
     go_bind (jvalue jstring [] (jmembers b ''log_level'')) (\<lambda>vLogLevel.
     go_bind (jvalue jint 0 (jmembers b ''transmit_file_limit'')) (\<lambda>vTransmitFileLimit.
     go_bind (jvalue jstring [] (jmembers b ''socks5_address'')) (\<lambda>vSocks5Addr.
     go_bind (jvalue jstring [] (jmembers b ''http_address'')) (\<lambda>vHttpAddr.
     go_bind (jvalue jstring [] (jmembers b ''dns_addr'')) (\<lambda>vDNSAddr.
     go_bind (jvalue juint16 0 (jmembers b ''udp_minsize'')) (\<lambda>vUDPSize.
     go_bind (jvalue jstring [] (jmembers b ''socks5_for_doh'')) (\<lambda>vDoHProxy.
     go_bind (jvalue jstring [] (jmembers b ''fake_ttl_rules'')) (\<lambda>vFakeTTLRules.
     go_bind (jvalue jbool False (jmembers b ''dns_singleflight'')) (\<lambda>vDNSSingleflight.
     go_bind (jvalue jint 0 (jmembers b ''dns_cache_ttl'')) (\<lambda>vDNSCacheTTL.
     go_bind (jvalue jint 0 (jmembers b ''dns_cache_cap'')) (\<lambda>vDNSCacheCapacity.
     go_bind (jvalue jbool False (jmembers b ''ttl_singleflight'')) (\<lambda>vTTLSingleflight.
     go_bind (jvalue jint 0 (jmembers b ''ttl_cache_ttl'')) (\<lambda>vTTLCacheTTL.
     go_bind (jvalue jint 0 (jmembers b ''ttl_cache_cap'')) (\<lambda>vTTLCacheCapacity.
     go_bind (jmap (poolJSON lookupIP) [] (jmembers b ''ip_pools'')) (\<lambda>vIPPools.
     go_bind (jfield policyJSON zeroPolicy (jmembers b ''default_policy'')) (\<lambda>vDefaultPolicy.
     go_bind (jmap policyJSON [] (jmembers b ''domain_policies'')) (\<lambda>vDomainPolicies.
     go_bind (jmap policyJSON [] (jmembers b ''ip_policies'')) (\<lambda>vIpPolicies.
     Inr \<lparr>cf_LogLevel = vLogLevel, cf_TransmitFileLimit = vTransmitFileLimit, cf_Socks5Addr = vSocks5Addr, cf_HttpAddr = vHttpAddr,
       cf_DNSAddr = vDNSAddr, cf_UDPSize = vUDPSize, cf_DoHProxy = vDoHProxy, cf_FakeTTLRules = vFakeTTLRules,
       cf_DNSSingleflight = vDNSSingleflight, cf_DNSCacheTTL = vDNSCacheTTL, cf_DNSCacheCapacity = vDNSCacheCapacity,
       cf_TTLSingleflight = vTTLSingleflight, cf_TTLCacheTTL = vTTLCacheTTL, cf_TTLCacheCapacity = vTTLCacheCapacity,
       cf_IPPools = vIPPools, cf_DefaultPolicy = vDefaultPolicy, cf_DomainPolicies = vDomainPolicies, cf_IpPolicies = vIpPolicies\<rparr>))))))))))))))))))"

fun decodeConfig :: "(string \<Rightarrow> addr list go) \<Rightarrow> json \<Rightarrow> Config go" where
  "decodeConfig lookupIP (JObj b) = decodeFields lookupIP b"
| "decodeConfig lookupIP JNull = decodeFields lookupIP []"
| "decodeConfig lookupIP _ = Inl (Error ''json: cannot unmarshal into Go value of type bill.Config'')"

section \<open>The state of the package\<close>

datatype log_level = DEBUG | INFO | ERROR

text \<open>How DNS requests are exchanged: with a DNS client, or over HTTPS through a dialer.\<close>

datatype doh_dialer = ThroughProxy string | DirectTo string duration

datatype exchange = NoExchange | Do53 nat | DoH doh_dialer

record globals =
  gl_logLevel :: log_level
  gl_defaultPolicy :: Policy
  gl_core :: core_state
  gl_dnsSingleflight :: bool
  gl_ttlSingleflight :: bool
  gl_dnsCacheTTL :: duration
  gl_ttl :: ttl_state
  gl_ttlCacheTTL :: duration
  gl_calcTTL :: "(int \<Rightarrow> int go) option"
  gl_sem :: "int option"
  gl_domainMatcher :: "Policy labelNode option"
  gl_gfw :: gfwMatchers
  gl_ipMatchers :: "Policy bitNode \<times> Policy bitNode"
  gl_dnsAddr :: string
  gl_exchange :: exchange
  gl_dohConnPolicy :: "Policy option"

text \<open>
  What loading relies on: the file with its JSON value, the resolver of the pools, the outcome of the probes of each pool, the
  order in which maps are iterated, the library that makes the caches, the sort of the rules, the embedded
  list, the parser of URLs, the maker of a dialer through a proxy, and the surroundings of the planner, whose
  configuration is the one loaded.
\<close>

record load_env =
  le_file :: "string \<Rightarrow> json go"
  le_lookupIP :: "string \<Rightarrow> addr list go"
  le_probes :: "string \<Rightarrow> (nat \<times> duration option list) list"
  le_tags :: "string list \<Rightarrow> string list"
  le_order :: "(string \<times> Policy) list \<Rightarrow> (string \<times> Policy) list"
  le_newCache :: "32 word \<Rightarrow> unit go"
  le_sort :: "ttl_rule list \<Rightarrow> ttl_rule list"
  le_windows :: bool
  le_gfwList :: string
  le_urlHost :: "string \<Rightarrow> string option"
  le_parseURL :: "string \<Rightarrow> (string \<times> string) go"
  le_socksDialer :: "string \<Rightarrow> unit go"
  le_base :: dial_env

definition env_of :: "load_env \<Rightarrow> globals \<Rightarrow> dial_env" where
  "env_of le g = (le_base le)\<lparr>
     de_dns := (de_dns (le_base le))\<lparr>env_dnsCacheTTL := gl_dnsCacheTTL g, env_domainMatcher := gl_domainMatcher g, env_gfw := gl_gfw g\<rparr>,
     de_defaultPolicy := gl_defaultPolicy g, de_ipMatchers := gl_ipMatchers g\<rparr>"

type_synonym 'a load = "(globals, 'a) comp"

definition on_globals :: "'a core \<Rightarrow> 'a load" where
  "on_globals = c_zoom gl_core (\<lambda>t s. s\<lparr>gl_core := t\<rparr>)"

section \<open>The connection to a DNS server over HTTPS\<close>

text \<open>The host to dial and the policy for it: for an address, and for a name.\<close>

definition dohAddress :: "dial_env \<Rightarrow> instant \<Rightarrow> string \<Rightarrow> (string \<times> Policy) core" where
  "dohAddress env now host =
     c_bind (c_wrap ''ip redirect'' (ipRedirect env now False host)) (\<lambda>(host1, ipPolicy).
     c_return (host1, case ipPolicy of None \<Rightarrow> de_defaultPolicy env | Some ipp \<Rightarrow> mergePolicies [ipp, de_defaultPolicy env]))"

definition dohRedirected :: "dial_env \<Rightarrow> instant \<Rightarrow> Policy option \<Rightarrow> Policy \<Rightarrow> string \<Rightarrow> (string \<times> Policy) core" where
  "dohRedirected env now domainPolicy p host =
     c_bind (if ParseIP host = None then resolveBootstrapHost env now host else c_return host) (\<lambda>host1.
     c_bind (c_wrap ''ip redirect'' (ipRedirect env now False host1)) (\<lambda>(host2, ipPolicy).
     c_return (host2, case ipPolicy of
         None \<Rightarrow> p
       | Some ipp \<Rightarrow> (case domainPolicy of
             Some dp \<Rightarrow> mergePolicies [dp, ipp, de_defaultPolicy env]
           | None \<Rightarrow> mergePolicies [ipp, de_defaultPolicy env]))))"

definition dohName :: "dial_env \<Rightarrow> instant \<Rightarrow> string \<Rightarrow> (string \<times> Policy) core" where
  "dohName env now host0 =
     (let domainPolicy = Option.bind (env_domainMatcher (de_dns env)) (\<lambda>m. DomainMatcher_Find m host0);
          p = (case domainPolicy of Some dp \<Rightarrow> mergePolicies [dp, de_defaultPolicy env] | None \<Rightarrow> de_defaultPolicy env)
      in case p_Host p of
           None \<Rightarrow> c_return (host0, p)
         | Some h \<Rightarrow>
             if h = [] then c_return (host0, p)
             else
               let caret = (hd h = CHR ''^''); disableRedirect = (caret \<or> h \<noteq> ''self'' \<and> ParseIP h \<noteq> None);
                   host1 = (if caret then drop 1 h else h)
               in c_bind (if HasPrefix host1 tagPrefix then core_pool (drop 1 host1) else c_return host1) (\<lambda>host2.
                  if disableRedirect then c_return (host2, p) else dohRedirected env now domainPolicy p host2))"

text \<open>\<^verbatim>\<open>genDialContext\<close>: the address the dialer connects to with its timeout, and the policy of its connections.\<close>

definition genDialContext :: "load_env \<Rightarrow> dial_env \<Rightarrow> instant \<Rightarrow> string \<Rightarrow> (string \<times> Policy) core" where
  "genDialContext le env now addr =
     c_bind (c_wrap ''invalid DoH URL'' (c_lift (le_parseURL le addr))) (\<lambda>(host, urlPort).
     c_bind (if ParseIP host \<noteq> None then dohAddress env now host else dohName env now host) (\<lambda>(host1, p).
     let port = (if p_Port p \<noteq> unsetInt then Itoa (p_Port p) else if urlPort = [] then ''443'' else urlPort)
     in c_return (JoinHostPort host1 port, p)))"

section \<open>Loading\<close>

text \<open>
  \<^verbatim>\<open>strings.ToUpper\<close> as far as its result can be ASCII: the letters, and the two letters outside ASCII, the
  dotless i and the long s, whose upper case is in ASCII.  Other letters outside ASCII are left as they are.
\<close>

fun ToUpper :: "string \<Rightarrow> string" where
  "ToUpper [] = []"
| "ToUpper (c # s) =
     (if c = CHR 0xC4 \<and> s \<noteq> [] \<and> hd s = CHR 0xB1 then CHR ''I'' # ToUpper (tl s)
      else if c = CHR 0xC5 \<and> s \<noteq> [] \<and> hd s = CHR 0xBF then CHR ''S'' # ToUpper (tl s)
      else (let n = (of_char c :: nat) in if 97 \<le> n \<and> n \<le> 122 then char_of (n - 32) else c) # ToUpper s)"

definition loadLevel :: "string \<Rightarrow> unit load" where
  "loadLevel text =
     (if text = [] then c_return ()
      else if ToUpper text = ''DEBUG'' then c_modify (\<lambda>g. g\<lparr>gl_logLevel := DEBUG\<rparr>)
      else if ToUpper text = ''INFO'' then c_modify (\<lambda>g. g\<lparr>gl_logLevel := INFO\<rparr>)
      else if ToUpper text = ''ERROR'' then c_modify (\<lambda>g. g\<lparr>gl_logLevel := ERROR\<rparr>)
      else c_fail (''unknown log level: '' @ text))"

text \<open>
  The pools are initialised in the order in which the map is iterated; the \<^verbatim>\<open>Init\<close> of a \<^verbatim>\<open>nil\<close> pool panics.
\<close>

definition setPool :: "string \<Rightarrow> IPPool \<Rightarrow> globals \<Rightarrow> globals" where
  "setPool tag p g = g\<lparr>gl_core := (gl_core g)\<lparr>cs_pools := AList.update tag p (cs_pools (gl_core g))\<rparr>\<rparr>"

fun initPools :: "load_env \<Rightarrow> (string, IPPool option) gomap \<Rightarrow> string list \<Rightarrow> unit load" where
  "initPools le pools [] = c_return ()"
| "initPools le pools (tag # tags) =
     (case map_of pools tag of
        Some (Some pool) \<Rightarrow>
          c_bind (c_wrap (''init ip pool '' @ tag) (c_lift (pool_Init pool (le_probes le tag)))) (\<lambda>p.
          c_bind (c_modify (setPool tag p)) (\<lambda>_. initPools le pools tags))
      | _ \<Rightarrow> c_lift (Inl (Panic ''nil pointer dereference'')))"

definition loadPools :: "load_env \<Rightarrow> (string, IPPool option) gomap \<Rightarrow> unit load" where
  "loadPools le pools =
     (if pools = [] then c_return ()
      else
        c_bind (c_modify (\<lambda>g. g\<lparr>gl_core := (gl_core g)\<lparr>cs_pools := List.map_filter (\<lambda>(tag, p). map_option (Pair tag) p) pools\<rparr>\<rparr>)) (\<lambda>_.
        initPools le pools (le_tags le (map fst pools))))"

text \<open>A new cache is put into its variable, \<^verbatim>\<open>nil\<close> if it cannot be made; its capacity is converted to 32 bits.\<close>

definition newCache :: "load_env \<Rightarrow> string \<Rightarrow> int \<Rightarrow> ('v cache option \<Rightarrow> globals \<Rightarrow> globals) \<Rightarrow> unit load" where
  "newCache le msg capacity put = (\<lambda>g.
     case le_newCache le (word_of_int capacity) of
       Inr _ \<Rightarrow> Some (put (Some []) g, Inr ())
     | Inl e \<Rightarrow> Some (put None g, Inl (wrap msg e)))"

definition put_dnsCache :: "string cache option \<Rightarrow> globals \<Rightarrow> globals" where
  "put_dnsCache c g = g\<lparr>gl_core := (gl_core g)\<lparr>cs_dns := (cs_dns (gl_core g))\<lparr>ds_dnsCache := c\<rparr>\<rparr>\<rparr>"

definition put_ipDomainCache :: "string cache option \<Rightarrow> globals \<Rightarrow> globals" where
  "put_ipDomainCache c g = g\<lparr>gl_core := (gl_core g)\<lparr>cs_dns := (cs_dns (gl_core g))\<lparr>ds_ipDomainCache := c\<rparr>\<rparr>\<rparr>"

definition put_ttlCache :: "int cache option \<Rightarrow> globals \<Rightarrow> globals" where
  "put_ttlCache c g = g\<lparr>gl_ttl := (gl_ttl g)\<lparr>ts_ttlCache := c\<rparr>\<rparr>"

definition loadDNSCache :: "load_env \<Rightarrow> Config \<Rightarrow> unit load" where
  "loadDNSCache le conf =
     (if cf_DNSCacheTTL conf < 0 then c_fail (''invalid dns_cache_ttl: '' @ Itoa (cf_DNSCacheTTL conf))
      else if cf_DNSCacheTTL conf = 0 then c_return ()
      else if cf_DNSCacheCapacity conf < 1 then c_fail (''invalid dns_cache_cap: '' @ Itoa (cf_DNSCacheCapacity conf))
      else
        c_bind (newCache le ''init dns cache'' (cf_DNSCacheCapacity conf) put_dnsCache) (\<lambda>_.
        c_bind (newCache le ''init ip-domain cache'' (cf_DNSCacheCapacity conf) put_ipDomainCache) (\<lambda>_.
        c_modify (\<lambda>g. g\<lparr>gl_dnsCacheTTL := int64 (cf_DNSCacheTTL conf * second)\<rparr>))))"

definition loadTTLCache :: "load_env \<Rightarrow> Config \<Rightarrow> unit load" where
  "loadTTLCache le conf =
     (if cf_TTLCacheTTL conf < 0 then c_fail (''invalid ttl cache ttl: '' @ Itoa (cf_TTLCacheTTL conf))
      else if cf_TTLCacheTTL conf = 0 then c_return ()
      else if cf_TTLCacheCapacity conf < 1 then c_fail (''invalid ttl_cache_cap: '' @ Itoa (cf_TTLCacheCapacity conf))
      else
        c_bind (newCache le ''init ttl cache'' (cf_TTLCacheCapacity conf) put_ttlCache) (\<lambda>_.
        c_modify (\<lambda>g. g\<lparr>gl_ttlCacheTTL := int64 (cf_TTLCacheTTL conf * second)\<rparr>)))"

definition loadFakeTTL :: "load_env \<Rightarrow> Config \<Rightarrow> unit load" where
  "loadFakeTTL le conf =
     (if cf_FakeTTLRules conf = [] then c_return ()
      else
        c_bind (c_wrap ''load fake ttl rules'' (c_lift (loadTTLRules (le_sort le) (cf_FakeTTLRules conf)))) (\<lambda>calc.
        c_modify (\<lambda>g. g\<lparr>gl_calcTTL := Some calc,
          gl_sem := (if le_windows le \<and> cf_TransmitFileLimit conf > 0 then Some (cf_TransmitFileLimit conf) else gl_sem g)\<rparr>)))"

definition loadMatchers :: "load_env \<Rightarrow> Config \<Rightarrow> unit load" where
  "loadMatchers le conf =
     c_bind (c_modify (\<lambda>g. g\<lparr>gl_domainMatcher := Some (buildDomainMatcher (le_order le (cf_DomainPolicies conf)))\<rparr>)) (\<lambda>_.
     c_bind (c_wrap ''load builtin gfwlist'' (c_lift (loadBuiltinGFWList (le_urlHost le) (le_gfwList le)))) (\<lambda>gfw.
     c_modify (\<lambda>g. g\<lparr>gl_gfw := gfw, gl_ipMatchers := buildIPMatchers (le_order le (cf_IpPolicies conf))\<rparr>)))"

definition loadExchange :: "load_env \<Rightarrow> instant \<Rightarrow> Config \<Rightarrow> unit load" where
  "loadExchange le now conf =
     c_bind (c_modify (\<lambda>g. g\<lparr>gl_dnsAddr := cf_DNSAddr conf\<rparr>)) (\<lambda>_.
     if HasPrefix (cf_DNSAddr conf) ''https://'' then
       if cf_DoHProxy conf = [] then
         c_bind (\<lambda>g. on_globals (genDialContext le (env_of le g) now (cf_DNSAddr conf)) g) (\<lambda>(addr, p).
         c_modify (\<lambda>g. g\<lparr>gl_dohConnPolicy := Some p, gl_exchange := DoH (DirectTo addr (p_ConnectTimeout p))\<rparr>))
       else
         c_bind (c_wrap ''create socks5 dialer'' (c_lift (le_socksDialer le (cf_DoHProxy conf)))) (\<lambda>_.
         c_modify (\<lambda>g. g\<lparr>gl_exchange := DoH (ThroughProxy (cf_DoHProxy conf))\<rparr>))
     else c_modify (\<lambda>g. g\<lparr>gl_exchange := Do53 (cf_UDPSize conf)\<rparr>))"

text \<open>\<^verbatim>\<open>LoadConfig\<close>: the file is opened and decoded, then its parts take effect one after the other.\<close>

definition loadSteps :: "load_env \<Rightarrow> instant \<Rightarrow> Config \<Rightarrow> (string \<times> string) load" where
  "loadSteps le now conf =
     c_bind (loadLevel (cf_LogLevel conf)) (\<lambda>_.
     c_bind (c_modify (\<lambda>g. g\<lparr>gl_defaultPolicy := cf_DefaultPolicy conf\<rparr>)) (\<lambda>_.
     c_bind (loadPools le (cf_IPPools conf)) (\<lambda>_.
     c_bind (c_modify (\<lambda>g. g\<lparr>gl_dnsSingleflight := (cf_DNSSingleflight conf \<or> gl_dnsSingleflight g),
        gl_ttlSingleflight := (cf_TTLSingleflight conf \<or> gl_ttlSingleflight g)\<rparr>)) (\<lambda>_.
     c_bind (loadDNSCache le conf) (\<lambda>_.
     c_bind (loadTTLCache le conf) (\<lambda>_.
     c_bind (loadFakeTTL le conf) (\<lambda>_.
     c_bind (loadMatchers le conf) (\<lambda>_.
     c_bind (loadExchange le now conf) (\<lambda>_.
     c_return (cf_Socks5Addr conf, cf_HttpAddr conf))))))))))"

definition LoadConfig :: "load_env \<Rightarrow> instant \<Rightarrow> string \<Rightarrow> (string \<times> string) load" where
  "LoadConfig le now filePath =
     c_bind (c_lift (le_file le filePath)) (\<lambda>doc.
     c_bind (c_lift (decodeConfig (le_lookupIP le) doc)) (loadSteps le now))"

section \<open>Connections to a DNS server over HTTPS\<close>

text \<open>The connection with its flag, and the state of the search for hop limits.\<close>

record interceptConn =
  ic_Conn :: conn
  ic_handled :: bool
  ic_ttl :: ttl_state

definition ic_io :: "'a io \<Rightarrow> (interceptConn, 'a) comp" where
  "ic_io m = (\<lambda>s. let (r, c) = m (ic_Conn s) in Some (s\<lparr>ic_Conn := c\<rparr>, r))"

definition ic_send :: "tun_env \<Rightarrow> instant \<Rightarrow> Policy \<Rightarrow> string \<Rightarrow> bytes \<Rightarrow> int \<Rightarrow> int \<Rightarrow> (interceptConn, unit) comp" where
  "ic_send env now p raddr b pos len =
     (case p_Mode p of
        ModeDirect \<Rightarrow> ic_io (conn_Write b)
      | ModeRaw \<Rightarrow> ic_io (conn_Write b)
      | ModeTTLD \<Rightarrow>
          c_bind (c_lift (go_index raddr 0)) (\<lambda>c0.
          c_bind (c_wrap ''get fake TTL'' (\<lambda>s. let (t, r) = getFakeTTL (tv_ttl env) now p raddr (c0 = CHR ''['') (ic_ttl s)
            in Some (s\<lparr>ic_ttl := t\<rparr>, r))) (\<lambda>ttl.
          c_wrap ''ttl desync'' (ic_io (desyncSend (tv_sys env) b pos len ttl (p_FakeSleep p)))))
      | ModeTLSRF \<Rightarrow>
          c_wrap ''tls fragment'' (ic_io (sendRecords b pos len (p_NumRecords p) (p_NumSegments p) (p_OOB p = BoolTrue) (p_OOBEx p = BoolTrue)
            (p_ModMinorVer p = BoolTrue) (p_SendInterval p)))
      | _ \<Rightarrow> c_return ())"

definition interceptConn_Write :: "tun_env \<Rightarrow> instant \<Rightarrow> Policy \<Rightarrow> string \<Rightarrow> bytes \<Rightarrow> (interceptConn, nat) comp" where
  "interceptConn_Write env now p raddr b = (\<lambda>s.
     (if ic_handled s then c_bind (ic_io (conn_Write b)) (\<lambda>_. c_return (length b))
      else
        c_bind (c_modify (\<lambda>s. s\<lparr>ic_handled := True\<rparr>)) (\<lambda>_.
        if p_Mode p \<in> {ModeBlock, ModeTLSAlert} then c_fail ''blocked by policy''
        else
          c_bind (c_lift (parseClientHello b)) (\<lambda>info.
          case hello_err info of
            Some e \<Rightarrow> c_fail e
          | None \<Rightarrow>
              if p_TLS13Only p = BoolTrue \<and> \<not> hasKeyShare info then c_fail ''not a TLS 1.3 ClientHello''
              else
                c_bind (if sniPos info = -1 then ic_io (conn_Write b) else ic_send env now p raddr b (sniPos info) (sniLen info))
                  (\<lambda>_. c_return (length b))))) s)"

section \<open>Decoding never panics\<close>

named_theorems calm_intros

lemma calm_bind [calm_intros]:
  "\<not> is_panic m \<Longrightarrow> (\<And>x. m = Inr x \<Longrightarrow> \<not> is_panic (f x)) \<Longrightarrow> \<not> is_panic (go_bind m f)"
  by (auto simp: is_panic_bind)

lemma calm_values [calm_intros]:
  "\<not> is_panic (Inr x)" "\<not> is_panic (Inl (Error e))"
  by simp_all

lemma calm_jfield [calm_intros]: "(\<And>v. \<not> is_panic (dec v)) \<Longrightarrow> \<not> is_panic (jfield dec x vs)"
  by (induction vs arbitrary: x) (auto simp: is_panic_bind calm_intros)

lemma calm_jpointer [calm_intros]: "(\<And>v. \<not> is_panic (dec v)) \<Longrightarrow> \<not> is_panic (jpointer dec x vs)"
  by (induction dec x vs rule: jpointer.induct) (auto simp: is_panic_bind calm_intros)

lemma calm_jvalue [calm_intros]: "(\<And>v. \<not> is_panic (dec v)) \<Longrightarrow> \<not> is_panic (jvalue dec x vs)"
  by (induction dec x vs rule: jvalue.induct) (auto simp: is_panic_bind calm_intros)

lemma calm_jentries [calm_intros]: "(\<And>v. \<not> is_panic (dec v)) \<Longrightarrow> \<not> is_panic (jentries dec m ms)"
  by (induction dec m ms rule: jentries.induct) (auto simp: is_panic_bind calm_intros)

lemma calm_jmap [calm_intros]: "(\<And>v. \<not> is_panic (dec v)) \<Longrightarrow> \<not> is_panic (jmap dec m vs)"
  by (induction dec m vs rule: jmap.induct) (auto simp: is_panic_bind calm_intros)

lemma calm_go_map [calm_intros]: "(\<And>v. \<not> is_panic (f v)) \<Longrightarrow> \<not> is_panic (go_map f vs)"
  by (induction vs) (auto simp: is_panic_bind calm_intros)

lemma calm_json [calm_intros]:
  "\<not> is_panic (jstring v)" "\<not> is_panic (jint v)" "\<not> is_panic (jbool v)" "\<not> is_panic (juint16 v)"
  by (cases v rule: jstring.cases; simp) (cases v; simp)+

lemma calm_jstrings [calm_intros]: "\<not> is_panic (jstrings v)"
  by (cases v rule: jstrings.cases) (auto simp: is_panic_bind calm_intros)

lemma calm_enums [calm_intros]:
  "\<not> is_panic (Mode_UnmarshalJSON v)" "\<not> is_panic (DNSMode_UnmarshalJSON v)" "\<not> is_panic (BoolWithDefault_UnmarshalJSON v)"
  by (auto simp: Mode_UnmarshalJSON_def DNSMode_UnmarshalJSON_def Let_def is_panic_bind calm_json)
    (cases v rule: BoolWithDefault_UnmarshalJSON.cases; simp)

lemma calm_parse_term: "\<not> is_panic (parse_term s)"
  by (auto simp: parse_term_def Let_def split: option.splits prod.splits)

lemma calm_parse_terms: "\<not> is_panic (parse_terms s d)"
proof (induction s d rule: parse_terms.induct)
  case (1 s d)
  show ?case
    by (subst parse_terms.simps) (use 1 calm_parse_term [of s] in \<open>auto simp: is_panic_iff split: sum.splits\<close>)
qed

lemma calm_ParseDuration [calm_intros]: "\<not> is_panic (ParseDuration s)"
  by (auto simp: ParseDuration_def Let_def is_panic_bind calm_parse_terms)

lemma calm_checks [calm_intros]:
  "\<not> is_panic (checkText name t)" "\<not> is_panic (checkInt name msg bad u i)" "\<not> is_panic (checkDuration name msg badd ud d)"
  "\<not> is_panic (poolDuration name ud s)" "\<not> is_panic (pool_check b msg)"
  using calm_ParseDuration
  by (cases "(name, t)" rule: checkText.cases;
      auto simp: checkInt_def checkDuration_def poolDuration_def pool_check_def is_panic_iff split: option.splits sum.splits gerr.splits)+

lemma calm_policyJSON [calm_intros]: "\<not> is_panic (policyJSON v)"
proof -
  have "\<not> is_panic (Policy_UnmarshalJSON b)" for b unfolding Policy_UnmarshalJSON_def by (intro calm_intros)
  then show ?thesis by (cases v rule: policyJSON.cases) auto
qed

lemma calm_cidrLoop: "\<not> is_panic (cidrLoop s prefix a acc)"
proof (induction s prefix a acc rule: cidrLoop.induct)
  case (1 s prefix a acc)
  then show ?case by (subst cidrLoop.simps) (auto simp: Let_def split: option.splits)
qed

lemma calm_resolvedLoop: "\<not> is_panic (resolvedLoop s as acc)"
  by (induction s as acc rule: resolvedLoop.induct) auto

lemma calm_parseSource:
  assumes "\<And>h. \<not> is_panic (lookupIP h)"
  shows "\<not> is_panic (parseSource lookupIP s acc)"
  using assms [of s] calm_cidrLoop calm_resolvedLoop
  by (auto simp: parseSource_def is_panic_iff split: option.splits sum.splits gerr.splits)

lemma calm_poolJSON:
  assumes "\<And>h. \<not> is_panic (lookupIP h)"
  shows "\<not> is_panic (poolJSON lookupIP v)"
proof -
  have "\<not> is_panic (parseSources lookupIP ss acc)" for ss acc
    by (induction ss arbitrary: acc) (auto simp: is_panic_bind calm_parseSource assms)
  then have "\<not> is_panic (parseIPList lookupIP l)" for l by (simp add: parseIPList_def)
  then have "\<not> is_panic (IPPool_UnmarshalJSON lookupIP b)" for b
    unfolding IPPool_UnmarshalJSON_def Let_def by (intro calm_intros)
  then show ?thesis by (cases v) (auto simp: is_panic_bind calm_intros)
qed

lemma calm_decodeConfig:
  assumes "\<And>h. \<not> is_panic (lookupIP h)"
  shows "\<not> is_panic (decodeConfig lookupIP doc)"
proof -
  have "\<not> is_panic (decodeFields lookupIP b)" for b
    unfolding decodeFields_def by (intro calm_intros calm_poolJSON assms)
  then show ?thesis by (cases doc) auto
qed

lemma calm_loadTTLRules [calm_intros]: "\<not> is_panic (loadTTLRules sorter conf)"
proof -
  have "\<not> is_panic (ruleLoop b rules)" for b rules
  proof (induction b rules rule: ruleLoop.induct)
    case (1 b rules)
    then show ?case by (subst ruleLoop.simps) (auto simp: Let_def split: list.splits)
  qed
  then show ?thesis by (auto simp: loadTTLRules_def parseTTLRules_def is_panic_bind)
qed

lemma calm_loadBuiltinGFWList [calm_intros]: "\<not> is_panic (loadBuiltinGFWList u raw)"
proof -
  have "\<not> is_panic (addPatterns m ps)" for m ps
    by (induction ps arbitrary: m) (auto simp: DomainMatcher_Add_def is_panic_bind)
  then show ?thesis
    by (auto simp: loadBuiltinGFWList_def parseEmbeddedGFWList_def Let_def is_panic_bind split: option.splits prod.splits)
qed

section \<open>What is decoded is in range\<close>

lemma jentries_values:
  "jentries dec m ms = Inr m' \<Longrightarrow> \<forall>x \<in> snd ` set m. P x \<Longrightarrow> (\<And>v x. dec v = Inr x \<Longrightarrow> P x) \<Longrightarrow> \<forall>x \<in> snd ` set m'. P x"
proof (induction dec m ms rule: jentries.induct)
  case (2 dec m k v ms)
  then obtain x where x: "dec v = Inr x" "jentries dec (AList.update k x m) ms = Inr m'" by (auto simp: go_bind_Inr_iff)
  have "\<forall>y \<in> snd ` set (AList.update k x m). P y"
    using 2(3) 2(4) [OF x(1)] set_update_subset [of k x m] by fastforce
  then show ?case using 2(1) [OF x(1) x(2)] 2(4) by blast
qed simp

lemma jmap_values:
  "jmap dec m vs = Inr m' \<Longrightarrow> \<forall>x \<in> snd ` set m. P x \<Longrightarrow> (\<And>v x. dec v = Inr x \<Longrightarrow> P x) \<Longrightarrow> \<forall>x \<in> snd ` set m'. P x"
proof (induction dec m vs rule: jmap.induct)
  case (3 dec m ms vs)
  then obtain m1 where m: "jentries dec m ms = Inr m1" "jmap dec m1 vs = Inr m'" by (auto simp: go_bind_Inr_iff)
  then show ?case using 3(1) [OF m(1) m(2)] jentries_values [OF m(1) 3(3)] 3(4) by blast
qed auto

lemma jfield_value: "jfield dec x vs = Inr y \<Longrightarrow> P x \<Longrightarrow> (\<And>v z. dec v = Inr z \<Longrightarrow> P z) \<Longrightarrow> P y"
  by (induction vs arbitrary: x) (auto simp: go_bind_Inr_iff)

lemma policyJSON_in_range: "policyJSON v = Inr p \<Longrightarrow> policy_in_range p"
  by (cases v rule: policyJSON.cases) (auto dest: Policy_UnmarshalJSON_in_range)

lemma poolJSON_ok: "poolJSON lookupIP v = Inr q \<Longrightarrow> case q of None \<Rightarrow> True | Some p \<Rightarrow> pool_ok p"
  by (cases v) (auto simp: go_bind_Inr_iff dest: UnmarshalJSON_ok)

definition conf_ok :: "Config \<Rightarrow> bool" where
  "conf_ok conf \<longleftrightarrow> policy_in_range (cf_DefaultPolicy conf)
     \<and> (\<forall>p \<in> snd ` set (cf_DomainPolicies conf) \<union> snd ` set (cf_IpPolicies conf). policy_in_range p)
     \<and> (\<forall>q \<in> snd ` set (cf_IPPools conf). case q of None \<Rightarrow> True | Some p \<Rightarrow> pool_ok p)"

lemma zeroPolicy_in_range: "policy_in_range zeroPolicy"
  by (simp add: policy_in_range_def zeroPolicy_def)

lemma decodeConfig_ok:
  assumes "decodeConfig lookupIP doc = Inr conf"
  shows "conf_ok conf"
proof -
  obtain b where b: "decodeFields lookupIP b = Inr conf"
    using assms by (cases doc) auto
  have d: "jmap (poolJSON lookupIP) [] (jmembers b ''ip_pools'') = Inr (cf_IPPools conf)"
    "jfield policyJSON zeroPolicy (jmembers b ''default_policy'') = Inr (cf_DefaultPolicy conf)"
    "jmap policyJSON [] (jmembers b ''domain_policies'') = Inr (cf_DomainPolicies conf)"
    "jmap policyJSON [] (jmembers b ''ip_policies'') = Inr (cf_IpPolicies conf)"
    using b unfolding decodeFields_def by (simp_all only: go_bind_Inr_iff) (elim exE conjE, simp, drule sym, simp)+
  show ?thesis unfolding conf_ok_def ball_Un
    by (intro conjI jfield_value [where P = policy_in_range, OF d(2) zeroPolicy_in_range] jmap_values [OF d(3)] jmap_values [OF d(4)] jmap_values [OF d(1)])
      (auto intro: policyJSON_in_range dest: poolJSON_ok)
qed

section \<open>Loading establishes what the planner relies on\<close>

text \<open>
  The surroundings of loading: what it calls returns, the iteration over a map visits its entries and the
  iteration over the pools their tags.
\<close>

definition load_env_ok :: "load_env \<Rightarrow> bool" where
  "load_env_ok le \<longleftrightarrow> (\<forall>f. \<not> is_panic (le_file le f)) \<and> (\<forall>h. \<not> is_panic (le_lookupIP le h)) \<and> (\<forall>n. \<not> is_panic (le_newCache le n))
     \<and> (\<forall>u. \<not> is_panic (le_parseURL le u)) \<and> (\<forall>a. \<not> is_panic (le_socksDialer le a))
     \<and> (\<forall>ts. set (le_tags le ts) = set ts) \<and> (\<forall>ps. set (le_order le ps) = set ps)
     \<and> (\<forall>n req. \<not> is_panic (env_exchange (de_dns (le_base le)) n req)) \<and> (\<forall>n h. \<not> is_panic (de_lookupIP (le_base le) n h))"

text \<open>The pools of a configuration are there, and the outcomes of their probes are those of their addresses.\<close>

definition pools_probed :: "load_env \<Rightarrow> Config \<Rightarrow> bool" where
  "pools_probed le conf \<longleftrightarrow> (\<forall>(tag, q) \<in> set (cf_IPPools conf). case q of None \<Rightarrow> False | Some p \<Rightarrow> probes_of p (le_probes le tag))"

definition load_inv :: "load_env \<Rightarrow> globals \<Rightarrow> bool" where
  "load_inv le g \<longleftrightarrow> core_inv (gl_core g) \<and> dial_env_ok (env_of le g)"

lemma c_safe_state: "(\<And>s. I s \<Longrightarrow> c_safe I (m s) Q) \<Longrightarrow> c_safe I (\<lambda>s. m s s) Q"
  unfolding c_safe_def by blast

lemma pool_Init_ok:
  assumes "pool_ok p" "probes_of p probes"
  shows "(\<exists>p'. pool_Init p probes = Inr p' \<and> pool_ok p') \<or> (\<exists>e. pool_Init p probes = Inl (Error e))"
  using scan_ok [of "p\<lparr>pool_cancelled := False\<rparr>" probes] assms by (auto simp: pool_Init_def pool_ok_cong probes_of_def split: if_splits)

lemma load_inv_modify:
  assumes "\<And>g. load_inv le g \<Longrightarrow> core_inv (gl_core (f g))"
    and "\<And>g. load_inv le g \<Longrightarrow> dial_env_ok (env_of le (f g))"
  shows "c_safe (load_inv le) (c_modify f) (\<lambda>_. True)"
  using assms by (auto simp: load_inv_def intro!: c_safe_modify)

lemma loadLevel_safe: "c_safe (load_inv le) (loadLevel text) (\<lambda>_. True)"
  unfolding loadLevel_def by (intro safe_intros load_inv_modify) (auto simp: load_inv_def env_of_def)

lemma setPool_safe:
  assumes "pool_ok p"
  shows "c_safe (load_inv le) (c_modify (setPool tag p)) (\<lambda>_. True)"
proof (rule load_inv_modify)
  fix g assume "load_inv le g"
  then show "core_inv (gl_core (setPool tag p g))" "dial_env_ok (env_of le (setPool tag p g))"
    using assms set_update_subset [of tag p "cs_pools (gl_core g)"]
    by (auto simp: load_inv_def core_inv_def setPool_def env_of_def list_all_iff)
qed

lemma initPools_safe:
  assumes "\<And>tag. tag \<in> set tags \<Longrightarrow> \<exists>p. map_of pools tag = Some (Some p) \<and> pool_ok p \<and> probes_of p (le_probes le tag)"
  shows "c_safe (load_inv le) (initPools le pools tags) (\<lambda>_. True)"
  using assms
proof (induction tags)
  case (Cons tag tags)
  obtain p where p: "map_of pools tag = Some (Some p)" "pool_ok p" "probes_of p (le_probes le tag)" using Cons(2) by force
  have "c_safe (load_inv le) (c_lift (pool_Init p (le_probes le tag))) pool_ok"
    using pool_Init_ok [OF p(2,3)] by (intro c_safe_lift) auto
  then show ?case using Cons
    by (auto simp: p(1) intro!: c_safe_bind [OF c_safe_wrap] c_safe_bind [OF setPool_safe])
qed (auto intro: safe_intros)

lemma loadPools_safe:
  assumes "load_env_ok le" "conf_ok conf" "pools_probed le conf"
  shows "c_safe (load_inv le) (loadPools le (cf_IPPools conf)) (\<lambda>_. True)"
proof -
  let ?pools = "cf_IPPools conf"
  have entry: "\<exists>p. q = Some p \<and> pool_ok p \<and> probes_of p (le_probes le tag)" if "(tag, q) \<in> set ?pools" for tag q
    using assms(2,3) that by (force simp: conf_ok_def pools_probed_def split: option.splits)
  have i: "c_safe (load_inv le) (initPools le ?pools (le_tags le (map fst ?pools))) (\<lambda>_. True)"
  proof (rule initPools_safe)
    fix tag assume "tag \<in> set (le_tags le (map fst ?pools))"
    then have "tag \<in> fst ` set ?pools" using assms(1) by (simp add: load_env_ok_def)
    then obtain q where q: "map_of ?pools tag = Some q" by (metis map_of_eq_None_iff not_None_eq)
    then show "\<exists>p. map_of ?pools tag = Some (Some p) \<and> pool_ok p \<and> probes_of p (le_probes le tag)"
      using entry [OF map_of_SomeD [OF q]] by auto
  qed
  show ?thesis unfolding loadPools_def
    by (intro c_safe_if c_safe_bind [where P = "\<lambda>_. True", OF _ i] c_safe_return load_inv_modify)
      (use entry in \<open>auto simp: load_inv_def core_inv_def env_of_def list_all_iff map_filter_def dest!: entry split: option.splits\<close>)
qed

lemma newCache_safe:
  assumes "load_env_ok le" and "\<And>c g. load_inv le g \<Longrightarrow> load_inv le (put c g)"
  shows "c_safe (load_inv le) (newCache le msg n put) (\<lambda>_. True)"
proof (rule c_safeI)
  fix g assume "load_inv le g"
  then show "(\<exists>s' e. load_inv le s' \<and> newCache le msg n put g = Some (s', Inl (Error e))) \<or>
      (\<exists>s' x. load_inv le s' \<and> newCache le msg n put g = Some (s', Inr x) \<and> True)"
    using assms by (cases "le_newCache le (word_of_int n)" rule: is_panic.cases)
      (auto simp: newCache_def load_env_ok_def, metis is_panic.simps(1))
qed

lemma load_inv_puts:
  "load_inv le (put_dnsCache c g) = load_inv le g" "load_inv le (put_ipDomainCache c g) = load_inv le g"
  "load_inv le (put_ttlCache tc g) = load_inv le g"
  by (simp_all add: load_inv_def put_dnsCache_def put_ipDomainCache_def put_ttlCache_def core_inv_def dns_inv_def env_of_def)

lemma load_inv_dnsCacheTTL: "load_inv le (g\<lparr>gl_dnsCacheTTL := t\<rparr>) = load_inv le g"
  by (simp add: load_inv_def env_of_def dial_env_ok_def dns_env_ok_def)

lemma loadCaches_safe:
  assumes "load_env_ok le"
  shows "c_safe (load_inv le) (loadDNSCache le conf) (\<lambda>_. True)" "c_safe (load_inv le) (loadTTLCache le conf) (\<lambda>_. True)"
  unfolding loadDNSCache_def loadTTLCache_def
  by (intro c_safe_if c_safe_bind [OF newCache_safe [OF assms]] safe_intros;
      simp add: load_inv_puts load_inv_dnsCacheTTL; simp add: load_inv_def env_of_def)+

lemma loadFakeTTL_safe: "c_safe (load_inv le) (loadFakeTTL le conf) (\<lambda>_. True)"
  unfolding loadFakeTTL_def
  by (intro c_safe_if c_safe_bind [OF c_safe_wrap [OF c_safe_lift [where Q = "\<lambda>_. True"]]] c_safe_return load_inv_modify calm_loadTTLRules TrueI)
    (auto simp: load_inv_def env_of_def)

lemma loadMatchers_safe:
  assumes "load_env_ok le" "conf_ok conf"
  shows "c_safe (load_inv le) (loadMatchers le conf) (\<lambda>_. True)"
proof -
  have o: "set (le_order le ps) = set ps" for ps using assms(1) by (simp add: load_env_ok_def)
  have p: "policy_in_range v" if "v \<in> snd ` set (cf_DomainPolicies conf) \<or> v \<in> snd ` set (cf_IpPolicies conf)" for v
    using assms(2) that by (auto simp: conf_ok_def)
  have d: "policy_in_range v" if "DomainMatcher_Find (buildDomainMatcher (le_order le (cf_DomainPolicies conf))) h = Some v" for h v
    using buildDomainMatcher_value [OF that] p by (simp add: o)
  have i: "policy_in_range v" if "getIPPolicy (buildIPMatchers (le_order le (cf_IpPolicies conf))) h = Some v" for h v
    using getIPPolicy_value [OF that] p by (simp add: o)
  show ?thesis unfolding loadMatchers_def
    by (intro c_safe_bind [OF load_inv_modify] c_safe_bind [OF c_safe_wrap [OF c_safe_lift [where Q = "\<lambda>_. True"]]] load_inv_modify calm_loadBuiltinGFWList TrueI)
      (auto simp: load_inv_def env_of_def dial_env_ok_def dns_env_ok_def d i)
qed

lemma dohAddress_safe:
  assumes "dial_env_ok env"
  shows "c_safe core_inv (dohAddress env now host) (\<lambda>_. True)"
  unfolding dohAddress_def
  by (rule c_safe_bind [OF c_safe_wrap [OF ipRedirect_safe [OF assms]]]) (auto intro: safe_intros)

lemma dohName_safe:
  assumes "dial_env_ok env"
  shows "c_safe core_inv (dohName env now host) (\<lambda>_. True)"
proof -
  have r: "c_safe core_inv (dohRedirected env now dp p h) (\<lambda>_. True)" for dp p h
    unfolding dohRedirected_def
    by (intro c_safe_bind [where P = "\<lambda>_. True"] c_safe_bind [OF c_safe_wrap [OF ipRedirect_safe [OF assms]]] c_safe_if
        resolveBootstrapHost_safe [OF assms] c_safe_return TrueI) (auto intro: safe_intros)
  show ?thesis unfolding dohName_def Let_def
    by (auto split: option.split intro!: safe_intros r)
qed

lemma genDialContext_safe:
  assumes "load_env_ok le" "dial_env_ok env"
  shows "c_safe core_inv (genDialContext le env now addr) (\<lambda>_. True)"
  unfolding genDialContext_def Let_def
  by (rule c_safe_bind [OF c_safe_wrap [OF c_safe_lift [where Q = "\<lambda>_. True"]]])
    (use assms in \<open>auto simp: load_env_ok_def intro!: safe_intros dohAddress_safe dohName_safe\<close>)

lemma loadExchange_safe:
  assumes "load_env_ok le"
  shows "c_safe (load_inv le) (loadExchange le now conf) (\<lambda>_. True)"
proof -
  have k: "c_safe (load_inv le) (c_modify (\<lambda>g. g\<lparr>gl_dnsAddr := a\<rparr>)) (\<lambda>_. True)"
    "c_safe (load_inv le) (c_modify (\<lambda>g. g\<lparr>gl_exchange := x\<rparr>)) (\<lambda>_. True)"
    "c_safe (load_inv le) (c_modify (\<lambda>g. g\<lparr>gl_dohConnPolicy := q, gl_exchange := x\<rparr>)) (\<lambda>_. True)" for a x q
    by (rule load_inv_modify; simp add: load_inv_def env_of_def)+
  have "c_safe (load_inv le) (\<lambda>g. on_globals (genDialContext le (env_of le g) now a) g) (\<lambda>_. True)" for a
    unfolding on_globals_def
    by (rule c_safe_state, rule c_safe_zoom [OF genDialContext_safe [OF assms]]) (auto simp: load_inv_def env_of_def)
  moreover have "\<not> is_panic (le_socksDialer le a)" for a using assms by (simp add: load_env_ok_def)
  ultimately show ?thesis unfolding loadExchange_def
    by (auto intro!: c_safe_bind [OF k(1)] c_safe_if k c_safe_bind [where P = "\<lambda>_. True"] c_safe_wrap c_safe_lift)
qed

text \<open>Steps that leave a part of the state as it is.\<close>

definition keeps :: "('s \<Rightarrow> 'b) \<Rightarrow> ('s, 'a) comp \<Rightarrow> bool" where
  "keeps part m \<longleftrightarrow> (\<forall>s s' r. m s = Some (s', r) \<longrightarrow> part s' = part s)"

named_theorems keeps_intros

lemma keepsD: "keeps part m \<Longrightarrow> m s = Some (s', r) \<Longrightarrow> part s' = part s"
  by (simp add: keeps_def)

lemma keeps_lift [keeps_intros]: "keeps part (c_lift r)"
  by (simp add: keeps_def)

lemma keeps_modify: "(\<And>s. part (f s) = part s) \<Longrightarrow> keeps part (c_modify f)"
  by (simp add: keeps_def c_modify_def)

lemma keeps_bind [keeps_intros]: "keeps part m \<Longrightarrow> (\<And>x. keeps part (f x)) \<Longrightarrow> keeps part (c_bind m f)"
  unfolding keeps_def c_bind_def by (fastforce split: option.splits prod.splits sum.splits)

lemma keeps_wrap [keeps_intros]: "keeps part m \<Longrightarrow> keeps part (c_wrap msg m)"
  unfolding keeps_def c_wrap_def c_map_error_def by (fastforce split: option.splits prod.splits sum.splits gerr.splits)

lemma keeps_if [keeps_intros]: "keeps part m \<Longrightarrow> keeps part n \<Longrightarrow> keeps part (if b then m else n)"
  by simp

text \<open>The rules of the configuration: the default policy and the matchers.\<close>

definition installed :: "globals \<Rightarrow> Policy \<times> Policy labelNode option \<times> (Policy bitNode \<times> Policy bitNode)" where
  "installed g = (gl_defaultPolicy g, gl_domainMatcher g, gl_ipMatchers g)"

lemma keeps_initPools: "keeps installed (initPools le pools tags)"
proof (induction tags)
  case (Cons tag tags)
  have "keeps installed (c_modify (setPool tag p))" for p by (rule keeps_modify) (simp add: installed_def setPool_def)
  with Cons show ?case unfolding initPools.simps by (auto split: option.split intro!: keeps_intros)
qed (simp only: initPools.simps keeps_lift)

lemma keeps_newCache:
  "(\<And>c g. part (put c g) = part g) \<Longrightarrow> keeps part (newCache le msg n put)"
  by (auto simp: keeps_def newCache_def split: sum.splits)

lemma keeps_load:
  "keeps installed (loadLevel text)" "keeps installed (loadPools le pools)" "keeps installed (loadDNSCache le conf)"
  "keeps installed (loadTTLCache le conf)" "keeps installed (loadFakeTTL le conf)"
  unfolding loadLevel_def loadPools_def loadDNSCache_def loadTTLCache_def loadFakeTTL_def
  by (intro keeps_intros keeps_modify keeps_newCache keeps_initPools;
      simp add: installed_def put_dnsCache_def put_ipDomainCache_def put_ttlCache_def)+

lemma keeps_loadExchange: "keeps installed (loadExchange le now conf)"
proof -
  have "keeps installed (\<lambda>g. on_globals (genDialContext le (env_of le g) now a) g)" for a
    by (auto simp: keeps_def on_globals_def c_zoom_def installed_def split: option.splits)
  then show ?thesis unfolding loadExchange_def
    by (auto simp: installed_def split: prod.split intro!: keeps_intros keeps_modify)
qed

lemma loadMatchers_installs:
  "loadMatchers le conf g = Some (g', Inr x) \<Longrightarrow>
    installed g' = (gl_defaultPolicy g, Some (buildDomainMatcher (le_order le (cf_DomainPolicies conf))),
      buildIPMatchers (le_order le (cf_IpPolicies conf)))"
  by (auto simp: loadMatchers_def installed_def comp_simps)

lemma LoadConfig_installs:
  assumes "LoadConfig le now f g = Some (g', Inr addrs)"
  shows "\<exists>doc conf. le_file le f = Inr doc \<and> decodeConfig (le_lookupIP le) doc = Inr conf
    \<and> addrs = (cf_Socks5Addr conf, cf_HttpAddr conf)
    \<and> installed g' = (cf_DefaultPolicy conf, Some (buildDomainMatcher (le_order le (cf_DomainPolicies conf))),
        buildIPMatchers (le_order le (cf_IpPolicies conf)))"
proof -
  obtain doc conf g0 g1 g2 g3 g4 g5 g6 x where c: "le_file le f = Inr doc" "decodeConfig (le_lookupIP le) doc = Inr conf"
    "addrs = (cf_Socks5Addr conf, cf_HttpAddr conf)"
    and s: "loadPools le (cf_IPPools conf) (g0\<lparr>gl_defaultPolicy := cf_DefaultPolicy conf\<rparr>) = Some (g1, Inr ())"
      "loadDNSCache le conf (g1\<lparr>gl_dnsSingleflight := (cf_DNSSingleflight conf \<or> gl_dnsSingleflight g1),
        gl_ttlSingleflight := (cf_TTLSingleflight conf \<or> gl_ttlSingleflight g1)\<rparr>) = Some (g2, Inr ())"
      "loadTTLCache le conf g2 = Some (g3, Inr ())" "loadFakeTTL le conf g3 = Some (g4, Inr ())"
      "loadMatchers le conf g4 = Some (g5, Inr x)" "loadExchange le now conf g5 = Some (g', Inr ())"
    using assms unfolding LoadConfig_def loadSteps_def by (auto simp: comp_simps)
  have "installed g4 = installed g3" "installed g3 = installed g2" "installed g2 = installed g1"
    and "installed g1 = installed (g0\<lparr>gl_defaultPolicy := cf_DefaultPolicy conf\<rparr>)"
    using keepsD [OF keeps_load(5) s(4)] keepsD [OF keeps_load(4) s(3)] keepsD [OF keeps_load(3) s(2)] keepsD [OF keeps_load(2) s(1)]
    by (simp_all add: installed_def)
  then have "gl_defaultPolicy g4 = cf_DefaultPolicy conf" by (simp add: installed_def)
  moreover have "installed g' = installed g5" by (rule keepsD [OF keeps_loadExchange s(6)])
  ultimately show ?thesis using c loadMatchers_installs [OF s(5)] by auto
qed

lemma LoadConfig_safe:
  assumes "load_env_ok le"
    and "\<And>doc conf. le_file le f = Inr doc \<Longrightarrow> decodeConfig (le_lookupIP le) doc = Inr conf \<Longrightarrow> pools_probed le conf"
  shows "c_safe (load_inv le) (LoadConfig le now f) (\<lambda>_. True)"
proof -
  have opened: "\<not> is_panic (le_file le f)" and dec: "\<not> is_panic (decodeConfig (le_lookupIP le) doc)" for doc
    using assms(1) calm_decodeConfig by (auto simp: load_env_ok_def)
  have "c_safe (load_inv le) (c_modify (\<lambda>g. g\<lparr>gl_defaultPolicy := cf_DefaultPolicy conf\<rparr>)) (\<lambda>_. True)" if "conf_ok conf" for conf
    by (rule load_inv_modify) (use that in \<open>auto simp: load_inv_def env_of_def dial_env_ok_def conf_ok_def\<close>)
  moreover have "c_safe (load_inv le) (c_modify (\<lambda>g. g\<lparr>gl_dnsSingleflight := (a \<or> gl_dnsSingleflight g),
      gl_ttlSingleflight := (b \<or> gl_ttlSingleflight g)\<rparr>)) (\<lambda>_. True)" for a b
    by (rule load_inv_modify) (auto simp: load_inv_def env_of_def)
  ultimately have steps: "conf_ok conf \<and> pools_probed le conf \<Longrightarrow> c_safe (load_inv le) (loadSteps le now conf) (\<lambda>_. True)" for conf
    unfolding loadSteps_def
    by (intro c_safe_bind [where P = "\<lambda>_. True"] loadLevel_safe loadPools_safe loadCaches_safe loadFakeTTL_safe loadMatchers_safe
        loadExchange_safe c_safe_return TrueI assms(1)) auto
  show ?thesis unfolding LoadConfig_def
  proof (rule c_safe_bind [where P = "\<lambda>doc. le_file le f = Inr doc"])
    show "c_safe (load_inv le) (c_lift (le_file le f)) (\<lambda>doc. le_file le f = Inr doc)" using opened by (rule c_safe_lift)
    fix doc assume doc: "le_file le f = Inr doc"
    show "c_safe (load_inv le) (c_bind (c_lift (decodeConfig (le_lookupIP le) doc)) (loadSteps le now)) (\<lambda>_. True)"
      by (rule c_safe_bind [OF c_safe_lift [OF dec [of doc], where Q = "\<lambda>conf. conf_ok conf \<and> pools_probed le conf"]])
        (auto intro: steps decodeConfig_ok assms(2) [OF doc])
  qed
qed


section \<open>A sample configuration file\<close>

definition sampleDoc :: json where
  "sampleDoc = JObj [(''socks5_address'', JStr ''127.0.0.1:1080''), (''dns_addr'', JStr ''1.1.1.1:53''), (''dns_cache_ttl'', JInt 60),
     (''dns_cache_cap'', JInt 100),
     (''ip_pools'', JObj [(''p'', JObj [(''ips'', JArr [JStr ''1.1.1.1'', JStr ''8.8.8.8'']), (''port'', JInt 443), (''attempts'', JInt 2)])]),
     (''domain_policies'', JObj [(''a.b'', JObj [(''mode'', JStr ''block'')])])]"

definition sampleRule :: Policy where
  "sampleRule = blockPolicy\<lparr>p_Port := -1\<rparr>"

lemma sampleRule_parsed: "Policy_UnmarshalJSON [(''mode'', JStr ''block'')] = Inr sampleRule"
  by (simp add: Policy_UnmarshalJSON_def json_eval sampleRule_def blockPolicy_def unsetPolicy_def zeroPolicy_def)

definition sampleLoad :: load_env where
  "sampleLoad = \<lparr>le_file = (\<lambda>f. Inr sampleDoc), le_lookupIP = sampleResolver, le_probes = (\<lambda>tag. sampleProbes), le_tags = (\<lambda>ts. ts),
     le_order = (\<lambda>ps. ps), le_newCache = (\<lambda>n. if n = 0 then Inl (Error ''capacity must be positive'') else Inr ()), le_sort = (\<lambda>rs. rs),
     le_windows = False, le_gfwList = [], le_urlHost = (\<lambda>u. None), le_parseURL = (\<lambda>u. Inr (''dns.example'', [])), le_socksDialer = (\<lambda>a. Inr ()),
     le_base = sampleDial\<rparr>"

definition sampleGlobals :: globals where
  "sampleGlobals = \<lparr>gl_logLevel = INFO, gl_defaultPolicy = zeroPolicy, gl_core = sampleCore, gl_dnsSingleflight = False, gl_ttlSingleflight = False,
     gl_dnsCacheTTL = 0, gl_ttl = \<lparr>ts_ttlCache = None, ts_dials = 0\<rparr>, gl_ttlCacheTTL = 0, gl_calcTTL = None, gl_sem = None,
     gl_domainMatcher = None, gl_gfw = \<lparr>gfwDomainMatcher = None, gfwBypassMatcher = None\<rparr>, gl_ipMatchers = buildIPMatchers [],
     gl_dnsAddr = [], gl_exchange = NoExchange, gl_dohConnPolicy = None\<rparr>"

lemma sampleDoc_decoded:
  "\<exists>conf. decodeConfig sampleResolver sampleDoc = Inr conf \<and> cf_IPPools conf = [(''p'', Some samplePool)]
    \<and> cf_Socks5Addr conf = ''127.0.0.1:1080'' \<and> cf_DefaultPolicy conf = zeroPolicy
    \<and> cf_DomainPolicies conf = [(''a.b'', sampleRule)]"
  by (simp add: sampleDoc_def decodeFields_def json_eval samplePool_parsed sampleRule_parsed)

lemma sampleLoad_ok: "load_env_ok sampleLoad"
  by (simp add: load_env_ok_def sampleLoad_def sampleResolver_def sampleDial_def sampleEnv_def)

lemma sampleGlobals_inv: "load_inv sampleLoad sampleGlobals"
  using sampleCore_inv sampleDial_ok
  by (auto simp: load_inv_def sampleGlobals_def env_of_def dial_env_ok_def dns_env_ok_def zeroPolicy_in_range sampleLoad_def
      dest!: getIPPolicy_value)

lemma sampleLoad_succeeds: "\<exists>g'. LoadConfig sampleLoad 0 ''config.json'' sampleGlobals = Some (g', Inr (''127.0.0.1:1080'', []))"
proof -
  have "samplePool\<lparr>pool_cancelled := False\<rparr> = samplePool" by (simp add: samplePool_def zeroPool_def)
  then have "pool_Init samplePool sampleProbes = Inr samplePool1"
    using sample_scan by (simp add: pool_Init_def samplePool1_fields)
  moreover have "loadBuiltinGFWList (\<lambda>u. None) [] = Inr \<lparr>gfwDomainMatcher = Some NewDomainMatcher, gfwBypassMatcher = Some NewDomainMatcher\<rparr>"
    by (simp add: loadBuiltinGFWList_def parseEmbeddedGFWList_def addRule_def TrimSpace_def mapKeysSorted_def)
  ultimately show ?thesis
    by (simp add: LoadConfig_def loadSteps_def sampleDoc_def decodeFields_def json_eval samplePool_parsed sampleRule_parsed sampleLoad_def loadLevel_def loadPools_def
        loadDNSCache_def loadTTLCache_def loadFakeTTL_def loadMatchers_def loadExchange_def newCache_def c_wrap_def c_map_error_def
        c_bind_def c_modify_def HasPrefix_def)
qed


section \<open>Configurations with surprising effects\<close>

text \<open>A pool that is null in the file: loading panics when it comes to it.\<close>

lemma null_pool_panics: "map_of pools tag = Some None \<Longrightarrow> initPools le pools (tag # tags) g = Some (g, Inl (Panic ''nil pointer dereference''))"
  by simp

text \<open>A capacity of \<open>2 ^ 32\<close> passes the check and becomes 0: whether the cache can be made is up to the library, at a capacity of 0.\<close>

lemma capacity_truncated:
  assumes "le_newCache le 0 = Inl (Error e)" "cf_DNSCacheTTL conf > 0" "cf_DNSCacheCapacity conf = 2 ^ 32"
  shows "\<exists>g'. loadDNSCache le conf g = Some (g', Inl (Error (''init dns cache: '' @ e)))"
proof -
  have w: "(word_of_int (cf_DNSCacheCapacity conf) :: 32 word) = 0" and "\<not> cf_DNSCacheCapacity conf < 1"
    using assms(3) by simp_all
  then show ?thesis using assms(1,2) by (simp add: loadDNSCache_def newCache_def c_bind_def)
qed

text \<open>
  Without a default policy the server of a DoH address without a rule is dialled at port 0: the zero port is not the
  one that stands for no port.
\<close>

lemma doh_without_default_policy:
  assumes "le_parseURL le addr = Inr (host, port)" "ParseIP host = None" "de_defaultPolicy env = zeroPolicy"
    and "env_domainMatcher (de_dns env) = Some m" "DomainMatcher_Find m host = None"
  shows "genDialContext le env now addr s = Some (s, Inr (JoinHostPort host ''0'', zeroPolicy))"
proof -
  have "p_Host zeroPolicy = None" "p_Port zeroPolicy = 0" by (simp_all add: zeroPolicy_def)
  then show ?thesis using assms
    by (simp add: genDialContext_def dohName_def c_bind_def c_wrap_def c_map_error_def unsetInt_def Itoa_def string_of_nat.simps)
qed

text \<open>
  A policy without a mode, as a default policy of the file that names none is: the ClientHello to the DNS server is dropped, and the
  connection reports that it was written.
\<close>

lemma hello_dropped_without_mode:
  assumes "\<not> ic_handled s" "p_Mode p = ModeUnknown" "p_TLS13Only p \<noteq> BoolTrue"
    and "parseClientHello b = Inr info" "hello_err info = None" "sniPos info \<noteq> -1"
  shows "interceptConn_Write env now p raddr b s = Some (s\<lparr>ic_handled := True\<rparr>, Inr (length b))"
  using assms by (simp add: interceptConn_Write_def ic_send_def)

text \<open>
  The same happens under a default policy that asks for fragmented records and does not say how many: it is not merged, so the number
  is 0, and no record is sent.
\<close>

lemma hello_dropped_without_records:
  assumes "\<not> ic_handled s" "p_Mode p = ModeTLSRF" "p_NumRecords p = 0" "p_NumSegments p = 0"
    and "p_OOBEx p \<noteq> BoolTrue" "p_ModMinorVer p \<noteq> BoolTrue" "p_TLS13Only p \<noteq> BoolTrue"
    and "parseClientHello b = Inr info" "hello_err info = None" "sniPos info \<noteq> -1"
    and "findLastDot b (sniPos info) (sniLen info) = Inr (pivot, found)" "5 \<le> pivot" "pivot \<le> int (length b)"
    and "conn_Write [] (ic_Conn s) = (Inr (), c)"
  shows "interceptConn_Write env now p raddr b s = Some (s\<lparr>ic_handled := True, ic_Conn := c\<rparr>, Inr (length b))"
proof -
  have "recordChunks b (sniPos info) (sniLen info) 0 = Inr []"
    using assms(11-13) by (simp add: recordChunks_def Let_def go_div_def go_slice_def splitAndAppend_nonpos)
  then have "sendRecords b (sniPos info) (sniLen info) 0 0 oob False False t (ic_Conn s) = (Inr (), c)" for oob t
    using assms(14) by (simp add: sendRecords_def io_bind_def io_lift_def io_return_def)
  then show ?thesis using assms(1-10)
    by (simp add: interceptConn_Write_def ic_send_def c_bind_def c_modify_def ic_io_def c_wrap_def c_map_error_def)
qed

section \<open>What the server of a DoH address receives\<close>

text \<open>After the first write, data is passed on as it is.\<close>

lemma interceptConn_later:
  assumes "ic_handled s" "conn_Write b (ic_Conn s) = (Inr (), c)"
  shows "interceptConn_Write env now p raddr b s = Some (s\<lparr>ic_Conn := c\<rparr>, Inr (length b))"
  using assms by (simp add: interceptConn_Write_def c_bind_def ic_io_def)

text \<open>A first write that blocks or is not a ClientHello sends nothing.\<close>

lemma interceptConn_refused:
  assumes "\<not> ic_handled s" "p_Mode p \<in> {ModeBlock, ModeTLSAlert} \<or> parseClientHello b = Inr info \<and> hello_err info \<noteq> None"
  shows "\<exists>e. interceptConn_Write env now p raddr b s = Some (s\<lparr>ic_handled := True\<rparr>, Inl (Error e))"
  using assms by (auto simp: interceptConn_Write_def)

end
