(* ===== verification/Mobile_Bridge.thy ===== *)
theory Mobile_Bridge
  imports Config_Load
begin

text \<open>
  The bridge between the VPN and the core, \<^verbatim>\<open>src/mobile\<close>, and the relay of datagrams in front of it, \<^verbatim>\<open>src/tun2socks/tunnel/udp.go\<close>
  with \<^verbatim>\<open>src/tun2socks/metadata/metadata.go\<close>.

  \<open>Metadata\<close> says where a connection of an application goes; \<open>DialContext\<close> and \<open>DialUDP\<close> plan it.  Datagrams go through the record
  \<open>billPacketConn\<close>, whose queue is \<open>queuedPacketConn\<close>: its operations return \<open>None\<close> while they wait, and \<open>queue_run\<close> are the states that any
  interleaving of them reaches.  \<open>serveLocalDNSTCP\<close> answers DNS queries on a TCP connection.  \<open>StartBill\<close> and the
  operations around it are the interface of the Android application.

  \<open>copyPacketData_nat\<close> turns the filter of the symmetric NAT into a filter of what is read; the statistics of the
  tunnel pass data through and are left out.
\<close>

section \<open>Where a connection comes from and goes to\<close>

datatype Network = TCP | UDP

record Metadata =
  md_Network :: Network
  md_SrcIP :: "addr option"
  md_MidIP :: "addr option"
  md_DstIP :: "addr option"
  md_SrcPort :: "16 word"
  md_MidPort :: "16 word"
  md_DstPort :: "16 word"

text \<open>\<^verbatim>\<open>netip.AddrPort.String\<close>; the zero address is not valid.\<close>

definition AddrPort_String :: "addr option \<Rightarrow> nat \<Rightarrow> string" where
  "AddrPort_String ip port =
     (case ip of
        None \<Rightarrow> ''invalid AddrPort''
      | Some (IP4 w) \<Rightarrow> addr_String (IP4 w) @ '':'' @ string_of_nat port
      | Some (IP6 w z) \<Rightarrow> ''['' @ addr_String (IP6 w z) @ '']:'' @ string_of_nat port)"

definition DestinationAddress :: "Metadata \<Rightarrow> string" where
  "DestinationAddress m = AddrPort_String (md_DstIP m) (unat (md_DstPort m))"

definition SourceAddress :: "Metadata \<Rightarrow> string" where
  "SourceAddress m = AddrPort_String (md_SrcIP m) (unat (md_SrcPort m))"

definition Metadata_UDPAddr :: "Metadata \<Rightarrow> endpoint option" where
  "Metadata_UDPAddr m = (if md_Network m \<noteq> UDP \<or> md_DstIP m = None then None else Some (md_DstIP m, unat (md_DstPort m)))"

text \<open>The address of a datagram: a \<^verbatim>\<open>net.UDPAddr\<close>, or a \<^verbatim>\<open>net.Addr\<close> of another type with its text.\<close>

datatype packet_addr = UDPAddr endpoint | TextAddr string

fun no_zone :: "addr \<Rightarrow> addr" where
  "no_zone (IP4 w) = IP4 w"
| "no_zone (IP6 w z) = IP6 w []"

definition UDPAddr_String :: "endpoint \<Rightarrow> string" where
  "UDPAddr_String e =
     JoinHostPort
       (case fst e of None \<Rightarrow> [] | Some a \<Rightarrow> IP_String (no_zone a) @ (if addr_zone a = [] then [] else CHR ''%'' # addr_zone a))
       (string_of_nat (snd e))"

fun packetAddr_String :: "packet_addr \<Rightarrow> string" where
  "packetAddr_String (UDPAddr e) = UDPAddr_String e"
| "packetAddr_String (TextAddr s) = s"

text \<open>\<^verbatim>\<open>netip.ParseAddrPort\<close>.\<close>

definition ParseAddrPort :: "string \<Rightarrow> (addr \<times> nat) option" where
  "ParseAddrPort s =
     (case last_index_byte (CHR '':'') s of
        None \<Rightarrow> None
      | Some i \<Rightarrow>
          let host = take i s; port = drop (i + 1) s; v6 = (host \<noteq> [] \<and> hd host = CHR ''['') in
          if host = [] \<or> port = [] \<or> v6 \<and> (length host < 2 \<or> last host \<noteq> CHR '']'') then None
          else
            case (ParseUint16 port, ParseAddr (if v6 then butlast (tl host) else host)) of
              (Some p, Some a) \<Rightarrow> if v6 = Is4 a then None else Some (a, p)
            | _ \<Rightarrow> None)"

section \<open>Relaying datagrams\<close>

text \<open>
  What a read of a packet connection returns: a datagram with the address it came from, if there is one, or an error;
  \<open>ReadTimeout\<close> and \<open>ReadEOF\<close> are the errors the relay tells apart.
\<close>

datatype packet_read = Datagram bytes "packet_addr option" | ReadTimeout | ReadEOF | ReadFailed string

fun read_from :: "packet_read \<Rightarrow> packet_addr option" where
  "read_from (Datagram _ from) = from"
| "read_from _ = None"

text \<open>\<^verbatim>\<open>symmetricNATPacketConn.ReadFrom\<close>: of the reads to come, the first one that is not dropped, and those after it.\<close>

fun symmetricNAT_ReadFrom :: "string \<Rightarrow> packet_read list \<Rightarrow> (packet_read \<times> packet_read list) option" where
  "symmetricNAT_ReadFrom dst [] = None"
| "symmetricNAT_ReadFrom dst (r # rs) =
     (case read_from r of
        Some from \<Rightarrow> if packetAddr_String from \<noteq> dst then symmetricNAT_ReadFrom dst rs else Some (r, rs)
      | None \<Rightarrow> Some (r, rs))"

definition MaxSegmentSize :: nat where "MaxSegmentSize = 2 ^ 16 - 1"

text \<open>
  \<^verbatim>\<open>copyPacketData\<close>: \<open>next_read\<close> takes a read from those to come, and \<open>write\<close> writes a datagram to the other side.  When nothing
  comes any more the deadline ends the relay.
\<close>

lemma symmetricNAT_shorter: "symmetricNAT_ReadFrom dst rs = Some (r, rs') \<Longrightarrow> length rs' < length rs"
  by (induction dst rs rule: symmetricNAT_ReadFrom.induct) (auto split: option.splits if_splits)

function copyPacketData :: "string option \<Rightarrow> (bytes \<Rightarrow> ('s, 'a) comp) \<Rightarrow> packet_read list \<Rightarrow> ('s, unit) comp" where
  "copyPacketData nat_dst write rs =
     (case (case nat_dst of Some dst \<Rightarrow> symmetricNAT_ReadFrom dst rs | None \<Rightarrow> (case rs of [] \<Rightarrow> None | r # rs' \<Rightarrow> Some (r, rs'))) of
        None \<Rightarrow> c_return ()
      | Some (ReadTimeout, _) \<Rightarrow> c_return ()
      | Some (ReadEOF, _) \<Rightarrow> c_return ()
      | Some (ReadFailed e, _) \<Rightarrow> c_fail e
      | Some (Datagram b _, rs') \<Rightarrow>
          c_bind (write (take MaxSegmentSize b)) (\<lambda>_. copyPacketData nat_dst write rs'))"
  by pat_completeness auto
termination
  by (relation "measure (\<lambda>(d, w, rs). length rs)") (auto dest: symmetricNAT_shorter split: option.splits list.splits)

declare copyPacketData.simps [simp del]

section \<open>The queue of a packet connection\<close>

text \<open>
  \<^verbatim>\<open>queuedPacketConn\<close>: the channel of at most 32 packets, whether it has been closed, the deadline of reads, none for the zero time, and what
  its socket has sent, with the error, if any, of each send.
\<close>

record queuedPacketConn =
  qc_packets :: "(bytes \<times> endpoint) list"
  qc_closed :: bool
  qc_readDeadline :: "instant option"
  qc_sent :: "(bytes \<times> endpoint) list"
  qc_fault :: "nat \<Rightarrow> string option"

definition queueSize :: nat where "queueSize = 32"

definition newQueuedPacketConn :: "(nat \<Rightarrow> string option) \<Rightarrow> queuedPacketConn" where
  "newQueuedPacketConn fault = \<lparr>qc_packets = [], qc_closed = False, qc_readDeadline = None, qc_sent = [], qc_fault = fault\<rparr>"

text \<open>
  A \<^verbatim>\<open>select\<close> waits until one of its branches is ready and, when several are, takes any of them: \<open>pick\<close> is its choice.
  The value \<open>None\<close> is an operation that waits.
\<close>

definition select :: "nat \<Rightarrow> 'a list \<Rightarrow> 'a option" where
  "select pick ready = (if ready = [] then None else Some (ready ! (pick mod length ready)))"

definition EnqueuePacket :: "nat \<Rightarrow> bytes \<Rightarrow> endpoint \<Rightarrow> (queuedPacketConn, unit) comp" where
  "EnqueuePacket pick payload addr = (\<lambda>q.
     select pick
       ((if length (qc_packets q) < queueSize then [(q\<lparr>qc_packets := qc_packets q @ [(payload, addr)]\<rparr>, Inr ())] else [])
        @ (if qc_closed q then [(q, Inl (Error ''use of closed network connection''))] else [])))"

text \<open>One round of \<^verbatim>\<open>pumpBaseReads\<close>: whether the loop goes on after a read of the socket.\<close>

definition pumpBaseReads :: "nat \<Rightarrow> (bytes \<times> endpoint) go \<Rightarrow> (queuedPacketConn, bool) comp" where
  "pumpBaseReads pick r = (\<lambda>q.
     case r of
       Inl e \<Rightarrow> Some (q, Inr False)
     | Inr (buf, addr) \<Rightarrow>
         select pick
           ((if length (qc_packets q) < queueSize then [(q\<lparr>qc_packets := qc_packets q @ [(take (64 * 1024) buf, addr)]\<rparr>, Inr True)] else [])
            @ (if qc_closed q then [(q, Inr False)] else [])))"

text \<open>\<open>now\<close> is the time of the call and \<open>t\<close> the time of the choice.\<close>

definition queued_ReadFrom :: "nat \<Rightarrow> instant \<Rightarrow> instant \<Rightarrow> nat \<Rightarrow> (queuedPacketConn, bytes \<times> endpoint) comp" where
  "queued_ReadFrom pick now t n = (\<lambda>q.
     if (case qc_readDeadline q of Some d \<Rightarrow> d \<le> now | None \<Rightarrow> False) then Some (q, Inl (Error ''i/o timeout''))
     else
       select pick
         ((case qc_packets q of
             [] \<Rightarrow> []
           | (payload, addr) # rest \<Rightarrow> [(q\<lparr>qc_packets := rest\<rparr>, Inr (take n payload, addr))])
          @ (case qc_readDeadline q of Some d \<Rightarrow> if d \<le> t then [(q, Inl (Error ''i/o timeout''))] else [] | None \<Rightarrow> [])
          @ (if qc_closed q then [(q, Inl (Error ''use of closed network connection''))] else [])))"

text \<open>
  The writes go to the socket.  \<^verbatim>\<open>Close\<close> looks whether the channel is closed and then closes it; the two steps are apart, and closing a
  closed channel panics.  The result of closing the socket is left out.
\<close>

definition queued_WriteTo :: "bytes \<Rightarrow> endpoint \<Rightarrow> (queuedPacketConn, nat) comp" where
  "queued_WriteTo p addr = (\<lambda>q.
     case qc_fault q (length (qc_sent q)) of
       Some e \<Rightarrow> Some (q, Inl (Error e))
     | None \<Rightarrow> Some (q\<lparr>qc_sent := qc_sent q @ [(p, addr)]\<rparr>, Inr (length p)))"

definition close_closed :: "(queuedPacketConn, unit) comp" where
  "close_closed = (\<lambda>q. if qc_closed q then Some (q, Inl (Panic ''close of closed channel'')) else Some (q\<lparr>qc_closed := True\<rparr>, Inr ()))"

definition queued_Close :: "(queuedPacketConn, unit) comp" where
  "queued_Close = (\<lambda>q. (if qc_closed q then c_return () else close_closed) q)"

definition SetReadDeadline :: "instant option \<Rightarrow> (queuedPacketConn, unit) comp" where
  "SetReadDeadline t = c_modify (\<lambda>q. q\<lparr>qc_readDeadline := t\<rparr>)"

section \<open>The bridge of the VPN\<close>

text \<open>
  What the bridge relies on: the surroundings of the planner, the wire format of the DNS library, the dialer and \<^verbatim>\<open>net.ResolveUDPAddr\<close>, the
  sockets for datagrams, and the names of the DNS library for log texts.
\<close>

record mobile_env =
  me_dial_env :: dial_env
  me_unpack :: "bytes \<Rightarrow> Msg go"
  me_pack :: "Msg \<Rightarrow> bytes go"
  me_dial :: "string \<Rightarrow> duration \<Rightarrow> conn go"
  me_resolveUDPAddr :: "string \<Rightarrow> endpoint go"
  me_listen :: "(nat \<Rightarrow> string option) go"
  me_typeName :: "16 word \<Rightarrow> string"

record mobile_state =
  ms_core :: core_state
  ms_tcpDialID :: "32 word"
  ms_udpDialID :: "32 word"
  ms_ttl :: ttl_state

type_synonym 'a mobile = "(mobile_state, 'a) comp"

definition nextID :: "32 word \<Rightarrow> 32 word \<times> 32 word" where
  "nextID counter = (let n = counter + 1 in if n > 0xFFFFF then (0, 0) else (n, n))"

definition in_core :: "'a core \<Rightarrow> 'a mobile" where
  "in_core = c_zoom ms_core (\<lambda>t s. s\<lparr>ms_core := t\<rparr>)"

definition answerPacket :: "mobile_env \<Rightarrow> instant \<Rightarrow> bytes \<Rightarrow> bytes core" where
  "answerPacket env now payload = on_dns (HandleDNSQueryPacket (me_unpack env) (me_pack env) (de_dns (me_dial_env env)) now payload)"

definition mobileRequest :: "string \<Rightarrow> nat \<Rightarrow> RequestContext" where
  "mobileRequest host port = \<lparr>rc_Source = RequestSourceMobile, rc_Host = host, rc_Port = int port, rc_DomainTargetMode = ResolveDomainTarget\<rparr>"

text \<open>The connection that is handed to the tunnel: one to the DNS server of the core, one as it was dialled, or a wrapped one.\<close>

datatype mobile_conn = LocalDNS | Plain conn | Wrapped policyConn DialPlan

definition DialContext :: "mobile_env \<Rightarrow> instant \<Rightarrow> Metadata option \<Rightarrow> mobile_conn mobile" where
  "DialContext env now m =
     (case Option.bind m (\<lambda>m. map_option (Pair m) (md_DstIP m)) of
        None \<Rightarrow> c_fail ''invalid tcp metadata''
      | Some (m, ip) \<Rightarrow>
          let originHost = addr_String ip; port = unat (md_DstPort m) in
          c_bind (c_modify (\<lambda>s. s\<lparr>ms_tcpDialID := fst (nextID (ms_tcpDialID s))\<rparr>)) (\<lambda>_.
          if IsVPNDNSAddress originHost (int port) then c_return LocalDNS
          else
            c_bind (in_core (PlanRequest (me_dial_env env) now True (mobileRequest originHost port))) (\<lambda>plan.
            if dp_Blocked plan then c_fail (''blocked by policy: '' @ originHost)
            else
              c_bind (c_lift (me_dial env (TargetAddress plan) (DefaultDialTimeout (dp_Policy plan)))) (\<lambda>conn s.
              Some (s, Inr (if p_Mode (dp_Policy plan) = ModeTTLD then Plain conn else Wrapped (WrapTCPConn conn (ms_ttl s)) plan))))))"

subsection \<open>Datagrams\<close>

definition DialUDP :: "mobile_env \<Rightarrow> Metadata option \<Rightarrow> queuedPacketConn mobile" where
  "DialUDP env m =
     c_bind (c_modify (\<lambda>s. s\<lparr>ms_udpDialID := fst (nextID (ms_udpDialID s))\<rparr>)) (\<lambda>_.
     if m = None \<or> md_DstIP (the m) = None then c_fail ''invalid udp metadata''
     else c_bind (c_lift (me_listen env)) (\<lambda>fault. c_return (newQueuedPacketConn fault)))"

text \<open>A packet connection of the bridge works on the state of the core and on its queue.\<close>

record billPacketConn =
  bp_core :: core_state
  bp_queue :: queuedPacketConn

type_synonym 'a packets = "(billPacketConn, 'a) comp"

definition bp_in_core :: "'a core \<Rightarrow> 'a packets" where
  "bp_in_core = c_zoom bp_core (\<lambda>t s. s\<lparr>bp_core := t\<rparr>)"

definition on_queue :: "(queuedPacketConn, 'a) comp \<Rightarrow> 'a packets" where
  "on_queue = c_zoom bp_queue (\<lambda>t s. s\<lparr>bp_queue := t\<rparr>)"

definition bill_handleDNSQuery :: "mobile_env \<Rightarrow> nat \<Rightarrow> instant \<Rightarrow> bytes \<Rightarrow> endpoint \<Rightarrow> nat packets" where
  "bill_handleDNSQuery env pick now payload addr =
     c_bind (bp_in_core (answerPacket env now payload)) (\<lambda>resp.
     c_bind (on_queue (EnqueuePacket pick resp addr)) (\<lambda>_. c_return (length payload)))"

definition packetDestination :: "packet_addr \<Rightarrow> endpoint \<Rightarrow> addr option" where
  "packetDestination addr udpAddr =
     (case ParseAddrPort (packetAddr_String addr) of Some (a, _) \<Rightarrow> Some (no_zone a) | None \<Rightarrow> map_option no_zone (fst udpAddr))"

definition bill_WriteTo :: "mobile_env \<Rightarrow> nat \<Rightarrow> instant \<Rightarrow> bytes \<Rightarrow> packet_addr \<Rightarrow> nat packets" where
  "bill_WriteTo env pick now b addr =
     c_bind (c_lift (case addr of UDPAddr e \<Rightarrow> Inr e | TextAddr s \<Rightarrow> me_resolveUDPAddr env s)) (\<lambda>udpAddr.
     case packetDestination addr udpAddr of
       None \<Rightarrow> c_fail (''invalid udp destination: '' @ packetAddr_String addr)
     | Some dstIP \<Rightarrow>
         let originHost = IP_String dstIP in
         if IsVPNDNSAddress originHost (int (snd udpAddr)) then bill_handleDNSQuery env pick now b udpAddr
         else
           c_bind (bp_in_core (PlanRequest (me_dial_env env) now True (mobileRequest originHost (snd udpAddr)))) (\<lambda>plan.
           if dp_Blocked plan then c_fail (''blocked by policy: '' @ originHost)
           else
             c_bind (c_lift (me_resolveUDPAddr env (TargetAddress plan))) (\<lambda>dst.
             on_queue (queued_WriteTo b dst))))"

subsection \<open>DNS over TCP\<close>

text \<open>
  The server side of the connection: what the client writes, in the pieces in which it arrives, and the frames written
  to it, with the error, if any, of each write.
\<close>

record dns_tcp =
  dt_core :: core_state
  dt_in :: "bytes list"
  dt_out :: "bytes list"
  dt_fault :: "nat \<Rightarrow> string option"

definition dnsFrame :: "bytes \<Rightarrow> bytes" where
  "dnsFrame resp = put16 (length resp mod 65536) @ resp"

lemma frame_shorter:
  assumes "(lengthBuf, in1) = readFull 2 cs" "\<not> length lengthBuf < 2" "(payload, in2) = readFull n in1"
  shows "length (concat in2) < length (concat cs)"
proof -
  have "length (concat in2) \<le> length (concat in1)" using readFull_concat(2) [of n in1] assms(3) by (metis diff_le_self length_drop snd_conv)
  moreover have "lengthBuf = take 2 (concat cs)" "concat in1 = drop 2 (concat cs)"
    using readFull_concat [of 2 cs] assms(1) by (metis fst_conv, metis snd_conv)
  ultimately show ?thesis using assms(2) by (simp del: length_concat)
qed

text \<open>\<^verbatim>\<open>serveLocalDNSTCP\<close>; \<open>clock\<close> gives the time of each query.\<close>

function serveLocalDNSTCP :: "mobile_env \<Rightarrow> (nat \<Rightarrow> instant) \<Rightarrow> dns_tcp \<Rightarrow> (dns_tcp \<times> unit go) option" where
  "serveLocalDNSTCP env clock s =
     (let (lengthBuf, in1) = readFull 2 (dt_in s) in
      if length lengthBuf < 2 then Some (s\<lparr>dt_in := in1\<rparr>, Inr ())
      else
        let msgLen = be16 (lengthBuf ! 0) (lengthBuf ! 1) in
        if msgLen = 0 then Some (s\<lparr>dt_in := in1\<rparr>, Inr ())
        else
          let (payload, in2) = readFull msgLen in1 in
          if length payload < msgLen then Some (s\<lparr>dt_in := in2\<rparr>, Inr ())
          else
            case answerPacket env (clock (length (dt_out s))) payload (dt_core s) of
              None \<Rightarrow> None
            | Some (core, Inl (Panic e)) \<Rightarrow> Some (s\<lparr>dt_core := core, dt_in := in2\<rparr>, Inl (Panic e))
            | Some (core, Inl (Error e)) \<Rightarrow> Some (s\<lparr>dt_core := core, dt_in := in2\<rparr>, Inr ())
            | Some (core, Inr resp) \<Rightarrow>
                if dt_fault s (length (dt_out s)) \<noteq> None then Some (s\<lparr>dt_core := core, dt_in := in2\<rparr>, Inr ())
                else serveLocalDNSTCP env clock (s\<lparr>dt_core := core, dt_in := in2, dt_out := dt_out s @ [dnsFrame resp]\<rparr>))"
  by pat_completeness auto
termination
  by (relation "measure (\<lambda>(env, clock, s). length (concat (dt_in s)))") (simp_all del: length_concat add: frame_shorter)

declare serveLocalDNSTCP.simps [simp del]

subsection \<open>Log texts\<close>

definition joinPlanLogMessage :: "string \<Rightarrow> DialPlan \<Rightarrow> string \<Rightarrow> string" where
  "joinPlanLogMessage network plan target =
     (let origin = (if dp_RecoveredDomain plan = [] then OriginAddress plan
                    else if dp_OriginPort plan > 0 then JoinHostPort (dp_RecoveredDomain plan) (Itoa (dp_OriginPort plan))
                    else dp_RecoveredDomain plan)
      in network @ '' '' @ origin @ '' -> '' @ target @ '' mode='' @ Mode_String (p_Mode (dp_Policy plan)))"

text \<open>The level and the text of the line that is logged, if one is.\<close>

definition logDialPlan :: "string \<Rightarrow> DialPlan \<Rightarrow> string \<Rightarrow> (log_level \<times> string) option" where
  "logDialPlan network plan target =
     (if \<not> dp_MatchedDomain plan \<and> \<not> dp_MatchedIP plan \<and> \<not> dp_Blocked plan then None
      else Some (if p_Mode (dp_Policy plan) \<in> {ModeDirect, ModeRaw} then DEBUG else INFO, joinPlanLogMessage network plan target))"

definition joinAnswerParts :: "string list \<Rightarrow> string" where
  "joinAnswerParts parts = (case parts of [] \<Rightarrow> [] | p # ps \<Rightarrow> fold (\<lambda>x result. result @ '', '' @ x) ps p)"

definition summarizeDNSAnswers :: "(16 word \<Rightarrow> string) \<Rightarrow> RR list \<Rightarrow> string" where
  "summarizeDNSAnswers typeName answers =
     (if answers = [] then []
      else
        let limit = min (length answers) 3;
            summary = '' ['' @ joinAnswerParts (map (summarizeRR typeName) (take limit answers)) @ '']''
        in if length answers > limit then summary @ '' +'' @ string_of_nat (length answers - limit) else summary)"

text \<open>The identifier of a message is in its first two bytes.\<close>

definition summarizeDNSPacket :: "mobile_env \<Rightarrow> bytes \<Rightarrow> string" where
  "summarizeDNSPacket env payload =
     (case me_unpack env payload of
        Inl e \<Rightarrow> ''unpack_failed bytes='' @ string_of_nat (length payload) @ '' err='' @ (case e of Error m \<Rightarrow> m | Panic m \<Rightarrow> m)
      | Inr msg \<Rightarrow>
          let ident = ''id='' @ string_of_nat (be16 (payload ! 0) (payload ! 1));
              tail = '' answers='' @ string_of_nat (length (msg_Answer msg)) @ '' rcode='' @ env_rcodeName (de_dns (me_dial_env env)) (msg_Rcode msg)
                @ summarizeDNSAnswers (me_typeName env) (msg_Answer msg)
          in case msg_Question msg of
               [] \<Rightarrow> ident @ '' questions=0'' @ tail
             | q # _ \<Rightarrow>
                 ident @ '' q='' @ q_Name q @ '' type='' @
                 (if me_typeName env (q_Qtype q) = [] then ''TYPE'' @ string_of_nat (unat (q_Qtype q)) else me_typeName env (q_Qtype q)) @ tail)"

section \<open>The interface of the application\<close>

text \<open>
  The variables of \<^verbatim>\<open>mobile_api.go\<close>, those of the core, whether the bridge is the proxy of the engine, the device of the engine and
  whether the core logs to the application.  Of what is logged while the core starts only the first line is modelled.
\<close>

record api_state =
  ap_workingDir :: string
  ap_isRunning :: bool
  ap_logEntries :: "string list"
  ap_globals :: globals
  ap_customProxy :: bool
  ap_device :: "string option"
  ap_logToApp :: bool

definition maxLogs :: nat where "maxLogs = 500"

definition pushLog :: "string \<Rightarrow> api_state \<Rightarrow> api_state" where
  "pushLog msg s = (let entries = ap_logEntries s @ [msg] in s\<lparr>ap_logEntries := (if length entries > maxLogs then drop 1 entries else entries)\<rparr>)"

definition LogWriter_Write :: "string \<Rightarrow> api_state \<Rightarrow> api_state \<times> nat" where
  "LogWriter_Write p s = (pushLog p s, length p)"

definition GetLogs :: "api_state \<Rightarrow> api_state \<times> string" where
  "GetLogs s = (if ap_logEntries s = [] then (s, []) else (s\<lparr>ap_logEntries := []\<rparr>, concat (ap_logEntries s)))"

definition SetWorkingDir :: "string \<Rightarrow> api_state \<Rightarrow> api_state" where
  "SetWorkingDir dir s = s\<lparr>ap_workingDir := dir\<rparr>"

text \<open>\<open>joinPath\<close> is \<^verbatim>\<open>filepath.Join\<close>, \<open>startEngine\<close> is \<^verbatim>\<open>engine.StartErr\<close> for a device and \<open>startLine\<close> the line that is logged first.\<close>

definition StartBill ::
  "load_env \<Rightarrow> instant \<Rightarrow> (string \<Rightarrow> string \<Rightarrow> string) \<Rightarrow> (string \<Rightarrow> unit go) \<Rightarrow> string \<Rightarrow> int \<Rightarrow> string \<Rightarrow> (api_state, string) comp" where
  "StartBill le now joinPath startEngine startLine fd configName = (\<lambda>s.
     (if ap_workingDir s = [] then c_return ''working directory not set''
      else if ap_isRunning s then c_return []
      else
        let device = ''fd://'' @ Itoa fd in
        c_bind (c_modify (\<lambda>s. (pushLog startLine (s\<lparr>ap_logEntries := []\<rparr>))\<lparr>ap_logToApp := True\<rparr>)) (\<lambda>_.
        c_bind (c_try (c_zoom ap_globals (\<lambda>g s. s\<lparr>ap_globals := g\<rparr>) (LoadConfig le now (joinPath (ap_workingDir s) (configName @ ''.json''))))) (\<lambda>r.
        case r of
          Inl (Error e) \<Rightarrow> c_return (''load config error: '' @ e)
        | Inl (Panic e) \<Rightarrow> c_lift (Inl (Panic e))
        | Inr _ \<Rightarrow>
            c_bind (c_modify (\<lambda>s. s\<lparr>ap_customProxy := True, ap_device := Some device\<rparr>)) (\<lambda>_.
            case startEngine device of
              Inl (Error e) \<Rightarrow> c_bind (c_modify (\<lambda>s. s\<lparr>ap_customProxy := False\<rparr>)) (\<lambda>_. c_return (''engine start error: '' @ e))
            | Inl (Panic e) \<Rightarrow> c_lift (Inl (Panic e))
            | Inr _ \<Rightarrow> c_bind (c_modify (\<lambda>s. s\<lparr>ap_isRunning := True\<rparr>)) (\<lambda>_. c_return []))))) s)"

definition StopBill :: "api_state \<Rightarrow> api_state" where
  "StopBill s = (if \<not> ap_isRunning s then s else s\<lparr>ap_customProxy := False, ap_isRunning := False, ap_logToApp := False\<rparr>)"

definition CheckConfig :: "(string \<Rightarrow> json go) \<Rightarrow> (string \<Rightarrow> addr list go) \<Rightarrow> string \<Rightarrow> string go" where
  "CheckConfig parse lookupIP jsonContent =
     (case go_bind (parse jsonContent) (decodeConfig lookupIP) of
        Inl (Error e) \<Rightarrow> Inr (''invalid json: '' @ e)
      | Inl (Panic e) \<Rightarrow> Inl (Panic e)
      | Inr _ \<Rightarrow> Inr [])"

section \<open>Texts of addresses\<close>

text \<open>An address that every form of \<^verbatim>\<open>String\<close> prints in the same way.\<close>

definition plain_addr :: "addr \<Rightarrow> bool" where
  "plain_addr a \<longleftrightarrow> addr_zone a = [] \<and> \<not> Is4In6 a"

lemma plain_cases:
  assumes "plain_addr a"
  obtains w where "a = IP4 w" | w where "a = IP6 w []" "\<not> Is4In6 (IP6 w [])"
  using assms by (cases a) (auto simp: plain_addr_def)

lemma UDPAddr_String_plain: "plain_addr a \<Longrightarrow> UDPAddr_String (Some a, port) = AddrPort_String (Some a) port"
  using string6_colon string4_no_colon by (elim plain_cases) (auto simp: UDPAddr_String_def AddrPort_String_def JoinHostPort_def IP_String_def)

lemma ParseUint16_string [simp]: "port < 65536 \<Longrightarrow> ParseUint16 (string_of_nat port) = Some port"
  using string_of_nat_digits [of _ port] by (auto simp: ParseUint16_def list_all_iff)

lemma ParseAddrPort_plain:
  assumes "plain_addr a" "port < 65536"
  shows "ParseAddrPort (AddrPort_String (Some a) port) = Some (a, port)"
proof -
  have p: "CHR '':'' \<notin> set (string_of_nat port)" using string_of_nat_digits [of "CHR '':''" port] by (auto simp: is_digit_def)
  note l = last_index_byte_append [OF p]
  show ?thesis using assms(1)
  proof (cases rule: plain_cases)
    case (1 w)
    have "hd (string4 w) \<noteq> CHR ''[''" using string4_chars [of "hd (string4 w)" w] by (auto simp: is_digit_def)
    then show ?thesis using 1 l [of "string4 w"] assms(2) by (simp add: ParseAddrPort_def AddrPort_String_def Let_def)
  next
    case (2 w)
    have "ParseAddrPort (''['' @ string6 w @ '']:'' @ string_of_nat port) = Some (IP6 w [], port)"
      using l [of "''['' @ string6 w @ '']''"] assms(2) by (simp add: ParseAddrPort_def Let_def ParseAddr_string6 butlast_append)
    then show ?thesis using 2 by (simp add: AddrPort_String_def del: Is4In6.simps)
  qed
qed

lemma plain_texts: "plain_addr a \<Longrightarrow> no_zone a = a \<and> IP_String a = addr_String a"
  by (elim plain_cases) (auto simp: IP_String_def)

lemma packetDestination_plain:
  "plain_addr a \<Longrightarrow> port < 65536 \<Longrightarrow> packetDestination (UDPAddr (Some a, port)) e = Some a"
  by (simp add: packetDestination_def UDPAddr_String_plain ParseAddrPort_plain plain_texts)

section \<open>The relay of datagrams\<close>

definition nat_passes :: "string \<Rightarrow> packet_read \<Rightarrow> bool" where
  "nat_passes dst r \<longleftrightarrow> (case read_from r of Some from \<Rightarrow> packetAddr_String from = dst | None \<Rightarrow> True)"

lemma symmetricNAT_filter:
  "symmetricNAT_ReadFrom dst rs = (case filter (nat_passes dst) rs of [] \<Rightarrow> None | r # _ \<Rightarrow> Some (r, tl (dropWhile (\<lambda>r. \<not> nat_passes dst r) rs)))"
proof (induction rs)
  case (Cons r rs)
  have "symmetricNAT_ReadFrom dst (r # rs) = (if nat_passes dst r then Some (r, rs) else symmetricNAT_ReadFrom dst rs)"
    by (simp add: nat_passes_def split: option.split)
  then show ?case using Cons by (cases "nat_passes dst r") (simp_all split: list.split)
qed simp

lemma filter_after: "filter P rs = r # rs' \<Longrightarrow> filter P (tl (dropWhile (\<lambda>r. \<not> P r) rs)) = rs'"
  by (induction rs) (auto split: if_splits)

text \<open>The filter of the symmetric NAT in front of a relay is a filter of what it reads.\<close>

lemma copyPacketData_nat:
  "copyPacketData (Some dst) write rs = copyPacketData None write (filter (nat_passes dst) rs)"
proof (induction "length rs" arbitrary: rs rule: less_induct)
  case less
  show ?case
  proof (cases "filter (nat_passes dst) rs")
    case Nil
    then show ?thesis
      by (subst copyPacketData.simps, subst copyPacketData.simps [of None]) (simp add: symmetricNAT_filter)
  next
    case (Cons r rs')
    let ?rest = "tl (dropWhile (\<lambda>r. \<not> nat_passes dst r) rs)"
    have s: "symmetricNAT_ReadFrom dst rs = Some (r, ?rest)" using Cons by (simp add: symmetricNAT_filter)
    have "copyPacketData (Some dst) write ?rest = copyPacketData None write rs'"
      using less [OF symmetricNAT_shorter [OF s]] filter_after [OF Cons] by simp
    then show ?thesis unfolding Cons
      by (subst copyPacketData.simps, subst copyPacketData.simps [of None]) (simp add: s split: packet_read.split)
  qed
qed

lemma copyPacketData_Nil: "copyPacketData None write [] = c_return ()"
  by (simp add: copyPacketData.simps)

section \<open>The queue keeps order\<close>

text \<open>
  What a queue accepts and what its reads return, in the order of these events; the reads of the relay have a buffer
  of \<open>MaxSegmentSize\<close> bytes.
\<close>

definition as_read :: "bytes \<times> endpoint \<Rightarrow> bytes \<times> endpoint" where
  "as_read p = (take MaxSegmentSize (fst p), snd p)"

inductive queue_run :: "queuedPacketConn \<Rightarrow> (bytes \<times> endpoint) list \<Rightarrow> (bytes \<times> endpoint) list \<Rightarrow> bool" where
  opened: "queue_run (newQueuedPacketConn fault) [] []"
| enqueued: "queue_run q acc del \<Longrightarrow> EnqueuePacket pick p a q = Some (q', r) \<Longrightarrow> queue_run q' (if r = Inr () then acc @ [(p, a)] else acc) del"
| pumped: "queue_run q acc del \<Longrightarrow> pumpBaseReads pick (Inr (p, a)) q = Some (q', r) \<Longrightarrow>
    queue_run q' (if r = Inr True then acc @ [(take (64 * 1024) p, a)] else acc) del"
| read: "queue_run q acc del \<Longrightarrow> queued_ReadFrom pick now t MaxSegmentSize q = Some (q', r) \<Longrightarrow>
    queue_run q' acc (case r of Inr x \<Rightarrow> del @ [x] | Inl e \<Rightarrow> del)"
| written: "queue_run q acc del \<Longrightarrow> queued_WriteTo p a q = Some (q', r) \<Longrightarrow> queue_run q' acc del"
| closed: "queue_run q acc del \<Longrightarrow> queued_Close q = Some (q', r) \<Longrightarrow> queue_run q' acc del"
| deadline: "queue_run q acc del \<Longrightarrow> SetReadDeadline d q = Some (q', r) \<Longrightarrow> queue_run q' acc del"

lemma select_in: "select pick ready = Some x \<Longrightarrow> x \<in> set ready"
  by (auto simp: select_def split: if_splits)

lemma select_None: "select pick ready = None \<longleftrightarrow> ready = []"
  by (simp add: select_def)

definition queue_inv :: "queuedPacketConn \<Rightarrow> (bytes \<times> endpoint) list \<Rightarrow> (bytes \<times> endpoint) list \<Rightarrow> bool" where
  "queue_inv q acc del \<longleftrightarrow> length (qc_packets q) \<le> queueSize \<and> (\<exists>taken. acc = taken @ qc_packets q \<and> del = map as_read taken)"

lemma queue_run_inv: "queue_run q acc del \<Longrightarrow> queue_inv q acc del"
proof (induction rule: queue_run.induct)
  case (opened fault)
  then show ?case by (simp add: queue_inv_def newQueuedPacketConn_def)
next
  case (enqueued q acc del pick p a q' r)
  then show ?case by (auto simp: EnqueuePacket_def queue_inv_def dest!: select_in split: if_splits)
next
  case (pumped q acc del pick p a q' r)
  then show ?case by (auto simp: pumpBaseReads_def queue_inv_def dest!: select_in split: if_splits)
next
  case (read q acc del pick now t q' r)
  show ?case
  proof (cases r)
    case (Inl e)
    then have "q' = q" using read(2)
      by (auto simp: queued_ReadFrom_def dest!: select_in split: if_splits option.splits list.splits prod.splits)
    then show ?thesis using read(3) Inl by simp
  next
    case (Inr x)
    then obtain payload addr rest where "qc_packets q = (payload, addr) # rest" "q' = q\<lparr>qc_packets := rest\<rparr>" "x = as_read (payload, addr)"
      using read(2) by (auto simp: queued_ReadFrom_def as_read_def dest!: select_in split: if_splits option.splits list.splits prod.splits)
    then show ?thesis using read(3) Inr by (fastforce simp: queue_inv_def)
  qed
next
  case (written q acc del p a q' r)
  then show ?case by (auto simp: queued_WriteTo_def queue_inv_def split: option.splits)
next
  case (closed q acc del q' r)
  then show ?case by (auto simp: queued_Close_def close_closed_def queue_inv_def split: if_splits)
next
  case (deadline q acc del d q' r)
  then show ?case by (auto simp: SetReadDeadline_def c_modify_def queue_inv_def)
qed

text \<open>
  C39: The queue of a packet connection, whatever its users and the reader of its socket do in which order: reads
  return the accepted packets in the order in which they were accepted, none of them twice and none skipped, and never more than
  32 wait.  An operation waits only while it has to: enqueueing while the queue is full, reading while it is empty, and neither
  once the connection is closed.
\<close>

theorem queue_fifo:
  assumes "queue_run q acc del"
  shows "(\<exists>taken. acc = taken @ qc_packets q \<and> del = map as_read taken) \<and> length (qc_packets q) \<le> 32
    \<and> (EnqueuePacket pick p a q = None \<longleftrightarrow> length (qc_packets q) = 32 \<and> \<not> qc_closed q)
    \<and> (queued_ReadFrom pick now t n q = None \<longleftrightarrow>
        qc_packets q = [] \<and> \<not> qc_closed q \<and> (\<forall>d. qc_readDeadline q = Some d \<longrightarrow> now < d \<and> t < d))"
proof -
  have i: "\<exists>taken. acc = taken @ qc_packets q \<and> del = map as_read taken" "length (qc_packets q) \<le> 32"
    using queue_run_inv [OF assms] by (auto simp: queue_inv_def queueSize_def)
  have "EnqueuePacket pick p a q = None \<longleftrightarrow> length (qc_packets q) = 32 \<and> \<not> qc_closed q"
    using i(2) by (auto simp: EnqueuePacket_def select_None queueSize_def)
  moreover have "queued_ReadFrom pick now t n q = None \<longleftrightarrow>
      qc_packets q = [] \<and> \<not> qc_closed q \<and> (\<forall>d. qc_readDeadline q = Some d \<longrightarrow> now < d \<and> t < d)"
    by (auto simp: queued_ReadFrom_def select_None split: list.splits option.splits if_splits)
  ultimately show ?thesis using i by blast
qed

text \<open>Two calls of \<^verbatim>\<open>Close\<close> that both look before either closes: the second one panics.\<close>

lemma concurrent_close_panics:
  assumes "\<not> qc_closed q"
  shows "\<exists>q' q'' e. close_closed q = Some (q', Inr ()) \<and> close_closed q' = Some (q'', Inl (Panic e))"
  using assms by (simp add: close_closed_def)

section \<open>DNS over TCP\<close>

text \<open>The queries answered one after the other, until one cannot be answered.\<close>

fun answerAll :: "mobile_env \<Rightarrow> (nat \<Rightarrow> instant) \<Rightarrow> nat \<Rightarrow> bytes list \<Rightarrow> core_state \<Rightarrow> (core_state \<times> bytes list \<times> unit go) option" where
  "answerAll env clock k [] core = Some (core, [], Inr ())"
| "answerAll env clock k (q # qs) core =
     (case answerPacket env (clock k) q core of
        None \<Rightarrow> None
      | Some (core', Inl (Panic e)) \<Rightarrow> Some (core', [], Inl (Panic e))
      | Some (core', Inl (Error e)) \<Rightarrow> Some (core', [], Inr ())
      | Some (core', Inr resp) \<Rightarrow> map_option (\<lambda>(c, rs, r). (c, resp # rs, r)) (answerAll env clock (Suc k) qs core'))"

lemma readFull_exact:
  assumes "concat cs = bs @ rest" "length bs = n"
  obtains cs' where "readFull n cs = (bs, cs')" "concat cs' = rest"
proof
  show "readFull n cs = (bs, snd (readFull n cs))" using readFull_concat(1) [of n cs] assms by (simp add: prod_eq_iff)
  show "concat (snd (readFull n cs)) = rest" using readFull_concat(2) [of n cs] assms by simp
qed

lemma serve_one:
  assumes "concat (dt_in s) = dnsFrame q @ rest" "0 < length q" "length q < 65536"
  obtains cs where "concat cs = rest" "serveLocalDNSTCP env clock s =
    (case answerPacket env (clock (length (dt_out s))) q (dt_core s) of
       None \<Rightarrow> None
     | Some (core, Inl (Panic e)) \<Rightarrow> Some (s\<lparr>dt_core := core, dt_in := cs\<rparr>, Inl (Panic e))
     | Some (core, Inl (Error e)) \<Rightarrow> Some (s\<lparr>dt_core := core, dt_in := cs\<rparr>, Inr ())
     | Some (core, Inr resp) \<Rightarrow>
         if dt_fault s (length (dt_out s)) \<noteq> None then Some (s\<lparr>dt_core := core, dt_in := cs\<rparr>, Inr ())
         else serveLocalDNSTCP env clock (s\<lparr>dt_core := core, dt_in := cs, dt_out := dt_out s @ [dnsFrame resp]\<rparr>))"
proof -
  obtain cs where 1: "readFull 2 (dt_in s) = (put16 (length q), cs)" "concat cs = q @ rest"
    using readFull_exact [of "dt_in s" "put16 (length q)" "q @ rest" 2] assms(1,3) by (auto simp: dnsFrame_def)
  obtain cs' where 2: "readFull (length q) cs = (q, cs')" "concat cs' = rest" using readFull_exact [OF 1(2) refl] by blast
  show thesis
    by (rule that [OF 2(2)], subst serveLocalDNSTCP.simps) (use assms(2,3) in \<open>simp add: 1 2 be16_put16 [unfolded One_nat_def] Let_def\<close>)
qed

text \<open>
  C38: The DNS server for connections over TCP, on any cutting of the stream into pieces: a client that sends queries as the standard frames them gets the
  frames of the answers the packet handler gives, in order, and the connection ends with the first query the handler refuses.
\<close>

theorem serveLocalDNSTCP_answers:
  assumes "concat (dt_in s) = concat (map dnsFrame qs)" "\<forall>q \<in> set qs. 0 < length q \<and> length q < 65536" "\<And>n. dt_fault s n = None"
  shows "case answerAll env clock (length (dt_out s)) qs (dt_core s) of
      None \<Rightarrow> serveLocalDNSTCP env clock s = None
    | Some (core, resps, r) \<Rightarrow> \<exists>rest. serveLocalDNSTCP env clock s =
        Some (s\<lparr>dt_core := core, dt_in := rest, dt_out := dt_out s @ map dnsFrame resps\<rparr>, r)"
  using assms
proof (induction qs arbitrary: s)
  case Nil
  obtain cs where "readFull 2 (dt_in s) = ([], cs)" using readFull_concat(1) [of 2 "dt_in s"] Nil(1) by (cases "readFull 2 (dt_in s)") simp
  then show ?case by (subst serveLocalDNSTCP.simps) auto
next
  case (Cons q qs)
  have "concat (dt_in s) = dnsFrame q @ concat (map dnsFrame qs)" "0 < length q" "length q < 65536" using Cons(2,3) by simp_all
  from serve_one [OF this, of env clock] obtain cs where cs: "concat cs = concat (map dnsFrame qs)"
    and e: "serveLocalDNSTCP env clock s =
      (case answerPacket env (clock (length (dt_out s))) q (dt_core s) of
         None \<Rightarrow> None
       | Some (core, Inl (Panic e)) \<Rightarrow> Some (s\<lparr>dt_core := core, dt_in := cs\<rparr>, Inl (Panic e))
       | Some (core, Inl (Error e)) \<Rightarrow> Some (s\<lparr>dt_core := core, dt_in := cs\<rparr>, Inr ())
       | Some (core, Inr resp) \<Rightarrow>
           if dt_fault s (length (dt_out s)) \<noteq> None then Some (s\<lparr>dt_core := core, dt_in := cs\<rparr>, Inr ())
           else serveLocalDNSTCP env clock (s\<lparr>dt_core := core, dt_in := cs, dt_out := dt_out s @ [dnsFrame resp]\<rparr>))" by blast
  have u: "s\<lparr>dt_core := c, dt_in := x\<rparr> = s\<lparr>dt_core := c, dt_in := x, dt_out := dt_out s\<rparr>" for c x by simp
  show ?case
  proof (cases "answerPacket env (clock (length (dt_out s))) q (dt_core s)")
    case None
    then show ?thesis by (simp add: e)
  next
    case (Some a)
    obtain core r where a: "a = (core, r)" by (cases a)
    consider (panic) m where "r = Inl (Panic m)" | (error) m where "r = Inl (Error m)" | (ok) resp where "r = Inr resp"
      by (metis gerr.exhaust sum.exhaust)
    then show ?thesis
    proof cases
      case (ok resp)
      let ?s = "s\<lparr>dt_core := core, dt_in := cs, dt_out := dt_out s @ [dnsFrame resp]\<rparr>"
      have "serveLocalDNSTCP env clock s = serveLocalDNSTCP env clock ?s" using Some a ok Cons(4) by (simp add: e)
      then show ?thesis using Cons(1) [of ?s] Cons(3,4) cs Some a ok by (auto split: option.splits)
    qed (use Some a in \<open>auto simp: e intro!: exI [of _ cs]\<close>)
  qed
qed

section \<open>Datagrams of an application\<close>

lemma on_queue_eval: "m (bp_queue s) = Some (q, r) \<Longrightarrow> on_queue m s = Some (s\<lparr>bp_queue := q\<rparr>, r)"
  by (simp add: on_queue_def c_zoom_def)

lemma bp_in_core_eval: "m (bp_core s) = Some (c, r) \<Longrightarrow> bp_in_core m s = Some (s\<lparr>bp_core := c\<rparr>, r)"
  by (simp add: bp_in_core_def c_zoom_def)

lemma Metadata_destination:
  assumes "md_DstIP m = Some ip" "plain_addr ip"
  shows "UDPAddr_String (Some ip, unat (md_DstPort m)) = DestinationAddress m" "unat (md_DstPort m) < 65536"
  using assms unsigned_less [of "md_DstPort m"] by (simp_all add: UDPAddr_String_plain DestinationAddress_def)

text \<open>A DNS query of an application: the answer waits in the queue, and the relay passes it on.\<close>

lemma dns_query_answered:
  assumes "md_DstIP m = Some ip" "plain_addr ip" "IsVPNDNSAddress (addr_String ip) (int (unat (md_DstPort m)))"
    and "answerPacket env now b (bp_core s) = Some (core, Inr resp)"
    and "length (qc_packets (bp_queue s)) < 32" "\<not> qc_closed (bp_queue s)"
  shows "bill_WriteTo env pick now b (UDPAddr (Some ip, unat (md_DstPort m))) s =
      Some (s\<lparr>bp_core := core, bp_queue := (bp_queue s)\<lparr>qc_packets := qc_packets (bp_queue s) @ [(resp, (Some ip, unat (md_DstPort m)))]\<rparr>\<rparr>, Inr (length b))"
    and "nat_passes (DestinationAddress m) (Datagram resp (Some (UDPAddr (Some ip, unat (md_DstPort m)))))"
proof -
  let ?e = "(Some ip, unat (md_DstPort m))"
  have "EnqueuePacket pick resp ?e (bp_queue s) = Some ((bp_queue s)\<lparr>qc_packets := qc_packets (bp_queue s) @ [(resp, ?e)]\<rparr>, Inr ())"
    using assms(5,6) by (simp add: EnqueuePacket_def select_def queueSize_def)
  then show "bill_WriteTo env pick now b (UDPAddr ?e) s =
      Some (s\<lparr>bp_core := core, bp_queue := (bp_queue s)\<lparr>qc_packets := qc_packets (bp_queue s) @ [(resp, ?e)]\<rparr>\<rparr>, Inr (length b))"
    using assms(2-4) Metadata_destination(2) [OF assms(1,2)]
    by (simp add: bill_WriteTo_def packetDestination_plain plain_texts bill_handleDNSQuery_def c_bind_def bp_in_core_def on_queue_def c_zoom_def)
  show "nat_passes (DestinationAddress m) (Datagram resp (Some (UDPAddr ?e)))"
    using Metadata_destination(1) [OF assms(1,2)] by (simp add: nat_passes_def)
qed

text \<open>
  C37: Datagrams that are planned to another address than the one the application names are sent, and their replies are lost.  A datagram
  that is not a DNS query and not blocked goes to the target of its plan; the relay of the tunnel passes replies from that target on exactly if it is the
  address the application sent to, and drops every one of them otherwise.  Applications that send datagrams to a fake address or to an address a rule maps
  never get an answer.
\<close>

theorem redirected_replies_lost:
  assumes "md_Network m = UDP" "md_DstIP m = Some ip" "plain_addr ip" "\<not> IsVPNDNSAddress (addr_String ip) (int (unat (md_DstPort m)))"
    and "PlanRequest (me_dial_env env) now True (mobileRequest (addr_String ip) (unat (md_DstPort m))) (bp_core s) = Some (core, Inr plan)"
    and "\<not> dp_Blocked plan" "me_resolveUDPAddr env (TargetAddress plan) = Inr target"
    and "qc_fault (bp_queue s) (length (qc_sent (bp_queue s))) = None"
  shows "\<exists>to. Metadata_UDPAddr m = Some to \<and> bill_WriteTo env pick now b (UDPAddr to) s =
      Some (s\<lparr>bp_core := core, bp_queue := (bp_queue s)\<lparr>qc_sent := qc_sent (bp_queue s) @ [(b, target)]\<rparr>\<rparr>, Inr (length b))
    \<and> copyPacketData (Some (DestinationAddress m)) write (map (\<lambda>r. Datagram r (Some (UDPAddr target))) replies) =
      (if UDPAddr_String target = UDPAddr_String to then copyPacketData None write (map (\<lambda>r. Datagram r (Some (UDPAddr target))) replies)
       else c_return ())"
proof -
  let ?to = "(Some ip, unat (md_DstPort m))"
  note d = Metadata_destination [OF assms(2,3)]
  have "bill_WriteTo env pick now b (UDPAddr ?to) s =
      Some (s\<lparr>bp_core := core, bp_queue := (bp_queue s)\<lparr>qc_sent := qc_sent (bp_queue s) @ [(b, target)]\<rparr>\<rparr>, Inr (length b))"
    using assms(3-8) d(2)
    by (simp add: bill_WriteTo_def packetDestination_plain plain_texts c_bind_def bp_in_core_def on_queue_def c_zoom_def queued_WriteTo_def Let_def)
  moreover have "filter (nat_passes (DestinationAddress m)) (map (\<lambda>r. Datagram r (Some (UDPAddr target))) replies) =
      (if UDPAddr_String target = UDPAddr_String ?to then map (\<lambda>r. Datagram r (Some (UDPAddr target))) replies else [])"
    by (simp add: d(1) nat_passes_def filter_map comp_def)
  ultimately show ?thesis using assms(1,2) by (simp add: Metadata_UDPAddr_def copyPacketData_nat copyPacketData_Nil)
qed

text \<open>An address that a rule maps to another one is planned to that one.\<close>

lemma PlanRequest_mapped:
  assumes "ParseIP (rc_Host req) \<noteq> None" "rc_Host req \<noteq> []" "lookupDomainByIP now (rc_Host req) (cs_dns s) = (d, None)"
    and "getIPPolicy (de_ipMatchers env) (rc_Host req) = Some p" "p_MapTo p = Some t" "t \<noteq> []" "t \<noteq> rc_Host req" "ParseIP t \<noteq> None"
    and "\<not> HasPrefix t tagPrefix" "last_index_byte (CHR ''/'') t = None"
    and "p_Mode (mergePolicies [p, de_defaultPolicy env]) \<noteq> ModeBlock" "p_Port (mergePolicies [p, de_defaultPolicy env]) \<le> 0"
  shows "\<exists>plan. PlanRequest env now True req s = Some (s\<lparr>cs_dns := d\<rparr>, Inr plan) \<and> \<not> dp_Blocked plan \<and> dp_TargetHost plan = t
    \<and> dp_TargetPort plan = rc_Port req"
proof -
  have "ipRedirect env now True (rc_Host req) s' = Some (s', Inr (t, Some p))" for s'
    using assms(4-10) by (auto simp: ipRedirect_def mapToTarget_def c_bind_def)
  then have "genPolicyWithOptions env now True (rc_Host req) r s' = Some (s', Inr (genOk t (mergePolicies [p, de_defaultPolicy env]) False True))" for r s'
    using assms(1,11) by (simp add: genPolicyWithOptions_def genPolicyIP_def c_orFail_def c_bind_def c_try_def)
  then show ?thesis using assms(1-3,12)
    by (simp add: PlanRequest_def Resolver_LookupDomain_def on_dns_def c_zoom_def c_call_def c_bind_def genOk_def)
qed

section \<open>A sample bridge\<close>

definition mapRule :: Policy where
  "mapRule = unsetPolicy\<lparr>p_Mode := ModeRaw, p_MapTo := Some ''8.8.8.8''\<rparr>"

definition sampleBridge :: mobile_env where
  "sampleBridge = \<lparr>me_dial_env = sampleDial\<lparr>de_ipMatchers := buildIPMatchers [(''*'', mapRule)]\<rparr>,
     me_unpack = (\<lambda>b. if b = [7] then Inr emptyMsg else Inl (Error ''overflow'')), me_pack = (\<lambda>msg. Inr [1, 2, 3]),
     me_dial = (\<lambda>target timeout. Inl (Error ''refused'')),
     me_resolveUDPAddr = (\<lambda>s. if s = ''8.8.8.8:443'' then Inr (Some (IP4 0x08080808), 443) else Inl (Error ''no such host'')),
     me_listen = Inr (\<lambda>n. None), me_typeName = (\<lambda>n. [])\<rparr>"

definition sampleFlow :: Metadata where
  "sampleFlow = \<lparr>md_Network = UDP, md_SrcIP = Some (IP4 0x0A000001), md_MidIP = None, md_DstIP = Some (IP4 0x09090909),
     md_SrcPort = 5000, md_MidPort = 0, md_DstPort = 443\<rparr>"

definition sampleSession :: billPacketConn where
  "sampleSession = \<lparr>bp_core = sampleCore, bp_queue = newQueuedPacketConn (\<lambda>n. None)\<rparr>"

lemma sample_text: "addr_String (IP4 0x09090909) = ''9.9.9.9''" "addr_String (IP4 0x08080808) = ''8.8.8.8''"
  by (simp_all add: string4_def octets_expand string_of_nat.simps digit_char_values)

lemma sample_addresses: "ParseAddr ''9.9.9.9'' = Some (IP4 0x09090909)" "ParseAddr ''8.8.8.8'' = Some (IP4 0x08080808)"
  using ParseAddr_string4 [of "0x09090909"] ParseAddr_string4 [of "0x08080808"] sample_text by (simp_all only: addr_String.simps)

lemma sample_not_fake: "lookupDomainByIP 0 ''9.9.9.9'' (cs_dns sampleCore) = (cs_dns sampleCore, None)"
proof -
  have l: "LookupDomain st 0 ''9.9.9.9'' = (st, None)" if "ipToEntry st = []" for st
    using that by (simp add: LookupDomain_def Let_def)
  have f: "ds_fakes (cs_dns sampleCore) = exampleStores" "ds_ipDomainCache (cs_dns sampleCore) = None"
    by (simp_all add: sampleCore_def sampleState_def)
  have e: "ipToEntry (defaultFakeIPv4Store exampleStores) = []" "ipToEntry (defaultFakeIPv6Store exampleStores) = []"
    by (simp_all add: exampleStores_def)
  have "lookupFakeDomainByIP 0 0 exampleStores ''9.9.9.9'' = (exampleStores, None)"
    by (simp add: lookupFakeDomainByIP_def l [OF e(1)] l [OF e(2)])
  moreover have "(cs_dns sampleCore)\<lparr>ds_fakes := exampleStores\<rparr> = cs_dns sampleCore" by (simp add: sampleCore_def sampleState_def)
  ultimately show ?thesis by (simp add: lookupDomainByIP_def f)
qed

lemma findRoot_root: "findRoot bs (BitNode None None (Some v)) = Some v"
  by (cases bs) (simp_all add: findRoot_def)

lemma sample_mapped: "getIPPolicy (buildIPMatchers [(''*'', mapRule)]) ''9.9.9.9'' = Some mapRule"
proof -
  have "buildIPMatchers [(''*'', mapRule)] = (BitNode None None (Some mapRule), NewIPv6Trie)"
    by (simp add: buildIPMatchers_def expandPattern.simps splitByPipe_def ignoring_def IPv4Trie_Insert_def isIPv6_def setRoot_def NewIPv4Trie_def newBitNode_def)
  then show ?thesis
    by (simp add: sample_addresses getIPPolicy_def isIPv6_def IPv4Trie_Find_def findRoot_root)
qed

lemma sample_plan:
  "\<exists>plan. PlanRequest (me_dial_env sampleBridge) 0 True (mobileRequest ''9.9.9.9'' 443) sampleCore = Some (sampleCore, Inr plan)
    \<and> \<not> dp_Blocked plan \<and> TargetAddress plan = ''8.8.8.8:443''"
proof -
  have c: "sampleCore\<lparr>cs_dns := cs_dns sampleCore\<rparr> = sampleCore" by simp
  have p: "ParseIP ''9.9.9.9'' \<noteq> None" "ParseIP ''8.8.8.8'' \<noteq> None" by (simp_all add: ParseIP_def sample_addresses)
  obtain plan where "PlanRequest (me_dial_env sampleBridge) 0 True (mobileRequest ''9.9.9.9'' 443) sampleCore = Some (sampleCore\<lparr>cs_dns := cs_dns sampleCore\<rparr>, Inr plan)"
    "\<not> dp_Blocked plan" "dp_TargetHost plan = ''8.8.8.8''" "dp_TargetPort plan = rc_Port (mobileRequest ''9.9.9.9'' 443)"
    using PlanRequest_mapped [of "mobileRequest ''9.9.9.9'' 443" 0 sampleCore "cs_dns sampleCore" "me_dial_env sampleBridge" mapRule "''8.8.8.8''"]
      sample_not_fake sample_mapped p
    by (auto simp: mobileRequest_def sampleBridge_def mapRule_def unsetPolicy_def zeroPolicy_def sampleDial_def HasPrefix_def tagPrefix_def policy_simps)
  then show ?thesis unfolding c
    by (auto simp: TargetAddress_def mobileRequest_def JoinHostPort_def formatInt_def Itoa_def string_of_nat.simps digit_char_values)
qed

theorem redirected_replies_lost_witness:
  "\<exists>to s'. Metadata_UDPAddr sampleFlow = Some to \<and> bill_WriteTo sampleBridge 0 0 [7] (UDPAddr to) sampleSession = Some (s', Inr 1)
    \<and> qc_sent (bp_queue s') = [([7], (Some (IP4 0x08080808), 443))]
    \<and> copyPacketData (Some (DestinationAddress sampleFlow)) (\<lambda>b. queued_WriteTo b (None, 0))
        (map (\<lambda>r. Datagram r (Some (UDPAddr (Some (IP4 0x08080808), 443)))) [[1], [2]]) = c_return ()"
proof -
  obtain plan where plan: "PlanRequest (me_dial_env sampleBridge) 0 True (mobileRequest ''9.9.9.9'' 443) sampleCore = Some (sampleCore, Inr plan)"
    "\<not> dp_Blocked plan" "TargetAddress plan = ''8.8.8.8:443''" using sample_plan by blast
  have "UDPAddr_String (Some (IP4 0x08080808), 443) \<noteq> UDPAddr_String (Some (IP4 0x09090909), 443)"
    by (simp add: UDPAddr_String_plain plain_addr_def AddrPort_String_def string4_inj)
  moreover have "md_Network sampleFlow = UDP" "md_DstIP sampleFlow = Some (IP4 0x09090909)" "plain_addr (IP4 0x09090909)"
    "unat (md_DstPort sampleFlow) = 443" "Metadata_UDPAddr sampleFlow = Some (Some (IP4 0x09090909), 443)"
    by (simp_all add: sampleFlow_def plain_addr_def Metadata_UDPAddr_def)
  moreover have "me_resolveUDPAddr sampleBridge ''8.8.8.8:443'' = Inr (Some (IP4 0x08080808), 443)" "bp_core sampleSession = sampleCore"
    "qc_fault (bp_queue sampleSession) n = None" "qc_sent (bp_queue sampleSession) = []" for n
    by (simp_all add: sampleBridge_def sampleSession_def newQueuedPacketConn_def)
  ultimately show ?thesis
    using redirected_replies_lost [of sampleFlow "IP4 0x09090909" sampleBridge 0 sampleSession sampleCore plan "(Some (IP4 0x08080808), 443)" 0 "[7]"
        "\<lambda>b. queued_WriteTo b (None, 0)" "[[1], [2]]"] plan sample_text
    by (simp add: IsVPNDNSAddress_def)
qed

definition sampleClient :: dns_tcp where
  "sampleClient = \<lparr>dt_core = sampleCore, dt_in = [[0], [1, 7, 0, 1], [9]], dt_out = [], dt_fault = (\<lambda>n. None)\<rparr>"

lemma sample_answers:
  "\<exists>core. answerAll sampleBridge (\<lambda>n. 0) 0 [[7], [9]] sampleCore = Some (core, [[1, 2, 3]], Inr ())"
  by (simp add: answerPacket_def HandleDNSQueryPacket_def sampleBridge_def handleDNSQuery_def emptyMsg_def on_dns_def c_zoom_def c_bind_def c_wrap_def
      c_map_error_def sampleDial_def dnsExchange_def sampleEnv_def)

theorem serveLocalDNSTCP_answers_witness:
  "\<exists>s. serveLocalDNSTCP sampleBridge (\<lambda>n. 0) sampleClient = Some (s, Inr ()) \<and> dt_out s = [[0, 3, 1, 2, 3]]"
proof -
  have c: "concat (dt_in sampleClient) = concat (map dnsFrame [[7], [9]])" "\<And>n. dt_fault sampleClient n = None" "dt_out sampleClient = []"
    "dt_core sampleClient = sampleCore" by (simp_all add: sampleClient_def dnsFrame_def put16_def)
  obtain core where "answerAll sampleBridge (\<lambda>n. 0) 0 [[7], [9]] sampleCore = Some (core, [[1, 2, 3]], Inr ())" using sample_answers by blast
  then show ?thesis
    using serveLocalDNSTCP_answers [OF c(1) _ c(2), of sampleBridge "\<lambda>n. 0"] by (auto simp: c(3,4) dnsFrame_def put16_def)
qed

theorem queue_fifo_witness:
  "\<exists>q. queue_run q [([1], (None, 53)), ([2], (None, 53))] [([1], (None, 53))] \<and> qc_packets q = [([2], (None, 53))]
    \<and> EnqueuePacket 0 [3] (None, 53) q \<noteq> None"
proof -
  let ?q0 = "newQueuedPacketConn (\<lambda>n. None)" and ?a = "(None, 53) :: endpoint"
  have "queue_run (?q0\<lparr>qc_packets := [([1], ?a)]\<rparr>) (if Inr () = (Inr () :: unit go) then [] @ [([1], ?a)] else []) []"
    by (rule queue_run.enqueued [OF queue_run.opened, where pick = 0]) (simp add: EnqueuePacket_def newQueuedPacketConn_def select_def queueSize_def)
  then have "queue_run (?q0\<lparr>qc_packets := [([1], ?a)]\<rparr>) [([1], ?a)] []" by simp
  from queue_run.enqueued [OF this, of 0 "[2]" ?a "?q0\<lparr>qc_packets := [([1], ?a), ([2], ?a)]\<rparr>" "Inr ()"]
  have "queue_run (?q0\<lparr>qc_packets := [([1], ?a), ([2], ?a)]\<rparr>) [([1], ?a), ([2], ?a)] []"
    by (simp add: EnqueuePacket_def newQueuedPacketConn_def select_def queueSize_def)
  from queue_run.read [OF this, of 0 0 0 "?q0\<lparr>qc_packets := [([2], ?a)]\<rparr>" "Inr ([1], ?a)"]
  have r: "queue_run (?q0\<lparr>qc_packets := [([2], ?a)]\<rparr>) [([1], ?a), ([2], ?a)] [([1], ?a)]"
    by (simp add: queued_ReadFrom_def newQueuedPacketConn_def select_def MaxSegmentSize_def)
  then show ?thesis using queue_fifo [OF r, of 0 "[3]" ?a] by (intro exI [of _ "?q0\<lparr>qc_packets := [([2], ?a)]\<rparr>"]) simp
qed

section \<open>Connections of an application\<close>

text \<open>
  Over TCP a connection to an address is refused if its plan is blocked, and otherwise dialled at the target of the plan; with the mode that sends
  fake packets it is not wrapped, so no fake packet is sent.
\<close>

lemma DialContext_planned:
  assumes "md_DstIP m = Some ip" "\<not> IsVPNDNSAddress (addr_String ip) (int (unat (md_DstPort m)))"
    and "PlanRequest (me_dial_env env) now True (mobileRequest (addr_String ip) (unat (md_DstPort m))) (ms_core s) = Some (core, Inr plan)"
  shows "\<exists>s'. ms_core s' = core \<and> DialContext env now (Some m) s = Some (s',
    if dp_Blocked plan then Inl (Error (''blocked by policy: '' @ addr_String ip))
    else case me_dial env (TargetAddress plan) (DefaultDialTimeout (dp_Policy plan)) of
      Inl e \<Rightarrow> Inl e
    | Inr c \<Rightarrow> Inr (if p_Mode (dp_Policy plan) = ModeTTLD then Plain c else Wrapped (WrapTCPConn c (ms_ttl s)) plan))"
  using assms by (auto simp: DialContext_def Let_def c_bind_def c_modify_def in_core_def c_zoom_def split: sum.split)

text \<open>The identifiers of the connections stay within 20 bits.\<close>

lemma nextID_bound: "snd (nextID c) \<le> 0xFFFFF" "fst (nextID c) \<le> 0xFFFFF"
  by (auto simp: nextID_def Let_def)

section \<open>The interface of the application\<close>

lemma pushLogs:
  assumes "length (ap_logEntries s) \<le> maxLogs"
  shows "ap_logEntries (fold pushLog msgs s) = drop (length (ap_logEntries s @ msgs) - maxLogs) (ap_logEntries s @ msgs)"
  using assms
proof (induction msgs arbitrary: s)
  case (Cons msg msgs)
  let ?es = "ap_logEntries s @ [msg]"
  have p: "ap_logEntries (pushLog msg s) = drop (length ?es - maxLogs) ?es"
  proof (cases "length ?es > maxLogs")
    case True
    then have "length ?es - maxLogs = 1" using Cons(2) by simp
    then show ?thesis using True by (simp only: pushLog_def Let_def if_True) simp
  qed (simp add: pushLog_def Let_def)
  then have l: "length (ap_logEntries (pushLog msg s)) \<le> maxLogs" using Cons(2) by (simp add: maxLogs_def)
  have "drop (length (drop k es @ msgs) - n) (drop k es @ msgs) = drop (length (es @ msgs) - n) (es @ msgs)"
    if "k = length es - n" for k n and es :: "string list"
    using that by (cases "length es \<le> n") (simp_all add: drop_drop add.commute)
  from this [OF refl, of ?es maxLogs] Cons(1) [OF l] show ?case by (simp add: p)
qed simp

text \<open>Reading the logs returns the last 500 messages in order, and empties them.\<close>

lemma GetLogs_after:
  "ap_logEntries s = [] \<Longrightarrow> snd (GetLogs (fold pushLog msgs s)) = concat (drop (length msgs - 500) msgs)
    \<and> ap_logEntries (fst (GetLogs (fold pushLog msgs s))) = []"
proof -
  have "snd (GetLogs s) = concat (ap_logEntries s) \<and> ap_logEntries (fst (GetLogs s)) = []" for s by (simp add: GetLogs_def)
  then show "ap_logEntries s = [] \<Longrightarrow> ?thesis" using pushLogs [of s msgs] by (simp add: maxLogs_def)
qed

text \<open>Starting the core: it reports success exactly if it runs afterwards, and the bridge is the proxy of the engine exactly while it runs.\<close>

lemma StartBill_result:
  assumes "StartBill le now joinPath startEngine startLine fd configName s = Some (s', Inr msg)"
    and "ap_customProxy s = ap_isRunning s"
  shows "(msg = [] \<longleftrightarrow> ap_isRunning s') \<or> ap_workingDir s = []" "ap_customProxy s' = ap_isRunning s'"
  using assms
  by (auto simp: StartBill_def Let_def c_bind_def c_modify_def c_try_def c_zoom_def pushLog_def
      split: if_splits option.splits prod.splits sum.splits gerr.splits)

text \<open>A configuration with an unknown log level passes the check of the application, and does not load.\<close>

lemma checked_not_loaded:
  assumes "parse text = Inr doc" "le_file le f = Inr doc" "decodeConfig (le_lookupIP le) doc = Inr conf"
    and "cf_LogLevel conf \<noteq> []" "ToUpper (cf_LogLevel conf) \<notin> {''DEBUG'', ''INFO'', ''ERROR''}"
  shows "CheckConfig parse (le_lookupIP le) text = Inr []"
    and "LoadConfig le now f g = Some (g, Inl (Error (''unknown log level: '' @ cf_LogLevel conf)))"
  using assms by (simp_all add: CheckConfig_def LoadConfig_def loadSteps_def loadLevel_def c_bind_def)

end
