(* ===== verification/Spec2Isabelle.thy ===== *)
theory Spec2Isabelle
  imports Mobile_Bridge
begin

text \<open>
  A verification of the traffic core of Bill VPN (\<^verbatim>\<open>src/internal\<close>).
\<close>

section \<open>Components together\<close>

text \<open>The domain a question asks for.\<close>

definition asked_domain :: "Question \<Rightarrow> string" where
  "asked_domain question = ToLower (TrimSuffix (q_Name question) ''.'')"

text \<open>The plan for a domain, reported for the address it was recovered from.\<close>

definition reported_for :: "string \<Rightarrow> string \<Rightarrow> (core_state \<times> DialPlan go) option \<Rightarrow> (core_state \<times> DialPlan go) option" where
  "reported_for ip domain =
     map_option (map_prod id (map_sum id (\<lambda>plan. plan\<lparr>dp_OriginHost := ip, dp_RecoveredDomain := domain\<rparr>)))"

text \<open>
  C40: The DNS handler and the planner fit together.  When the handler answers a query for a routed domain, every
  address of the type asked for in the reply is one fake address, and within the next second a request to
  connect to that address is planned exactly as a request for the domain itself would be, in the
  state after the lookup: the same target, port, policy and verdict, with the address reported as the origin
  and the domain as recovered.  In particular a domain that a rule blocks is blocked
  for clients that connect by address.
\<close>

theorem fake_answer_planned_as_domain:
  assumes "core_inv s"
    and "msg_Question req = [question]" "q_Qclass question = ClassINET"
    and "q_Qtype question = TypeA \<or> q_Qtype question = TypeAAAA"
    and "shouldUseFakeIP (de_dns env) (asked_domain question)" "ParseIP (asked_domain question) = None"
    and "env_exchange (de_dns env) (ds_exchanges (cs_dns s)) req = Inr up" "msg_Rcode up = RcodeSuccess"
  shows "\<exists>d r. handleDNSQuery (de_dns env) now req (cs_dns s) = Some (d, r) \<and>
    (case r of
       Inl e \<Rightarrow> e \<in> {exhausted ''allocate fake ip'', exhausted ''allocate fallback fake ip''}
     | Inr reply \<Rightarrow> \<exists>ip. answers_only (q_Qtype question) ip (msg_Answer reply) \<and>
         (\<forall>t < now + second. \<forall>logger ctx. PlanRequest env t logger (ctx\<lparr>rc_Host := ip\<rparr>) (s\<lparr>cs_dns := d\<rparr>) =
           reported_for ip (asked_domain question)
             (PlanRequest env t logger (ctx\<lparr>rc_Host := asked_domain question\<rparr>) (s\<lparr>cs_dns := fst (lookupDomainByIP t ip d)\<rparr>))))"
proof -
  let ?d = "asked_domain question" and ?q = "q_Qtype question"
  have "stores_inv (ds_fakes (cs_dns s))" using assms(1) by (simp add: core_inv_def dns_inv_def)
  from handleDNSQuery_answer [OF this assms(2-5) [unfolded asked_domain_def] assms(7,8), of now]
  obtain d r where h: "handleDNSQuery (de_dns env) now req (cs_dns s) = Some (d, r)"
    and c: "case r of Inl e \<Rightarrow> e \<in> {exhausted ''allocate fake ip'', exhausted ''allocate fallback fake ip''}
      | Inr reply \<Rightarrow> \<exists>ip. stands_for now ?d ?q ip d \<and> answers_only ?q ip (msg_Answer reply)"
    unfolding asked_domain_def by blast
  have d: "?d \<noteq> []" "ToLower ?d = ?d" using assms(5) by (auto simp: shouldUseFakeIP_def classifyDomainRoute_def asked_domain_def)
  have "PlanRequest env t logger (ctx\<lparr>rc_Host := ip\<rparr>) (s\<lparr>cs_dns := d\<rparr>) =
      reported_for ip ?d (PlanRequest env t logger (ctx\<lparr>rc_Host := ?d\<rparr>) (s\<lparr>cs_dns := fst (lookupDomainByIP t ip d)\<rparr>))"
    if s: "stands_for now ?d ?q ip d" and t: "t < now + second" for ip t logger ctx
  proof -
    have "ParseIP ip \<noteq> None"
      using s assms(4) by (auto simp: stands_for_def ParseIP_def ParseAddr_string6 elim!: family_ip_A family_ip_AAAA)
    moreover obtain d1 where l: "lookupDomainByIP t ip d = (d1, Some ?d)"
      using stands_for_lookup [OF s t] d(2) by (cases "lookupDomainByIP t ip d") simp
    ultimately show ?thesis
      using PlanRequest_recovered [of "ctx\<lparr>rc_Host := ip\<rparr>" t "s\<lparr>cs_dns := d\<rparr>" d1 ?d env logger] d(1) assms(6)
      by (simp add: reported_for_def)
  qed
  with h c show ?thesis by (intro exI [of _ d] exI [of _ r]) (auto split: sum.splits)
qed

definition catchAll :: dial_env where
  "catchAll = sampleDial\<lparr>de_dns := sampleEnv (Some (LabelNode [] None (Some zeroPolicy)))\<rparr>"

theorem fake_answer_planned_as_domain_witness:
  "\<exists>d r. handleDNSQuery (de_dns catchAll) 0 sampleReq (cs_dns sampleCore) = Some (d, r) \<and>
    (case r of
       Inl e \<Rightarrow> e \<in> {exhausted ''allocate fake ip'', exhausted ''allocate fallback fake ip''}
     | Inr reply \<Rightarrow> \<exists>ip. answers_only TypeA ip (msg_Answer reply) \<and>
         (\<forall>t < 0 + second. \<forall>logger ctx. PlanRequest catchAll t logger (ctx\<lparr>rc_Host := ip\<rparr>) (sampleCore\<lparr>cs_dns := d\<rparr>) =
           reported_for ip ''x.a.b''
             (PlanRequest catchAll t logger (ctx\<lparr>rc_Host := ''x.a.b''\<rparr>) (sampleCore\<lparr>cs_dns := fst (lookupDomainByIP t ip d)\<rparr>))))"
proof -
  let ?q = "\<lparr>q_Name = ''X.a.b.'', q_Qtype = TypeA, q_Qclass = ClassINET\<rparr>"
  have "shouldUseFakeIP (de_dns catchAll) ''x.a.b''"
    by (simp add: shouldUseFakeIP_def classifyDomainRoute_def catchAll_def sampleEnv_def DomainMatcher_Find_def label_steps.simps lower_eval)
  moreover have "msg_Question sampleReq = [?q]" "env_exchange (de_dns catchAll) n sampleReq = Inr sampleUp" "msg_Rcode sampleUp = RcodeSuccess" for n
    by (simp_all add: sampleReq_def SetQuestion_def catchAll_def sampleEnv_def sampleUp_def emptyMsg_def RcodeSuccess_def)
  moreover have "ParseIP ''x.a.b'' = None" by (simp add: ParseIP_def ParseAddr_def parseIPv4_def netip_eval)
  ultimately show ?thesis
    using fake_answer_planned_as_domain [of sampleCore sampleReq ?q catchAll sampleUp 0] sampleCore_inv
    unfolding asked_domain_def Question.simps sample_domain by simp
qed

end
